(* ===== verification/Prelude.thy ===== *)
theory Prelude
  imports Main "HOL-Library.Char_ord" "HOL-Library.List_Lexorder" "HOL-Library.Sublist"
    "HOL-Library.Multiset"
begin

text \<open>
  What the components share.

  \<^item> Results: Rust's \<open>Result<T, E>\<close> is the sum \<open>'e + 'a\<close>, with \<open>Err\<close> and \<open>Ok\<close> naming its two
    sides; \<open>rbind\<close> is the \<open>?\<close> operator, \<open>try_map\<close> and \<open>try_fold\<close> are loops that stop at the
    first error.
  \<^item> Strings: Rust's \<open>String\<close> and \<open>&str\<close> are UTF-8 byte sequences, and so is HOL's \<open>string\<close> here:
    \<open>length\<close> is Rust's \<open>len()\<close>, and the order (Char_ord with List_Lexorder) is Rust's byte-wise
    order. The functions of \<open>str\<close> that the program calls are defined on byte lists.
  \<^item> Ordered maps: a \<open>BTreeMap\<close> is an association list in strictly increasing key order, so that
    iterating it is iterating the list; a \<open>BTreeSet\<close> is a strictly increasing list. The locale
    \<open>ordered_map\<close> is the contract that the client components use.
\<close>

named_theorems result_simps \<open>the result monad unfolded\<close>
named_theorems str_simps \<open>string functions on concatenations\<close>


section \<open>Results\<close>

abbreviation Err :: "'e \<Rightarrow> 'e + 'a" where
  "Err \<equiv> Inl"

abbreviation Ok :: "'a \<Rightarrow> 'e + 'a" where
  "Ok \<equiv> Inr"

definition rbind :: "'e + 'a \<Rightarrow> ('a \<Rightarrow> 'e + 'b) \<Rightarrow> 'e + 'b" where
  "rbind r f = (case r of Inl e \<Rightarrow> Inl e | Inr x \<Rightarrow> f x)"

definition map_err :: "('e \<Rightarrow> 'f) \<Rightarrow> 'e + 'a \<Rightarrow> 'f + 'a" where
  "map_err g r = (case r of Inl e \<Rightarrow> Inl (g e) | Inr x \<Rightarrow> Inr x)"

definition ok_or :: "'e \<Rightarrow> 'a option \<Rightarrow> 'e + 'a" where
  "ok_or e x = (case x of None \<Rightarrow> Inl e | Some v \<Rightarrow> Inr v)"

definition is_ok :: "'e + 'a \<Rightarrow> bool" where
  "is_ok r = (case r of Inl _ \<Rightarrow> False | Inr _ \<Rightarrow> True)"

lemma rbind_simps [simp, result_simps]:
  "rbind (Inl e) f = Inl e"
  "rbind (Inr x) f = f x"
  by (simp_all add: rbind_def)

lemma map_err_simps [simp, result_simps]:
  "map_err g (Inl e) = Inl (g e)"
  "map_err g (Inr x) = Inr x"
  by (simp_all add: map_err_def)

lemma ok_or_simps [simp, result_simps]:
  "ok_or e None = Inl e"
  "ok_or e (Some x) = Inr x"
  by (simp_all add: ok_or_def)

lemma is_ok_simps [simp, result_simps]:
  "\<not> is_ok (Inl e)"
  "is_ok (Inr x)"
  by (simp_all add: is_ok_def)

lemma rbind_eq_Inr: "rbind r f = Inr y \<longleftrightarrow> (\<exists>x. r = Inr x \<and> f x = Inr y)"
  by (cases r) auto

lemma rbind_eq_Inl: "rbind r f = Inl e \<longleftrightarrow> r = Inl e \<or> (\<exists>x. r = Inr x \<and> f x = Inl e)"
  by (cases r) auto

lemma map_err_eq_Inr [simp]: "map_err g r = Inr x \<longleftrightarrow> r = Inr x"
  by (cases r) auto

lemma map_err_eq_Inl: "map_err g r = Inl e \<longleftrightarrow> (\<exists>e'. r = Inl e' \<and> e = g e')"
  by (cases r) auto

lemma ok_or_eq_Inr [simp]: "ok_or e x = Inr y \<longleftrightarrow> x = Some y"
  by (cases x) auto

lemma ok_or_eq_Inl: "ok_or e x = Inl e' \<longleftrightarrow> x = None \<and> e = e'"
  by (cases x) auto

lemma is_ok_iff: "is_ok r \<longleftrightarrow> (\<exists>x. r = Inr x)"
  by (cases r) auto

lemma rbind_cong [fundef_cong]:
  assumes "r = r'" and "\<And>x. r' = Inr x \<Longrightarrow> f x = g x"
  shows "rbind r f = rbind r' g"
  using assms by (cases r') auto

lemmas result_dests = rbind_eq_Inr rbind_eq_Inl map_err_eq_Inl ok_or_eq_Inl

text \<open>A loop that maps or updates and leaves at the first error.\<close>

fun try_map :: "('a \<Rightarrow> 'e + 'b) \<Rightarrow> 'a list \<Rightarrow> 'e + 'b list" where
  "try_map f [] = Inr []"
| "try_map f (x # xs) = rbind (f x) (\<lambda>y. rbind (try_map f xs) (\<lambda>ys. Inr (y # ys)))"

fun try_fold :: "('a \<Rightarrow> 's \<Rightarrow> 'e + 's) \<Rightarrow> 'a list \<Rightarrow> 's \<Rightarrow> 'e + 's" where
  "try_fold f [] s = Inr s"
| "try_fold f (x # xs) s = rbind (f x s) (try_fold f xs)"

lemma try_map_cong [fundef_cong]:
  assumes "xs = ys" and "\<And>x. x \<in> set ys \<Longrightarrow> f x = g x"
  shows "try_map f xs = try_map g ys"
proof -
  have "(\<And>x. x \<in> set ys \<Longrightarrow> f x = g x) \<Longrightarrow> try_map f ys = try_map g ys"
    by (induction ys) auto
  with assms show ?thesis by simp
qed

lemma try_fold_cong [fundef_cong]:
  assumes "xs = ys" and "s = t" and "\<And>x u. x \<in> set ys \<Longrightarrow> f x u = g x u"
  shows "try_fold f xs s = try_fold g ys t"
proof -
  have "(\<And>x u. x \<in> set ys \<Longrightarrow> f x u = g x u) \<Longrightarrow> try_fold f ys t = try_fold g ys t" for t
  proof (induction ys arbitrary: t)
    case (Cons y ys)
    then have "f y t = g y t" and "\<And>v. try_fold f ys v = try_fold g ys v" by simp_all
    then show ?case by (cases "g y t") simp_all
  qed simp
  with assms show ?thesis by simp
qed

lemma try_fold_append:
  "try_fold f (xs @ ys) s = rbind (try_fold f xs s) (try_fold f ys)"
  by (induction xs arbitrary: s) (auto simp: rbind_def split: sum.splits)

lemma try_fold_invariant:
  assumes "try_fold f xs s = Inr t" and "I s"
    and "\<And>x s t. x \<in> set xs \<Longrightarrow> I s \<Longrightarrow> f x s = Inr t \<Longrightarrow> I t"
  shows "I t"
  using assms
proof (induction xs arbitrary: s)
  case (Cons x xs)
  from Cons.prems(1) obtain u where u: "f x s = Inr u" and rest: "try_fold f xs u = Inr t"
    by (auto simp: rbind_eq_Inr)
  have "I u" by (rule Cons.prems(3) [OF _ Cons.prems(2) u]) simp
  with rest show ?case
  proof (rule Cons.IH)
    fix y s t
    assume "y \<in> set xs" and "I s" and "f y s = Inr t"
    then show "I t" by (intro Cons.prems(3) [of y s t]) simp_all
  qed
qed simp

lemma try_map_Inr_iff:
  "try_map f xs = Inr ys \<longleftrightarrow> list_all2 (\<lambda>x y. f x = Inr y) xs ys"
proof (induction xs arbitrary: ys)
  case Nil
  show ?case by (cases ys) auto
next
  case (Cons x xs)
  show ?case by (cases ys) (auto simp: rbind_eq_Inr Cons.IH)
qed

lemma try_map_length: "try_map f xs = Inr ys \<Longrightarrow> length ys = length xs"
  by (auto simp: try_map_Inr_iff dest: list_all2_lengthD)

lemma try_map_Inl:
  "try_map f xs = Inl e \<Longrightarrow> \<exists>x \<in> set xs. f x = Inl e"
  by (induction xs) (auto simp: rbind_eq_Inl)

lemma list_all2_map_eq:
  "list_all2 P xs ys \<Longrightarrow> (\<And>x y. P x y \<Longrightarrow> f x = g y) \<Longrightarrow> map f xs = map g ys"
  by (induction rule: list_all2_induct) simp_all

lemma try_fold_snoc:
  "try_fold (\<lambda>x out. rbind (f x) (\<lambda>y. Inr (out @ [h x y]))) xs out =
     rbind (try_map (\<lambda>x. rbind (f x) (\<lambda>y. Inr (h x y))) xs) (\<lambda>ys. Inr (out @ ys))"
  by (induction xs arbitrary: out) (auto simp: rbind_def split: sum.splits)

lemma try_fold_concat:
  "try_fold (\<lambda>x out. rbind (f x) (\<lambda>ys. Inr (out @ ys))) xs out =
     rbind (try_map f xs) (\<lambda>yss. Inr (out @ concat yss))"
  by (induction xs arbitrary: out) (auto simp: rbind_def split: sum.splits)

lemma rbind_assoc: "rbind (rbind r f) g = rbind r (\<lambda>x. rbind (f x) g)"
  by (cases r) auto

lemma try_map_is_ok: "(\<And>x. x \<in> set xs \<Longrightarrow> is_ok (f x)) \<Longrightarrow> is_ok (try_map f xs)"
proof (induction xs)
  case (Cons x xs)
  from Cons.prems [of x] obtain y where "f x = Inr y" by (auto simp: is_ok_iff)
  with Cons show ?case by (auto simp: is_ok_iff)
qed simp

lemma try_map_ext: "(\<And>x. x \<in> set xs \<Longrightarrow> f x = g x) \<Longrightarrow> try_map f xs = try_map g xs"
  by (induction xs) auto

section \<open>State that only grows\<close>

text \<open>
  Operations that keep an invariant \<open>ok\<close>, only grow the state along \<open>ext\<close>, and never fail with a
  \<open>bad\<close> error. Sequencing such operations gives such an operation, and what one of them
  establishes, if growth keeps it, holds at the end.
\<close>

definition step_ok :: "('s \<Rightarrow> bool) \<Rightarrow> ('s \<Rightarrow> 's \<Rightarrow> bool) \<Rightarrow> ('e \<Rightarrow> bool) \<Rightarrow> 's \<Rightarrow> 'e + 's \<Rightarrow> bool" where
  "step_ok ok ext bad s r = (case r of Inl e \<Rightarrow> \<not> bad e | Inr t \<Rightarrow> ok t \<and> ext s t)"

lemma step_ok_simps [simp]:
  "step_ok ok ext bad s (Inl e) \<longleftrightarrow> \<not> bad e"
  "step_ok ok ext bad s (Inr t) \<longleftrightarrow> ok t \<and> ext s t"
  by (simp_all add: step_ok_def)

locale growing =
  fixes ok :: "'s \<Rightarrow> bool" and ext :: "'s \<Rightarrow> 's \<Rightarrow> bool" and bad :: "'e \<Rightarrow> bool"
  assumes ext_refl: "ok s \<Longrightarrow> ext s s"
    and ext_trans: "ext s t \<Longrightarrow> ext t u \<Longrightarrow> ext s u"
begin

lemma step_bind:
  assumes "step_ok ok ext bad s r"
    and "\<And>t. r = Inr t \<Longrightarrow> ok t \<Longrightarrow> ext s t \<Longrightarrow> step_ok ok ext bad t (f t)"
  shows "step_ok ok ext bad s (rbind r f)"
proof (cases r)
  case (Inr t)
  with assms(1) have t: "ok t" "ext s t" by simp_all
  with assms(2) Inr have "step_ok ok ext bad t (f t)" by blast
  with t Inr show ?thesis by (cases "f t") (auto intro: ext_trans)
qed (use assms(1) in simp)

lemma step_pure: "(\<And>e. r = Inl e \<Longrightarrow> \<not> bad e) \<Longrightarrow> (\<And>x. r = Inr x \<Longrightarrow> step_ok ok ext bad s (f x)) \<Longrightarrow>
    step_ok ok ext bad s (rbind r f)"
  by (cases r) auto

lemma step_fold:
  assumes "ok s" and "\<And>x t. x \<in> set xs \<Longrightarrow> ok t \<Longrightarrow> ext s t \<Longrightarrow> step_ok ok ext bad t (f x t)"
  shows "step_ok ok ext bad s (try_fold f xs s)"
  using assms
proof (induction xs arbitrary: s)
  case (Cons x xs)
  have "step_ok ok ext bad s (f x s)" using Cons.prems ext_refl by simp
  then show ?case unfolding try_fold.simps
    by (rule step_bind) (use Cons in \<open>auto intro: ext_trans\<close>)
qed (simp add: ext_refl)

lemma fold_post:
  assumes "ok s" and "try_fold f xs s = Inr u"
    and step: "\<And>x t. x \<in> set xs \<Longrightarrow> ok t \<Longrightarrow> ext s t \<Longrightarrow> step_ok ok ext bad t (f x t)"
    and post: "\<And>x t t'. x \<in> set xs \<Longrightarrow> ok t \<Longrightarrow> ext s t \<Longrightarrow> f x t = Inr t' \<Longrightarrow> P x t'"
    and mono: "\<And>x t t'. P x t \<Longrightarrow> ext t t' \<Longrightarrow> P x t'"
  shows "\<forall>x \<in> set xs. P x u"
  using assms(1,2) step post
proof (induction xs arbitrary: s)
  case (Cons x xs)
  from Cons.prems(2) obtain t where t: "f x s = Inr t" "try_fold f xs t = Inr u" by (auto simp: rbind_eq_Inr)
  from Cons.prems(1,3) t(1) ext_refl have ok: "ok t" "ext s t" by fastforce+
  have later: "ext t v \<Longrightarrow> ext s v" for v using ok(2) by (rule ext_trans)
  have "\<forall>y \<in> set xs. P y u"
    by (rule Cons.IH [OF ok(1) t(2)]) (use Cons.prems(3,4) later in auto)
  moreover have "step_ok ok ext bad t (try_fold f xs t)"
    using ok(1) by (rule step_fold) (use Cons.prems(3) later in auto)
  then have "ext t u" using t(2) by simp
  then have "P x u" using Cons.prems(4) [of x s t] Cons.prems(1) t(1) ext_refl mono by auto
  ultimately show ?case by simp
qed simp

end

end
