(* ===== verification/Btree.thy ===== *)
theory Btree
  imports Prelude
begin

text \<open>
  \<open>BTreeMap\<close> and \<open>BTreeSet\<close> of Rust's standard library. A map is its entries in strictly
  increasing key order, which is the order \<open>iter\<close>, \<open>keys\<close> and \<open>values\<close> give them in; a set is
  its elements in strictly increasing order. \<open>ordered_map\<close> states what the components rely on.
\<close>

lemma alist_eqI:
  assumes "map fst xs = map fst ys" and "distinct (map fst xs)" and "map_of xs = map_of ys"
  shows "xs = ys"
proof (rule nth_equalityI)
  show len: "length xs = length ys" using assms(1) by (rule map_eq_imp_length_eq)
  fix i
  assume i: "i < length xs"
  have fst: "fst (xs ! i) = fst (ys ! i)"
    using assms(1) i len by (metis nth_map)
  have "map_of xs (fst (xs ! i)) = Some (snd (xs ! i))"
    using assms(2) i by simp
  moreover have "map_of ys (fst (ys ! i)) = Some (snd (ys ! i))"
    using assms(1,2) i len by simp
  ultimately show "xs ! i = ys ! i" using fst assms(3) by (simp add: prod_eq_iff)
qed

section \<open>The contract of an ordered map\<close>

locale ordered_map =
  fixes get :: "'m \<Rightarrow> 'k::linorder \<Rightarrow> 'v option"
    and put :: "'k \<Rightarrow> 'v \<Rightarrow> 'm \<Rightarrow> 'm"
    and del :: "'k \<Rightarrow> 'm \<Rightarrow> 'm"
    and entries :: "'m \<Rightarrow> ('k \<times> 'v) list"
    and invar :: "'m \<Rightarrow> bool"
  assumes get_entries: "invar m \<Longrightarrow> get m k = map_of (entries m) k"
    and increasing: "invar m \<Longrightarrow> sorted_wrt (<) (map fst (entries m))"
    and get_put: "invar m \<Longrightarrow> get (put k v m) = (get m)(k \<mapsto> v)"
    and get_del: "invar m \<Longrightarrow> get (del k m) = (get m)(k := None)"
    and invar_put: "invar m \<Longrightarrow> invar (put k v m)"
    and invar_del: "invar m \<Longrightarrow> invar (del k m)"
begin

lemma distinct_keys: "invar m \<Longrightarrow> distinct (map fst (entries m))"
  using increasing [of m] by (simp add: strict_sorted_iff)

lemma get_iff_entry: "invar m \<Longrightarrow> get m k = Some v \<longleftrightarrow> (k, v) \<in> set (entries m)"
  by (simp add: get_entries distinct_keys)

lemma dom_get: "invar m \<Longrightarrow> dom (get m) = fst ` set (entries m)"
  by (force simp: get_iff_entry dom_def)

text \<open>A map is determined by its lookups: two with the same lookups iterate alike.\<close>

lemma entries_ext:
  assumes m: "invar m" and m': "invar m'" and eq: "get m = get m'"
  shows "entries m = entries m'"
proof -
  have "set (map fst (entries m)) = set (map fst (entries m'))"
    using dom_get [OF m] dom_get [OF m'] eq by simp
  then have keys: "map fst (entries m) = map fst (entries m')"
    using increasing [OF m] increasing [OF m'] by (simp add: strict_sorted_equal)
  have "map_of (entries m) = map_of (entries m')"
    using get_entries [OF m] get_entries [OF m'] eq by (auto simp: fun_eq_iff)
  with keys distinct_keys [OF m] show ?thesis by (rule alist_eqI)
qed

lemma put_commute:
  assumes "invar m" and "k \<noteq> l"
  shows "entries (put k v (put l w m)) = entries (put l w (put k v m))"
  using assms by (intro entries_ext) (auto simp: invar_put get_put fun_upd_twist)

end

section \<open>Sorted association lists\<close>

type_synonym ('k, 'v) btree_map = "('k \<times> 'v) list"

fun bt_insert :: "'k::linorder \<Rightarrow> 'v \<Rightarrow> ('k, 'v) btree_map \<Rightarrow> ('k, 'v) btree_map" where
  "bt_insert k v [] = [(k, v)]"
| "bt_insert k v (e # m) =
     (if fst e < k then e # bt_insert k v m
      else if k < fst e then (k, v) # e # m
      else (k, v) # m)"

definition bt_remove :: "'k \<Rightarrow> ('k, 'v) btree_map \<Rightarrow> ('k, 'v) btree_map" where
  "bt_remove k m = filter (\<lambda>e. fst e \<noteq> k) m"

text \<open>\<open>get_mut\<close> followed by a write through the reference.\<close>

definition bt_modify :: "'k \<Rightarrow> ('v \<Rightarrow> 'v) \<Rightarrow> ('k, 'v) btree_map \<Rightarrow> ('k, 'v) btree_map" where
  "bt_modify k f m = map (\<lambda>e. if fst e = k then (fst e, f (snd e)) else e) m"

definition bt_invar :: "('k::linorder, 'v) btree_map \<Rightarrow> bool" where
  "bt_invar m \<longleftrightarrow> sorted_wrt (<) (map fst m)"

text \<open>\<open>collect\<close> into a \<open>BTreeMap\<close>: later entries win.\<close>

definition bt_of :: "('k::linorder \<times> 'v) list \<Rightarrow> ('k, 'v) btree_map" where
  "bt_of es = fold (\<lambda>e. bt_insert (fst e) (snd e)) es []"

lemma keys_bt_insert: "fst ` set (bt_insert k v m) = insert k (fst ` set m)"
  by (induction m) (auto simp: not_less_iff_gr_or_eq)

lemma bt_invar_Nil [simp]: "bt_invar []"
  by (simp add: bt_invar_def)

lemma bt_invar_Cons: "bt_invar (e # m) \<longleftrightarrow> (\<forall>x \<in> fst ` set m. fst e < x) \<and> bt_invar m"
  by (auto simp: bt_invar_def)

lemma bt_invar_insert: "bt_invar m \<Longrightarrow> bt_invar (bt_insert k v m)"
  by (induction m) (auto simp: bt_invar_Cons keys_bt_insert simp del: set_map)

lemma map_of_bt_insert: "bt_invar m \<Longrightarrow> map_of (bt_insert k v m) = (map_of m)(k \<mapsto> v)"
proof (induction m)
  case (Cons e m)
  from Cons.prems have "bt_invar m" by (simp add: bt_invar_Cons)
  note IH = Cons.IH [OF this]
  show ?case
  proof (cases "fst e = k")
    case True
    then show ?thesis by (cases e) auto
  next
    case False
    then show ?thesis by (cases e) (auto simp: IH)
  qed
qed auto

lemma bt_invar_remove: "bt_invar m \<Longrightarrow> bt_invar (bt_remove k m)"
  by (induction m) (auto simp: bt_invar_Cons bt_remove_def)

lemma map_of_bt_remove: "map_of (bt_remove k m) = (map_of m)(k := None)"
  by (induction m) (auto simp: bt_remove_def)

lemma map_of_bt_modify: "map_of (bt_modify k f m) = (map_of m)(k := map_option f (map_of m k))"
  by (induction m) (auto simp: bt_modify_def)

lemma keys_bt_modify [simp]: "map fst (bt_modify k f m) = map fst m"
  by (induction m) (auto simp: bt_modify_def)

lemma bt_invar_modify [simp]: "bt_invar (bt_modify k f m) = bt_invar m"
  by (simp add: bt_invar_def)

interpretation bt: ordered_map map_of bt_insert bt_remove "\<lambda>m. m" bt_invar
  by unfold_locales
    (auto simp: map_of_bt_insert map_of_bt_remove bt_invar_insert bt_invar_remove,
     simp add: bt_invar_def)

lemma bt_invar_of: "bt_invar (bt_of es)"
proof -
  have "bt_invar m \<Longrightarrow> bt_invar (fold (\<lambda>e. bt_insert (fst e) (snd e)) es m)" for m
    by (induction es arbitrary: m) (auto simp: bt_invar_insert)
  then show ?thesis by (simp add: bt_of_def)
qed

section \<open>Sorted sets\<close>

text \<open>\<open>BTreeSet::insert\<close> is \<open>insort_insert\<close> of the list library; \<open>collect\<close> repeats it.\<close>

definition bs_of :: "'a::linorder list \<Rightarrow> 'a list" where
  "bs_of xs = fold insort_insert xs []"

lemma set_fold_insort_insert: "set (fold insort_insert xs ys) = set xs \<union> set ys"
  by (induction xs arbitrary: ys) (auto simp: set_insort_insert)

lemma sorted_fold_insort_insert: "sorted ys \<Longrightarrow> sorted (fold insort_insert xs ys)"
  by (induction xs arbitrary: ys) (auto simp: sorted_insort_insert)

lemma distinct_fold_insort_insert: "distinct ys \<Longrightarrow> distinct (fold insort_insert xs ys)"
  by (induction xs arbitrary: ys) (auto simp: distinct_insort_insert)

lemma bs_of_props [simp]: "set (bs_of xs) = set xs" "sorted (bs_of xs)" "distinct (bs_of xs)"
  by (simp_all add: bs_of_def set_fold_insort_insert sorted_fold_insort_insert
      distinct_fold_insort_insert)

text \<open>\<open>BTreeSet::remove\<close> drops the element.\<close>

definition bs_remove :: "'a \<Rightarrow> 'a list \<Rightarrow> 'a list" where
  "bs_remove x xs = filter (\<lambda>y. y \<noteq> x) xs"

lemma fold_bs_remove: "fold bs_remove ks xs = filter (\<lambda>x. x \<notin> set ks) xs"
  by (induction ks arbitrary: xs) (auto simp: bs_remove_def intro: filter_cong)

lemma fold_bt_remove:
  "bt_invar m \<Longrightarrow> bt_invar (fold bt_remove ks m) \<and>
   map_of (fold bt_remove ks m) = (\<lambda>k. if k \<in> set ks then None else map_of m k)"
  by (induction ks arbitrary: m) (auto simp: bt_invar_remove map_of_bt_remove)

section \<open>Two maps entry by entry\<close>

lemma bt_map_of_iff: "bt_invar m \<Longrightarrow> map_of m k = Some v \<longleftrightarrow> (k, v) \<in> set m"
  by (rule bt.get_iff_entry)

lemma bt_keys_eq:
  assumes "bt_invar m" "bt_invar n" "dom (map_of m) = dom (map_of n)"
  shows "map fst m = map fst n"
  using assms by (intro strict_sorted_equal) (auto simp: bt_invar_def dom_map_of_conv_image_fst)

lemma bt_rel:
  assumes m: "bt_invar m" and n: "bt_invar n" and R: "\<And>k. rel_option R (map_of m k) (map_of n k)"
  shows "list_all2 (\<lambda>x y. fst x = fst y \<and> R (snd x) (snd y)) m n"
proof -
  have "map_of m k = None \<longleftrightarrow> map_of n k = None" for k using R [of k] by (cases "map_of m k"; cases "map_of n k") auto
  then have keys: "map fst m = map fst n" using m n by (intro bt_keys_eq) (auto simp: dom_def)
  then have len: "length m = length n" by (rule map_eq_imp_length_eq)
  show ?thesis
  proof (rule list_all2_all_nthI [OF len])
    fix i assume i: "i < length m"
    with keys len have k: "fst (m ! i) = fst (n ! i)" by (metis nth_map)
    have "map_of m (fst (m ! i)) = Some (snd (m ! i))" "map_of n (fst (n ! i)) = Some (snd (n ! i))"
      using i len m n by (simp_all add: bt_map_of_iff)
    with R [of "fst (m ! i)"] k show "fst (m ! i) = fst (n ! i) \<and> R (snd (m ! i)) (snd (n ! i))" by simp
  qed
qed

lemma bt_eqI: "bt_invar m \<Longrightarrow> bt_invar n \<Longrightarrow> map_of m = map_of n \<Longrightarrow> m = n"
  by (rule bt.entries_ext)

end
