(* ===== verification/Rust_Str.thy ===== *)
theory Rust_Str
  imports Prelude
begin

text \<open>
  The functions of Rust's \<open>str\<close>, \<open>char\<close> and integer formatting that the program calls, on byte
  strings, and the lemmas about them that the parsers and printers of the components use.
\<close>

abbreviation byte :: "char \<Rightarrow> nat" where
  "byte c \<equiv> of_char c"

section \<open>ASCII classes\<close>

definition is_ascii_lowercase :: "char \<Rightarrow> bool" where
  "is_ascii_lowercase c \<longleftrightarrow> 97 \<le> byte c \<and> byte c \<le> 122"

definition is_ascii_uppercase :: "char \<Rightarrow> bool" where
  "is_ascii_uppercase c \<longleftrightarrow> 65 \<le> byte c \<and> byte c \<le> 90"

definition is_ascii_digit :: "char \<Rightarrow> bool" where
  "is_ascii_digit c \<longleftrightarrow> 48 \<le> byte c \<and> byte c \<le> 57"

definition is_ascii_alphanumeric :: "char \<Rightarrow> bool" where
  "is_ascii_alphanumeric c \<longleftrightarrow>
     is_ascii_lowercase c \<or> is_ascii_uppercase c \<or> is_ascii_digit c"

lemmas ascii_defs =
  is_ascii_lowercase_def is_ascii_uppercase_def is_ascii_digit_def is_ascii_alphanumeric_def

section \<open>Splitting and joining\<close>

text \<open>\<open>str::split_once\<close>, \<open>str::split\<close> with a character, and \<open>join\<close>.\<close>

fun split_once :: "char \<Rightarrow> string \<Rightarrow> (string \<times> string) option" where
  "split_once c [] = None"
| "split_once c (x # xs) =
     (if x = c then Some ([], xs)
      else map_option (\<lambda>(a, b). (x # a, b)) (split_once c xs))"

fun split_on :: "char \<Rightarrow> string \<Rightarrow> string list" where
  "split_on c [] = [[]]"
| "split_on c (x # xs) =
     (if x = c then [] # split_on c xs
      else (case split_on c xs of [] \<Rightarrow> [[x]] | y # ys \<Rightarrow> (x # y) # ys))"

fun join :: "string \<Rightarrow> string list \<Rightarrow> string" where
  "join sep [] = []"
| "join sep [x] = x"
| "join sep (x # y # ys) = x @ sep @ join sep (y # ys)"

lemma split_once_None [simp]: "split_once c s = None \<longleftrightarrow> c \<notin> set s"
  by (induction s) auto

lemma split_once_Some:
  "split_once c s = Some (a, b) \<longleftrightarrow> s = a @ c # b \<and> c \<notin> set a"
proof (induction s arbitrary: a)
  case (Cons x xs)
  show ?case by (cases a) (auto simp: Cons.IH)
qed simp

lemma split_once_append [simp, str_simps]:
  "c \<notin> set a \<Longrightarrow> split_once c (a @ c # b) = Some (a, b)"
  by (simp add: split_once_Some)

lemma append_sep_inject:
  assumes "(c :: char) \<notin> set a" and "c \<notin> set a'"
  shows "a @ c # x = a' @ c # x' \<longleftrightarrow> a = a' \<and> x = x'"
proof
  assume "a @ c # x = a' @ c # x'"
  then have "split_once c (a @ c # x) = split_once c (a' @ c # x')" by (rule arg_cong)
  with assms show "a = a' \<and> x = x'" by simp
qed simp

lemma split_on_nonempty [simp]: "split_on c s \<noteq> []"
  by (induction s) (auto split: list.splits)

lemma split_on_sep: "seg \<in> set (split_on c s) \<Longrightarrow> c \<notin> set seg"
proof (induction s arbitrary: seg)
  case (Cons x xs)
  then show ?case
    by (cases "split_on c xs") (auto split: if_splits)
qed simp

lemma join_split_on [simp]: "join [c] (split_on c s) = s"
proof (induction s)
  case (Cons x xs)
  then show ?case
    by (cases "split_on c xs"; cases "tl (split_on c xs)") (auto)
qed simp

lemma split_on_no_sep [simp]: "c \<notin> set s \<Longrightarrow> split_on c s = [s]"
  by (induction s) auto

lemma split_on_append_sep [str_simps]:
  "c \<notin> set a \<Longrightarrow> split_on c (a @ c # b) = a # split_on c b"
  by (induction a) auto

lemma split_on_app_sep: "split_on c (a @ c # b) = split_on c a @ split_on c b"
proof (induction a)
  case (Cons x a)
  then show ?case by (cases "split_on c a") auto
qed simp

lemma set_split_on: "set s \<subseteq> insert c (\<Union> (set ` set (split_on c s)))"
proof (induction s)
  case (Cons x xs)
  then show ?case by (cases "split_on c xs") auto
qed simp

lemma split_on_set: "seg \<in> set (split_on c s) \<Longrightarrow> set seg \<subseteq> set s"
proof (induction s arbitrary: seg)
  case (Cons x xs)
  show ?case
  proof (cases "split_on c xs")
    case (Cons y ys)
    then have "set y \<subseteq> set xs" and "\<And>z. z \<in> set ys \<Longrightarrow> set z \<subseteq> set xs"
      using Cons.IH by auto
    with Cons Cons.prems show ?thesis by (auto split: if_splits)
  qed simp
qed simp

section \<open>Prefixes, suffixes, search and replacement\<close>

definition strip_prefix :: "string \<Rightarrow> string \<Rightarrow> string option" where
  "strip_prefix p s = (if prefix p s then Some (drop (length p) s) else None)"

definition strip_suffix :: "string \<Rightarrow> string \<Rightarrow> string option" where
  "strip_suffix p s = (if suffix p s then Some (take (length s - length p) s) else None)"

lemma strip_prefix_Some [simp]: "strip_prefix p s = Some r \<longleftrightarrow> s = p @ r"
  by (auto simp: strip_prefix_def prefix_def)

lemma strip_prefix_None: "strip_prefix p s = None \<longleftrightarrow> \<not> prefix p s"
  by (simp add: strip_prefix_def)

lemma strip_prefix_append [simp, str_simps]: "strip_prefix p (p @ r) = Some r"
  by simp

lemma strip_suffix_Some [simp]: "strip_suffix p s = Some r \<longleftrightarrow> s = r @ p"
  by (auto simp: strip_suffix_def suffix_def)

text \<open>\<open>str::find\<close> with a string: the first position at which it occurs.\<close>

fun find_str :: "string \<Rightarrow> string \<Rightarrow> nat option" where
  "find_str p [] = (if p = [] then Some 0 else None)"
| "find_str p (x # xs) =
     (if prefix p (x # xs) then Some 0 else map_option Suc (find_str p xs))"

definition contains_str :: "string \<Rightarrow> string \<Rightarrow> bool" where
  "contains_str p s \<longleftrightarrow> find_str p s \<noteq> None"

lemma find_str_Some:
  "find_str p s = Some i \<Longrightarrow> i \<le> length s \<and> prefix p (drop i s) \<and> (\<forall>j<i. \<not> prefix p (drop j s))"
proof (induction s arbitrary: i)
  case Nil
  then show ?case by (auto split: if_splits)
next
  case (Cons x xs)
  show ?case
  proof (cases "prefix p (x # xs)")
    case True
    with Cons.prems show ?thesis by auto
  next
    case False
    with Cons.prems obtain k where k: "find_str p xs = Some k" and i: "i = Suc k" by auto
    from Cons.IH [OF k] False show ?thesis
      unfolding i by (auto simp: less_Suc_eq_0_disj)
  qed
qed

lemma find_str_None: "find_str p s = None \<Longrightarrow> \<not> prefix p (drop i s)"
proof (induction s arbitrary: i)
  case Nil
  then show ?case by (simp split: if_splits)
next
  case (Cons x xs)
  then show ?case by (cases i) (auto split: if_splits)
qed

lemma sublist_iff_prefix_drop: "sublist p s \<longleftrightarrow> (\<exists>i. prefix p (drop i s))"
proof
  assume "sublist p s"
  then obtain a b where "s = a @ p @ b" by (auto simp: sublist_def)
  then have "prefix p (drop (length a) s)" by simp
  then show "\<exists>i. prefix p (drop i s)" ..
next
  assume "\<exists>i. prefix p (drop i s)"
  then obtain i where "prefix p (drop i s)" ..
  then have "sublist p (drop i s)" by (rule prefix_imp_sublist)
  also have "sublist (drop i s) s" by simp
  finally show "sublist p s" .
qed

lemma contains_str_iff: "contains_str p s \<longleftrightarrow> sublist p s"
  unfolding contains_str_def sublist_iff_prefix_drop
  using find_str_Some [of p s] find_str_None [of p s] by (cases "find_str p s") auto

text \<open>\<open>str::replace\<close> for a non-empty pattern: the occurrences from the left that do not overlap.\<close>

function replace_str :: "string \<Rightarrow> string \<Rightarrow> string \<Rightarrow> string" where
  "replace_str p r [] = []"
| "replace_str p r (x # xs) =
     (if p \<noteq> [] \<and> prefix p (x # xs) then r @ replace_str p r (drop (length p) (x # xs))
      else x # replace_str p r xs)"
  by pat_completeness auto
termination
  by (relation "measure (\<lambda>(p, r, s). length s)") (auto simp: length_greater_0_conv)

lemma replace_str_absent: "\<not> sublist p s \<Longrightarrow> replace_str p r s = s"
proof (induction p r s rule: replace_str.induct)
  case (2 p r x xs)
  then have "\<not> prefix p (x # xs)" and "\<not> sublist p xs"
    by (auto simp: sublist_Cons_right)
  with 2 show ?case by simp
qed simp

lemma replace_str_single:
  "replace_str [c] r s = concat (map (\<lambda>x. if x = c then r else [x]) s)"
  by (induction s) auto

section \<open>Integers in decimal and hexadecimal\<close>

definition digit :: "nat \<Rightarrow> char" where
  "digit n = (if n < 10 then char_of (48 + n) else char_of (87 + n))"

text \<open>\<open>to_string\<close> of an unsigned integer, and of a signed one.\<close>

fun dec :: "nat \<Rightarrow> string" where
  "dec n = (if n < 10 then [digit n] else dec (n div 10) @ [digit (n mod 10)])"

declare dec.simps [simp del]

definition dec_int :: "int \<Rightarrow> string" where
  "dec_int i = (if i < 0 then CHR ''-'' # dec (nat (- i)) else dec (nat i))"

text \<open>\<open>format!("{b:02x}")\<close> of a byte.\<close>

definition hex2 :: "nat \<Rightarrow> string" where
  "hex2 n = [digit (n div 16 mod 16), digit (n mod 16)]"

definition digits_val :: "string \<Rightarrow> nat" where
  "digits_val s = foldl (\<lambda>a c. 10 * a + (byte c - 48)) 0 s"

lemma byte_digit: "n < 10 \<Longrightarrow> byte (digit n) = 48 + n"
  by (simp add: digit_def)

lemma is_ascii_digit_digit [simp]: "n < 10 \<Longrightarrow> is_ascii_digit (digit n)"
  by (simp add: is_ascii_digit_def byte_digit)

lemma digit_inject: "m < 16 \<Longrightarrow> n < 16 \<Longrightarrow> digit m = digit n \<Longrightarrow> m = n"
proof -
  assume "m < 16" and "n < 16" and "digit m = digit n"
  moreover from this have "byte (digit m) = byte (digit n)" by simp
  ultimately show "m = n" by (auto simp: digit_def split: if_splits)
qed

lemma hex2_inject: "hex2 (byte a) = hex2 (byte b) \<Longrightarrow> a = b"
proof -
  assume eq: "hex2 (byte a) = hex2 (byte b)"
  have lt: "byte x div 16 < 16" for x :: char
    using nat_of_char_less_256 [of x] by (simp add: less_mult_imp_div_less)
  have "digit (byte a div 16) = digit (byte b div 16)"
    and "digit (byte a mod 16) = digit (byte b mod 16)"
    using eq by (simp_all add: hex2_def lt)
  then have "byte a div 16 = byte b div 16" and "byte a mod 16 = byte b mod 16"
    using lt by (auto intro: digit_inject)
  then have "byte a = byte b" by (metis div_mult_mod_eq)
  then show "a = b" by simp
qed

lemma digits_val_snoc [simp]: "digits_val (s @ [c]) = 10 * digits_val s + (byte c - 48)"
  by (simp add: digits_val_def)

lemma dec_digits: "c \<in> set (dec n) \<Longrightarrow> is_ascii_digit c"
proof (induction n rule: dec.induct)
  case (1 n)
  then show ?case by (auto simp: dec.simps [of n] split: if_splits)
qed

lemma dec_nonempty [simp]: "dec n \<noteq> []"
  by (subst dec.simps) simp

lemma digits_val_dec [simp]: "digits_val (dec n) = n"
proof (induction n rule: dec.induct)
  case (1 n)
  show ?case
  proof (cases "n < 10")
    case True
    then show ?thesis by (simp add: dec.simps [of n] digits_val_def byte_digit)
  next
    case False
    with 1 show ?thesis by (simp add: dec.simps [of n] byte_digit)
  qed
qed

lemma dec_inject [simp]: "dec m = dec n \<longleftrightarrow> m = n"
  by (metis digits_val_dec)

text \<open>\<open>usize::from_str\<close>: an optional \<open>+\<close>, then at least one digit, and no overflow.\<close>

definition strip_plus :: "string \<Rightarrow> string" where
  "strip_plus s = (case s of [] \<Rightarrow> [] | c # cs \<Rightarrow> if c = CHR ''+'' then cs else s)"

definition parse_usize :: "string \<Rightarrow> nat option" where
  "parse_usize s =
     (let t = strip_plus s in
      if t \<noteq> [] \<and> list_all is_ascii_digit t \<and> digits_val t < 2 ^ 64
      then Some (digits_val t) else None)"

lemma strip_plus_dec [simp]: "strip_plus (dec n) = dec n"
proof -
  obtain c cs where c: "dec n = c # cs" by (cases "dec n") auto
  then have "is_ascii_digit c" using dec_digits [of c n] by simp
  then have "c \<noteq> CHR ''+''" by (auto simp: is_ascii_digit_def)
  with c show ?thesis by (simp add: strip_plus_def)
qed

lemma parse_usize_dec: "n < 2 ^ 64 \<Longrightarrow> parse_usize (dec n) = Some n"
  using dec_digits [of _ n] by (simp add: parse_usize_def list_all_iff)

section \<open>UTF-8\<close>

text \<open>
  A character of a \<open>str\<close> is a leading byte and the continuation bytes that follow it;
  \<open>utf8_chars\<close> is \<open>str::chars\<close>, each character as its bytes, and \<open>code_point\<close> its scalar value.
  \<open>is_utf8\<close> is the invariant of Rust's string types.
\<close>

definition is_cont :: "char \<Rightarrow> bool" where
  "is_cont c \<longleftrightarrow> 128 \<le> byte c \<and> byte c < 192"

function utf8_chars :: "string \<Rightarrow> string list" where
  "utf8_chars [] = []"
| "utf8_chars (x # xs) = (x # takeWhile is_cont xs) # utf8_chars (dropWhile is_cont xs)"
  by pat_completeness auto
termination
  by (relation "measure length") (auto simp: less_Suc_eq_le length_dropWhile_le)

fun code_point :: "string \<Rightarrow> nat" where
  "code_point [a] = byte a"
| "code_point [a, b] = (byte a mod 32) * 64 + byte b mod 64"
| "code_point [a, b, c] = (byte a mod 16) * 4096 + (byte b mod 64) * 64 + byte c mod 64"
| "code_point [a, b, c, d] =
     (byte a mod 8) * 262144 + (byte b mod 64) * 4096 + (byte c mod 64) * 64 + byte d mod 64"
| "code_point _ = 0"

definition valid_char :: "string \<Rightarrow> bool" where
  "valid_char g \<longleftrightarrow> g \<noteq> [] \<and> list_all is_cont (tl g) \<and>
     (let a = byte (hd g); n = code_point g in
      (length g = 1 \<and> a < 128)
      \<or> (length g = 2 \<and> 192 \<le> a \<and> a < 224 \<and> 128 \<le> n)
      \<or> (length g = 3 \<and> 224 \<le> a \<and> a < 240 \<and> 2048 \<le> n \<and> \<not> (55296 \<le> n \<and> n < 57344))
      \<or> (length g = 4 \<and> 240 \<le> a \<and> a < 248 \<and> 65536 \<le> n \<and> n < 1114112))"

definition is_utf8 :: "string \<Rightarrow> bool" where
  "is_utf8 s \<longleftrightarrow> list_all valid_char (utf8_chars s)"

text \<open>\<open>char::is_whitespace\<close>: the Unicode property \<open>White_Space\<close>.\<close>

definition is_whitespace :: "string \<Rightarrow> bool" where
  "is_whitespace g = (let n = code_point g in
     (9 \<le> n \<and> n \<le> 13) \<or> n = 32 \<or> n = 133 \<or> n = 160 \<or> n = 5760
     \<or> (8192 \<le> n \<and> n \<le> 8202) \<or> n = 8232 \<or> n = 8233 \<or> n = 8239 \<or> n = 8287 \<or> n = 12288)"

text \<open>\<open>str::encode_utf16\<close>.\<close>

definition utf16_units :: "string \<Rightarrow> nat list" where
  "utf16_units g = (let n = code_point g in
     if n < 65536 then [n]
     else [55296 + (n - 65536) div 1024, 56320 + (n - 65536) mod 1024])"

definition encode_utf16 :: "string \<Rightarrow> nat list" where
  "encode_utf16 s = concat (map utf16_units (utf8_chars s))"

lemma concat_utf8_chars [simp]: "concat (utf8_chars s) = s"
  by (induction s rule: utf8_chars.induct) auto

lemma utf8_chars_inject [simp]: "utf8_chars s = utf8_chars t \<longleftrightarrow> s = t"
  by (metis concat_utf8_chars)

lemma utf8_chars_Nil [simp]: "utf8_chars s = [] \<longleftrightarrow> s = []"
  by (cases s) auto

lemma utf8_chars_ascii: "list_all (\<lambda>c. byte c < 128) s \<Longrightarrow> utf8_chars s = map (\<lambda>c. [c]) s"
proof (induction s)
  case (Cons x xs)
  then have "takeWhile is_cont xs = []" and "dropWhile is_cont xs = xs"
    by (cases xs; auto simp: is_cont_def)+
  with Cons show ?case by simp
qed simp

lemma is_utf8_ascii: "list_all (\<lambda>c. byte c < 128) s \<Longrightarrow> is_utf8 s"
  by (simp add: is_utf8_def utf8_chars_ascii list.pred_map comp_def valid_char_def)


text \<open>A character is determined by its scalar value, and a string by its UTF-16 code units.\<close>

lemma radix_inject:
  fixes a b a' b' k :: nat
  assumes "b < k" "b' < k"
  shows "a * k + b = a' * k + b' \<longleftrightarrow> a = a' \<and> b = b'"
proof
  assume eq: "a * k + b = a' * k + b'"
  from assms have "(a * k + b) div k = a" "(a' * k + b') div k = a'" by auto
  with eq have "a = a'" by simp
  with eq show "a = a' \<and> b = b'" by simp
qed simp

lemma code_point_horner:
  "code_point [a, b] = (byte a mod 32) * 64 + byte b mod 64"
  "code_point [a, b, c] = ((byte a mod 16) * 64 + byte b mod 64) * 64 + byte c mod 64"
  "code_point [a, b, c, d] =
     (((byte a mod 8) * 64 + byte b mod 64) * 64 + byte c mod 64) * 64 + byte d mod 64"
  by (simp_all add: algebra_simps)

lemma window_mod_inject:
  fixes x y k :: nat
  assumes "j * k \<le> x" "x < j * k + k" "j * k \<le> y" "y < j * k + k" "x mod k = y mod k"
  shows "x = y"
proof -
  from assms obtain u v where x: "x = u + j * k" "u < k" and y: "y = v + j * k" "v < k"
    by (metis add.commute le_Suc_ex nat_add_left_cancel_less)
  with assms(5) show ?thesis by (simp only: mod_mult_self1) simp
qed

lemma lead_inject:
  "192 \<le> byte a \<Longrightarrow> byte a < 224 \<Longrightarrow> 192 \<le> byte b \<Longrightarrow> byte b < 224 \<Longrightarrow>
     byte a mod 32 = byte b mod 32 \<longleftrightarrow> a = b"
  "224 \<le> byte a \<Longrightarrow> byte a < 240 \<Longrightarrow> 224 \<le> byte b \<Longrightarrow> byte b < 240 \<Longrightarrow>
     byte a mod 16 = byte b mod 16 \<longleftrightarrow> a = b"
  "240 \<le> byte a \<Longrightarrow> byte a < 248 \<Longrightarrow> 240 \<le> byte b \<Longrightarrow> byte b < 248 \<Longrightarrow>
     byte a mod 8 = byte b mod 8 \<longleftrightarrow> a = b"
  "is_cont a \<Longrightarrow> is_cont b \<Longrightarrow> byte a mod 64 = byte b mod 64 \<longleftrightarrow> a = b"
  using window_mod_inject [of 6 32 "byte a" "byte b"] window_mod_inject [of 14 16 "byte a" "byte b"]
    window_mod_inject [of 30 8 "byte a" "byte b"] window_mod_inject [of 2 64 "byte a" "byte b"]
  by (auto simp: is_cont_def)

text \<open>The number of bytes of a character can be read off its scalar value.\<close>

lemma list_shapes:
  "length g = 1 \<longleftrightarrow> (\<exists>a. g = [a])"
  "length g = 2 \<longleftrightarrow> (\<exists>a b. g = [a, b])"
  "length g = 3 \<longleftrightarrow> (\<exists>a b c. g = [a, b, c])"
  "length g = 4 \<longleftrightarrow> (\<exists>a b c d. g = [a, b, c, d])"
  by (auto simp: length_Suc_conv numeral_eq_Suc)

lemma radix_less:
  fixes x y k n :: nat
  assumes "x < n" "y < k"
  shows "x * k + y < n * k"
proof -
  from assms have "x * k + y < Suc x * k" by simp
  also from assms have "Suc x * k \<le> n * k" by (intro mult_le_mono1) simp
  finally show ?thesis .
qed

lemma code_point_bounds:
  "code_point [a, b] < 2048" "code_point [a, b, c] < 65536"
  using radix_less [of "byte a mod 32" 32 "byte b mod 64" 64]
    radix_less [OF radix_less [of "byte a mod 16" 16 "byte b mod 64" 64], of "byte c mod 64" 64]
  unfolding code_point_horner by simp_all

lemma valid_char_cases:
  assumes "valid_char g"
  shows "(length g = 1 \<and> code_point g < 128) \<or> (length g = 2 \<and> 128 \<le> code_point g \<and> code_point g < 2048)
    \<or> (length g = 3 \<and> 2048 \<le> code_point g \<and> code_point g < 65536 \<and>
        \<not> (55296 \<le> code_point g \<and> code_point g < 57344))
    \<or> (length g = 4 \<and> 65536 \<le> code_point g \<and> code_point g < 1114112)"
proof -
  have "length g = 1 \<Longrightarrow> code_point g = byte (hd g)"
    by (metis list_shapes(1) code_point.simps(1) list.sel(1))
  moreover have "length g = 2 \<Longrightarrow> code_point g < 2048"
    by (metis list_shapes(2) code_point_bounds(1))
  moreover have "length g = 3 \<Longrightarrow> code_point g < 65536"
    by (metis list_shapes(3) code_point_bounds(2))
  ultimately show ?thesis using assms unfolding valid_char_def Let_def by metis
qed

lemma valid_char_leads:
  "valid_char [a, b] \<Longrightarrow> 192 \<le> byte a \<and> byte a < 224 \<and> is_cont b"
  "valid_char [a, b, c] \<Longrightarrow> 224 \<le> byte a \<and> byte a < 240 \<and> is_cont b \<and> is_cont c"
  "valid_char [a, b, c, d] \<Longrightarrow>
     240 \<le> byte a \<and> byte a < 248 \<and> is_cont b \<and> is_cont c \<and> is_cont d"
  by (simp_all add: valid_char_def Let_def del: code_point.simps)

lemma code_point_eq_shape:
  "code_point [a, b] = code_point [a', b'] \<Longrightarrow>
     byte a mod 32 = byte a' mod 32 \<and> byte b mod 64 = byte b' mod 64"
  "code_point [a, b, c] = code_point [a', b', c'] \<Longrightarrow>
     byte a mod 16 = byte a' mod 16 \<and> byte b mod 64 = byte b' mod 64 \<and> byte c mod 64 = byte c' mod 64"
  "code_point [a, b, c, d] = code_point [a', b', c', d'] \<Longrightarrow>
     byte a mod 8 = byte a' mod 8 \<and> byte b mod 64 = byte b' mod 64 \<and> byte c mod 64 = byte c' mod 64
     \<and> byte d mod 64 = byte d' mod 64"
  unfolding code_point_horner by (simp_all only: radix_inject mod_less_divisor zero_less_numeral)

lemma code_point_inject:
  assumes g: "valid_char g" and h: "valid_char h" and eq: "code_point g = code_point h"
  shows "g = h"
proof -
  have len: "length g = length h"
    using valid_char_cases [OF g] valid_char_cases [OF h] eq by linarith
  have "length g = 1 \<or> length g = 2 \<or> length g = 3 \<or> length g = 4"
    using valid_char_cases [OF g] by blast
  then consider a a' where "g = [a]" "h = [a']"
    | a b a' b' where "g = [a, b]" "h = [a', b']"
    | a b c a' b' c' where "g = [a, b, c]" "h = [a', b', c']"
    | a b c d a' b' c' d' where "g = [a, b, c, d]" "h = [a', b', c', d']"
    using len list_shapes by metis
  then show ?thesis
  proof cases
    case 1
    with eq show ?thesis by simp
  next
    case 2
    from code_point_eq_shape(1) [OF eq [unfolded 2]] valid_char_leads(1) [OF g [unfolded 2(1)]]
      valid_char_leads(1) [OF h [unfolded 2(2)]] show ?thesis
      unfolding 2 by (metis lead_inject(1,4))
  next
    case 3
    from code_point_eq_shape(2) [OF eq [unfolded 3]] valid_char_leads(2) [OF g [unfolded 3(1)]]
      valid_char_leads(2) [OF h [unfolded 3(2)]] show ?thesis
      unfolding 3 by (metis lead_inject(2,4))
  next
    case 4
    from code_point_eq_shape(3) [OF eq [unfolded 4]] valid_char_leads(3) [OF g [unfolded 4(1)]]
      valid_char_leads(3) [OF h [unfolded 4(2)]] show ?thesis
      unfolding 4 by (metis lead_inject(3,4))
  qed
qed

lemma utf16_units_inject:
  assumes g: "valid_char g" and h: "valid_char h"
    and eq: "utf16_units g @ u = utf16_units h @ v"
  shows "g = h \<and> u = v"
proof -
  have low: "\<not> (55296 \<le> code_point w \<and> code_point w < 57344)" if "valid_char w" for w
    using valid_char_cases [OF that] by linarith
  have high: "(code_point w - 65536) div 1024 < 1024" if "valid_char w" for w
  proof -
    from valid_char_cases [OF that] have "code_point w - 65536 < 1024 * 1024" by linarith
    then show ?thesis by (rule less_mult_imp_div_less)
  qed
  have split: "code_point g = code_point h" if "\<not> code_point g < 65536" "\<not> code_point h < 65536"
    "(code_point g - 65536) div 1024 = (code_point h - 65536) div 1024"
    "(code_point g - 65536) mod 1024 = (code_point h - 65536) mod 1024"
    using that div_mod_decomp [of "code_point g - 65536" 1024]
      div_mod_decomp [of "code_point h - 65536" 1024] by (metis diff_diff_cancel eq_diff_iff not_less)
  have "code_point g = code_point h \<and> u = v"
    using eq low [OF g] low [OF h] high [OF g] high [OF h] split
    unfolding utf16_units_def Let_def by (auto split: if_splits)
  then show ?thesis using code_point_inject [OF g h] by simp
qed

lemma concat_units_inject:
  "list_all valid_char gs \<Longrightarrow> list_all valid_char hs \<Longrightarrow>
   concat (map utf16_units gs) = concat (map utf16_units hs) \<Longrightarrow> gs = hs"
proof (induction gs arbitrary: hs)
  case Nil
  then show ?case by (cases hs) (auto simp: utf16_units_def Let_def split: if_splits)
next
  case (Cons g gs)
  then obtain h hs' where hs: "hs = h # hs'"
    by (cases hs) (auto simp: utf16_units_def Let_def split: if_splits)
  with Cons.prems utf16_units_inject [of g h] have "g = h"
    and "concat (map utf16_units gs) = concat (map utf16_units hs')" by auto
  with Cons hs show ?case by auto
qed

theorem encode_utf16_inject:
  "is_utf8 s \<Longrightarrow> is_utf8 t \<Longrightarrow> encode_utf16 s = encode_utf16 t \<longleftrightarrow> s = t"
  unfolding is_utf8_def encode_utf16_def by (metis concat_units_inject concat_utf8_chars)

end
