(* ===== verification/Ids.thy ===== *)
theory Ids
  imports Rust_Str
begin

text \<open>
  Identifiers and their validation rules (\<open>crates/core/src/ids.rs\<close>). The newtypes around
  \<open>String\<close> are strings here, and each \<open>new\<close> is a function into a result; the predicates
  \<open>is_valid_object_id\<close>, \<open>is_type_name\<close>, \<open>is_resource_type\<close>, \<open>is_res_id\<close> and \<open>is_guresid\<close> say
  which strings the constructors accept. Descriptors are the keys of the resource graph.
\<close>

section \<open>Object IDs\<close>

definition MAX_ID_LEN :: nat where
  "MAX_ID_LEN = 50"

record id_error =
  err_kind :: string
  err_value :: string
  err_reason :: string

definition IdError_new :: "string \<Rightarrow> string \<Rightarrow> string \<Rightarrow> id_error" where
  "IdError_new kind val reason = \<lparr>err_kind = kind, err_value = val, err_reason = reason\<rparr>"

text \<open>The \<open>Display\<close> form derived from the \<open>error\<close> attribute of \<open>IdError\<close>.\<close>

definition id_error_string :: "id_error \<Rightarrow> string" where
  "id_error_string e =
     ''invalid '' @ err_kind e @ '' `'' @ err_value e @ ''`: '' @ err_reason e"

definition OBJECT_ID_RULE :: string where
  "OBJECT_ID_RULE = ''IDs use lowercase letters, digits and single hyphens, start and end '' @
     ''with a letter or digit, and are 2 to 50 characters long''"

definition id_alnum :: "char \<Rightarrow> bool" where
  "id_alnum c \<longleftrightarrow> is_ascii_lowercase c \<or> is_ascii_digit c"

fun id_window :: "char \<times> char \<Rightarrow> bool" where
  "id_window (x, y) =
     (if x = CHR ''-'' \<and> y = CHR ''-'' then False
      else (id_alnum x \<or> x = CHR ''-'') \<and> (id_alnum y \<or> y = CHR ''-''))"

definition is_valid_object_id :: "string \<Rightarrow> bool" where
  "is_valid_object_id b =
     (if length b < 2 \<or> length b > MAX_ID_LEN then False
      else if \<not> id_alnum (b ! 0) \<or> \<not> id_alnum (b ! (length b - 1)) then False
      else list_all id_window (zip b (tl b)))"

definition validate_object_id :: "string \<Rightarrow> string \<Rightarrow> id_error + unit" where
  "validate_object_id kind s =
     (if is_valid_object_id s then Ok () else Err (IdError_new kind s OBJECT_ID_RULE))"

text \<open>The \<open>new\<close> that the macro \<open>object_id!\<close> generates, and its instances.\<close>

definition object_id_new :: "string \<Rightarrow> string \<Rightarrow> id_error + string" where
  "object_id_new kind s = rbind (validate_object_id kind s) (\<lambda>_. Ok s)"

definition OrgId_new :: "string \<Rightarrow> id_error + string" where
  "OrgId_new = object_id_new ''organization ID''"

definition AppId_new :: "string \<Rightarrow> id_error + string" where
  "AppId_new = object_id_new ''application ID''"

definition EnvId_new :: "string \<Rightarrow> id_error + string" where
  "EnvId_new = object_id_new ''environment ID''"

definition EnvTypeId_new :: "string \<Rightarrow> id_error + string" where
  "EnvTypeId_new = object_id_new ''environment type ID''"

definition DefinitionId_new :: "string \<Rightarrow> id_error + string" where
  "DefinitionId_new = object_id_new ''resource definition ID''"

definition CriterionId_new :: "string \<Rightarrow> id_error + string" where
  "CriterionId_new = object_id_new ''criterion ID''"

definition AccountId_new :: "string \<Rightarrow> id_error + string" where
  "AccountId_new = object_id_new ''cloud account ID''"

definition WorkloadId_new :: "string \<Rightarrow> id_error + string" where
  "WorkloadId_new = object_id_new ''workload name''"

definition ClassId_new :: "string \<Rightarrow> id_error + string" where
  "ClassId_new s = rbind (validate_object_id ''class'' s) (\<lambda>_. Ok s)"

definition default_class :: string where
  "default_class = ''default''"

definition is_default :: "string \<Rightarrow> bool" where
  "is_default c \<longleftrightarrow> c = ''default''"

section \<open>Resource types\<close>

definition is_type_name :: "string \<Rightarrow> bool" where
  "is_type_name s \<longleftrightarrow> s \<noteq> [] \<and> length s \<le> MAX_ID_LEN
     \<and> list_all (\<lambda>c. is_ascii_lowercase c \<or> is_ascii_digit c \<or> c = CHR ''-'') s
     \<and> \<not> prefix ''-'' s \<and> \<not> suffix ''-'' s"

definition is_resource_type :: "string \<Rightarrow> bool" where
  "is_resource_type s =
     (case split_once CHR ''/'' s of
        Some (org, name) \<Rightarrow> is_valid_object_id org \<and> is_type_name name
      | None \<Rightarrow> is_type_name s)"

definition ResourceTypeId_new :: "string \<Rightarrow> id_error + string" where
  "ResourceTypeId_new s =
     (if is_resource_type s then Ok s
      else Err (IdError_new ''resource type'' s
        ''types are lowercase names such as `postgres`, or `{org}/{name}` for custom types''))"

definition is_custom :: "string \<Rightarrow> bool" where
  "is_custom s \<longleftrightarrow> CHR ''/'' \<in> set s"

section \<open>Resource IDs\<close>

definition res_id_char :: "char \<Rightarrow> bool" where
  "res_id_char c \<longleftrightarrow> is_ascii_alphanumeric c \<or> c = CHR ''-'' \<or> c = CHR ''_''"

definition is_res_id :: "string \<Rightarrow> bool" where
  "is_res_id s \<longleftrightarrow> s \<noteq> [] \<and> length s \<le> 255
     \<and> list_all (\<lambda>seg. seg \<noteq> [] \<and> list_all res_id_char seg) (split_on CHR ''.'' s)"

definition ResId_new :: "string \<Rightarrow> id_error + string" where
  "ResId_new s =
     (if is_res_id s then Ok s
      else Err (IdError_new ''resource ID'' s
        ''resource IDs are dot-separated segments of letters, digits, `-` and `_`''))"

definition ResId_workload :: "string \<Rightarrow> string" where
  "ResId_workload workload = ''modules.'' @ workload"

definition ResId_private :: "string \<Rightarrow> string \<Rightarrow> id_error + string" where
  "ResId_private workload key = ResId_new (''modules.'' @ workload @ ''.externals.'' @ key)"

definition ResId_shared :: "string \<Rightarrow> id_error + string" where
  "ResId_shared i = ResId_new (''shared.'' @ i)"

section \<open>Descriptors\<close>

datatype descriptor = Descriptor (d_ty: string) (d_class: string) (d_id: string)

definition descriptor_string :: "descriptor \<Rightarrow> string" where
  "descriptor_string d = d_ty d @ ''.'' @ d_class d @ ''#'' @ d_id d"

definition Descriptor_parse :: "string \<Rightarrow> id_error + descriptor" where
  "Descriptor_parse s =
     (let err = IdError_new ''resource descriptor'' s ''expected `<type>.<class>#<res_id>`'' in
      rbind (ok_or err (split_once CHR ''#'' s)) (\<lambda>(head, i).
      rbind (ok_or err (split_once CHR ''.'' head)) (\<lambda>(ty, class).
      rbind (ResourceTypeId_new ty) (\<lambda>t.
      rbind (ClassId_new class) (\<lambda>c.
      rbind (ResId_new i) (\<lambda>r. Ok (Descriptor t c r)))))))"

definition wf_descriptor :: "descriptor \<Rightarrow> bool" where
  "wf_descriptor d \<longleftrightarrow>
     is_resource_type (d_ty d) \<and> is_valid_object_id (d_class d) \<and> is_res_id (d_id d)"

text \<open>The derived order: type, then class, then ID.\<close>

definition descriptor_le :: "descriptor \<Rightarrow> descriptor \<Rightarrow> bool" where
  "descriptor_le d e \<longleftrightarrow>
     d_ty d < d_ty e \<or> (d_ty d = d_ty e \<and>
       (d_class d < d_class e \<or> (d_class d = d_class e \<and> d_id d \<le> d_id e)))"

instantiation descriptor :: linorder
begin

definition less_eq_descriptor :: "descriptor \<Rightarrow> descriptor \<Rightarrow> bool" where
  "less_eq_descriptor d e \<longleftrightarrow> descriptor_le d e"

definition less_descriptor :: "descriptor \<Rightarrow> descriptor \<Rightarrow> bool" where
  "less_descriptor d e \<longleftrightarrow> d \<le> e \<and> \<not> e \<le> (d :: descriptor)"

instance
proof
  fix x y z :: descriptor
  show "(x < y) = (x \<le> y \<and> \<not> y \<le> x)"
    by (rule less_descriptor_def)
  show "x \<le> x"
    by (simp add: less_eq_descriptor_def descriptor_le_def)
  show "x \<le> y \<Longrightarrow> y \<le> z \<Longrightarrow> x \<le> z"
    by (auto simp: less_eq_descriptor_def descriptor_le_def)
  show "x \<le> y \<Longrightarrow> y \<le> x \<Longrightarrow> x = y"
    by (cases x; cases y) (auto simp: less_eq_descriptor_def descriptor_le_def)
  show "x \<le> y \<or> y \<le> x"
    by (auto simp: less_eq_descriptor_def descriptor_le_def)
qed

end

section \<open>GUResIDs\<close>

definition is_guresid :: "string \<Rightarrow> bool" where
  "is_guresid s \<longleftrightarrow> length s = 32
     \<and> list_all (\<lambda>c. is_ascii_digit c \<or> (97 \<le> byte c \<and> byte c \<le> 102)) s"

definition Guresid_new :: "string \<Rightarrow> id_error + string" where
  "Guresid_new s =
     (if is_guresid s then Ok s
      else Err (IdError_new ''GUResID'' s ''expected 32 lowercase hexadecimal characters''))"

definition Guresid_from_bytes :: "char list \<Rightarrow> string" where
  "Guresid_from_bytes bytes = concat (map (\<lambda>b. hex2 (byte b)) bytes)"

section \<open>The grammar of object IDs\<close>

text \<open>
  The JSON Schema pattern \<open>OBJECT_ID_PATTERN\<close>, \<open>^[a-z0-9]+(?:-[a-z0-9]+)*$\<close>, and the rule of
  the module header, \<open>^[a-z0-9](?:-?[a-z0-9]+)+$\<close>, as grammars.
\<close>

definition alnum_word :: "string \<Rightarrow> bool" where
  "alnum_word w \<longleftrightarrow> w \<noteq> [] \<and> list_all id_alnum w"

inductive object_id_pattern :: "string \<Rightarrow> bool" where
  word: "alnum_word w \<Longrightarrow> object_id_pattern w"
| hyphen: "alnum_word w \<Longrightarrow> object_id_pattern p \<Longrightarrow> object_id_pattern (w @ ''-'' @ p)"

inductive api_id_groups :: "string \<Rightarrow> bool" where
  plain: "alnum_word w \<Longrightarrow> api_id_groups w"
| hyphened: "alnum_word w \<Longrightarrow> api_id_groups (''-'' @ w)"
| more: "api_id_groups g \<Longrightarrow> api_id_groups h \<Longrightarrow> api_id_groups (g @ h)"

definition api_id_rule :: "string \<Rightarrow> bool" where
  "api_id_rule s \<longleftrightarrow> (case s of [] \<Rightarrow> False | c # g \<Rightarrow> id_alnum c \<and> api_id_groups g)"


lemma alnum_word_no_hyphen: "alnum_word w \<Longrightarrow> CHR ''-'' \<notin> set w"
  by (auto simp: alnum_word_def list_all_iff id_alnum_def ascii_defs)

lemma object_id_pattern_split:
  "object_id_pattern s \<longleftrightarrow> list_all alnum_word (split_on CHR ''-'' s)"
proof
  assume "object_id_pattern s"
  then show "list_all alnum_word (split_on CHR ''-'' s)"
    by induction (auto simp: alnum_word_no_hyphen split_on_append_sep)
next
  have "list_all alnum_word ws \<Longrightarrow> ws \<noteq> [] \<Longrightarrow> object_id_pattern (join ''-'' ws)" for ws
  proof (induction "''-''" ws rule: join.induct)
    case (3 x y ys)
    then show ?case using object_id_pattern.hyphen [of x "join ''-'' (y # ys)"] by simp
  qed (auto intro: object_id_pattern.word)
  moreover assume "list_all alnum_word (split_on CHR ''-'' s)"
  ultimately show "object_id_pattern s"
    using split_on_nonempty join_split_on by metis
qed

text \<open>The check over windows of two bytes, with its tests of the first and last byte.\<close>

lemma windows_split:
  "s \<noteq> [] \<Longrightarrow> id_alnum (hd s) \<and> id_alnum (last s) \<and> list_all id_window (zip s (tl s))
     \<longleftrightarrow> list_all alnum_word (split_on CHR ''-'' s)"
proof (induction s rule: induct_list012)
  case (2 x)
  have "\<not> id_alnum CHR ''-''" by (simp add: id_alnum_def ascii_defs)
  then show ?case by (auto simp: alnum_word_def)
next
  case (3 x y zs)
  have no: "\<not> id_alnum CHR ''-''" by (simp add: id_alnum_def ascii_defs)
  show ?case
  proof (cases "x = CHR ''-''")
    case True
    with no show ?thesis by (simp add: alnum_word_def)
  next
    case x: False
    show ?thesis
    proof (cases "y = CHR ''-''")
      case True
      with x no 3 show ?thesis by (cases zs) (auto simp: alnum_word_def)
    next
      case False
      then obtain seg segs where "split_on CHR ''-'' (y # zs) = seg # segs" and "seg \<noteq> []"
        by (cases "split_on CHR ''-'' zs") auto
      with x False 3(2) no show ?thesis by (auto simp: alnum_word_def)
    qed
  qed
qed simp

lemma is_valid_object_id_iff:
  "is_valid_object_id s \<longleftrightarrow> object_id_pattern s \<and> 2 \<le> length s \<and> length s \<le> MAX_ID_LEN"
proof (cases "2 \<le> length s \<and> length s \<le> MAX_ID_LEN")
  case True
  then have "s \<noteq> []" by auto
  then have "s ! 0 = hd s" and "s ! (length s - 1) = last s"
    by (simp_all add: hd_conv_nth last_conv_nth)
  with True windows_split [OF \<open>s \<noteq> []\<close>] show ?thesis
    by (auto simp: is_valid_object_id_def object_id_pattern_split)
qed (auto simp: is_valid_object_id_def)

lemma object_id_pattern_extend:
  assumes "object_id_pattern p" and "alnum_word w"
  shows "object_id_pattern (p @ w)" and "object_id_pattern (p @ ''-'' @ w)"
  using assms
proof (induction p)
  case (word v)
  {
    case 1
    with word show ?case by (intro object_id_pattern.word) (auto simp: alnum_word_def)
  next
    case 2
    with word show ?case by (intro object_id_pattern.hyphen object_id_pattern.word) auto
  }
next
  case (hyphen v p)
  {
    case 1
    with hyphen object_id_pattern.hyphen [of v "p @ w"] show ?case by simp
  next
    case 2
    with hyphen object_id_pattern.hyphen [of v "p @ ''-'' @ w"] show ?case by simp
  }
qed

lemma api_id_groups_extend:
  "api_id_groups g \<Longrightarrow> object_id_pattern p \<Longrightarrow> g \<noteq> [] \<and> object_id_pattern (p @ g)"
proof (induction arbitrary: p rule: api_id_groups.induct)
  case (plain w)
  then show ?case by (auto simp: alnum_word_def intro: object_id_pattern_extend)
next
  case (hyphened w)
  then show ?case by (auto dest: object_id_pattern_extend(2))
next
  case (more g h)
  then show ?case by (metis append_assoc append_is_Nil_conv)
qed

lemma hyphen_pattern_groups: "object_id_pattern p \<Longrightarrow> api_id_groups (''-'' @ p)"
proof (induction rule: object_id_pattern.induct)
  case (word w)
  then show ?case by (rule api_id_groups.hyphened)
next
  case (hyphen w p)
  then show ?case
    using api_id_groups.more [OF api_id_groups.hyphened [of w], of "''-'' @ p"] by simp
qed

lemma api_id_rule_iff: "api_id_rule s \<longleftrightarrow> object_id_pattern s \<and> 2 \<le> length s"
proof
  assume "api_id_rule s"
  then obtain c g where s: "s = c # g" and c: "id_alnum c" and g: "api_id_groups g"
    by (auto simp: api_id_rule_def split: list.splits)
  have "object_id_pattern [c]" using c by (intro object_id_pattern.word) (simp add: alnum_word_def)
  with api_id_groups_extend [OF g, of "[c]"] have "g \<noteq> []" and "object_id_pattern ([c] @ g)"
    by auto
  then show "object_id_pattern s \<and> 2 \<le> length s" using s by (cases g) auto
next
  assume "object_id_pattern s \<and> 2 \<le> length s"
  then have "object_id_pattern s" and "2 \<le> length s" by simp_all
  then show "api_id_rule s"
  proof (induction rule: object_id_pattern.induct)
    case (word w)
    then obtain c g where "w = c # g" and "g \<noteq> []" by (cases w; cases "tl w") auto
    with word show ?case
      by (auto simp: api_id_rule_def alnum_word_def intro: api_id_groups.plain)
  next
    case (hyphen w p)
    note h = hyphen_pattern_groups [OF hyphen.hyps(2)]
    obtain c v where w: "w = c # v" and c: "id_alnum c" and v: "list_all id_alnum v"
      using hyphen.hyps(1) by (cases w) (auto simp: alnum_word_def)
    have "api_id_groups (v @ ''-'' @ p)"
    proof (cases "v = []")
      case False
      with v have "api_id_groups v" by (intro api_id_groups.plain) (simp add: alnum_word_def)
      from api_id_groups.more [OF this h] show ?thesis .
    qed (use h in simp)
    with w c show ?case by (simp add: api_id_rule_def)
  qed
qed


section \<open>What the constructors accept\<close>

lemma object_id_new_Inr [simp]: "object_id_new kind s = Inr t \<longleftrightarrow> is_valid_object_id s \<and> t = s"
  by (auto simp: object_id_new_def validate_object_id_def)

lemma object_id_new_Inl:
  "object_id_new kind s = Inl e \<longleftrightarrow>
     \<not> is_valid_object_id s \<and> e = IdError_new kind s OBJECT_ID_RULE"
  by (auto simp: object_id_new_def validate_object_id_def)

lemma ClassId_new_Inr [simp]: "ClassId_new s = Inr t \<longleftrightarrow> is_valid_object_id s \<and> t = s"
  by (auto simp: ClassId_new_def validate_object_id_def)

lemma ResourceTypeId_new_Inr [simp]: "ResourceTypeId_new s = Inr t \<longleftrightarrow> is_resource_type s \<and> t = s"
  by (auto simp: ResourceTypeId_new_def)

lemma ResId_new_Inr [simp]: "ResId_new s = Inr t \<longleftrightarrow> is_res_id s \<and> t = s"
  by (auto simp: ResId_new_def)

lemma Guresid_new_Inr [simp]: "Guresid_new s = Inr t \<longleftrightarrow> is_guresid s \<and> t = s"
  by (auto simp: Guresid_new_def)

lemma default_class_valid [simp]: "is_valid_object_id default_class"
  by (simp add: default_class_def is_valid_object_id_def MAX_ID_LEN_def id_alnum_def ascii_defs)

lemma valid_object_id_chars:
  assumes "is_valid_object_id s" and "c \<in> set s"
  shows "id_alnum c \<or> c = CHR ''-''"
proof -
  have all: "list_all alnum_word (split_on CHR ''-'' s)"
    using assms(1) by (simp add: is_valid_object_id_iff object_id_pattern_split)
  have "c = CHR ''-'' \<or> (\<exists>seg \<in> set (split_on CHR ''-'' s). c \<in> set seg)"
    using set_split_on [of s "CHR ''-''"] assms(2) by auto
  with all show ?thesis by (auto simp: list_all_iff alnum_word_def)
qed

lemma valid_object_id_length: "is_valid_object_id s \<Longrightarrow> 2 \<le> length s \<and> length s \<le> 50"
  by (simp add: is_valid_object_id_iff MAX_ID_LEN_def)

lemma resource_type_chars:
  "is_resource_type s \<Longrightarrow> c \<in> set s \<Longrightarrow> id_alnum c \<or> c = CHR ''-'' \<or> c = CHR ''/''"
  unfolding is_resource_type_def is_type_name_def list_all_iff
  using valid_object_id_chars
  by (fastforce simp: split_once_Some id_alnum_def split: option.splits)

lemma resource_type_length: "is_resource_type s \<Longrightarrow> s \<noteq> [] \<and> length s \<le> 101"
  by (auto simp: is_resource_type_def is_type_name_def MAX_ID_LEN_def split_once_Some
      split: option.splits dest: valid_object_id_length)

text \<open>Characters that delimit descriptors and resource IDs do not occur in their parts.\<close>

lemma not_special:
  "\<not> id_alnum CHR ''.''" "\<not> id_alnum CHR ''#''" "\<not> id_alnum CHR ''/''" "\<not> id_alnum CHR ''-''"
  "\<not> res_id_char CHR ''.''" "\<not> res_id_char CHR ''#''"
  by (simp_all add: id_alnum_def res_id_char_def ascii_defs)

lemma valid_object_id_notin:
  assumes "is_valid_object_id s"
  shows "CHR ''.'' \<notin> set s" and "CHR ''#'' \<notin> set s" and "CHR ''/'' \<notin> set s"
  using valid_object_id_chars [OF assms] not_special by auto

lemma resource_type_notin:
  assumes "is_resource_type s"
  shows "CHR ''.'' \<notin> set s" and "CHR ''#'' \<notin> set s"
  using resource_type_chars [OF assms] not_special by auto

lemma id_alnum_res_id_char: "id_alnum c \<Longrightarrow> res_id_char c"
  by (auto simp: id_alnum_def res_id_char_def is_ascii_alphanumeric_def)

lemma is_res_id_append_dot:
  "is_res_id (a @ ''.'' @ b) \<longleftrightarrow> length a + length b < 255
     \<and> list_all (\<lambda>seg. seg \<noteq> [] \<and> list_all res_id_char seg)
         (split_on CHR ''.'' a @ split_on CHR ''.'' b)"
  by (auto simp: is_res_id_def split_on_app_sep)

lemma ResId_private_Inr:
  "ResId_private w k = Inr r \<longleftrightarrow>
     is_res_id (''modules.'' @ w @ ''.externals.'' @ k) \<and> r = ''modules.'' @ w @ ''.externals.'' @ k"
  by (auto simp: ResId_private_def)

lemma ResId_shared_Inr:
  "ResId_shared i = Inr r \<longleftrightarrow> is_res_id (''shared.'' @ i) \<and> r = ''shared.'' @ i"
  by (auto simp: ResId_shared_def)

lemma is_res_id_workload: "is_valid_object_id w \<Longrightarrow> is_res_id (ResId_workload w)"
  using is_res_id_append_dot [of "''modules''" w] valid_object_id_notin(1) [of w]
    valid_object_id_length [of w] valid_object_id_chars [of w]
  by (auto simp: ResId_workload_def list_all_iff res_id_char_def ascii_defs id_alnum_def)

lemma is_res_id_type_name: "is_resource_type t \<Longrightarrow> is_res_id (replace_str ''/'' ''-'' t)"
proof -
  assume t: "is_resource_type t"
  have r: "replace_str ''/'' ''-'' t = map (\<lambda>x. if x = CHR ''/'' then CHR ''-'' else x) t"
    unfolding replace_str_single by (induction t) auto
  have chars: "res_id_char c" if "c \<in> set (replace_str ''/'' ''-'' t)" for c
    using that resource_type_chars [OF t] id_alnum_res_id_char [of c] unfolding r
    by (auto simp: res_id_char_def)
  then have "CHR ''.'' \<notin> set (replace_str ''/'' ''-'' t)" using not_special by blast
  then show ?thesis
    using resource_type_length [OF t] chars by (auto simp: is_res_id_def list_all_iff r)
qed

section \<open>Descriptors parse back\<close>

lemma Descriptor_parse_string: "wf_descriptor d \<Longrightarrow> Descriptor_parse (descriptor_string d) = Inr d"
proof -
  assume wf: "wf_descriptor d"
  let ?h = "d_ty d @ ''.'' @ d_class d"
  have "CHR ''#'' \<notin> set ?h" and "CHR ''.'' \<notin> set (d_ty d)"
    using wf resource_type_notin valid_object_id_notin by (auto simp: wf_descriptor_def)
  then have "split_once CHR ''#'' (?h @ CHR ''#'' # d_id d) = Some (?h, d_id d)"
    and "split_once CHR ''.'' (d_ty d @ CHR ''.'' # d_class d) = Some (d_ty d, d_class d)"
    by (intro split_once_append; simp)+
  with wf show ?thesis
    by (simp add: Descriptor_parse_def descriptor_string_def wf_descriptor_def ResourceTypeId_new_def
        ClassId_new_def ResId_new_def validate_object_id_def)
qed

lemma Descriptor_parse_Inr:
  "Descriptor_parse s = Inr d \<Longrightarrow> wf_descriptor d \<and> descriptor_string d = s"
  by (auto simp: Descriptor_parse_def Let_def rbind_eq_Inr split_once_Some wf_descriptor_def
      descriptor_string_def)

lemma descriptor_string_inject:
  "wf_descriptor d \<Longrightarrow> wf_descriptor e \<Longrightarrow> descriptor_string d = descriptor_string e \<longleftrightarrow> d = e"
  using Descriptor_parse_string by (metis sum.inject(2))


section \<open>GUResIDs are faithful to their bytes\<close>

lemma digit_hex: "n < 16 \<Longrightarrow> is_ascii_digit (digit n) \<or> (97 \<le> byte (digit n) \<and> byte (digit n) \<le> 102)"
  by (auto simp: digit_def is_ascii_digit_def)

lemma Guresid_from_bytes_inject:
  "length xs = length ys \<Longrightarrow> Guresid_from_bytes xs = Guresid_from_bytes ys \<Longrightarrow> xs = ys"
proof (induction xs ys rule: list_induct2)
  case (Cons x xs y ys)
  then have "hex2 (byte x) = hex2 (byte y)" and "Guresid_from_bytes xs = Guresid_from_bytes ys"
    by (auto simp: Guresid_from_bytes_def hex2_def)
  with Cons.IH show ?case by (simp add: hex2_inject)
qed simp

lemma length_Guresid_from_bytes: "length (Guresid_from_bytes bs) = 2 * length bs"
  by (induction bs) (auto simp: Guresid_from_bytes_def hex2_def)

lemma Guresid_from_bytes_chars:
  "list_all (\<lambda>c. is_ascii_digit c \<or> (97 \<le> byte c \<and> byte c \<le> 102)) (Guresid_from_bytes bs)"
  by (induction bs) (auto simp: Guresid_from_bytes_def hex2_def digit_hex)

section \<open>Properties\<close>

text \<open>
  C27: the byte-window check accepts exactly the strings of the published JSON Schema pattern
  that have 2 to 50 bytes, and exactly those of the API rule of the module header.
\<close>

theorem object_id_check_matches_patterns:
  "(is_valid_object_id s \<longleftrightarrow> object_id_pattern s \<and> 2 \<le> length s \<and> length s \<le> MAX_ID_LEN) \<and>
   (is_valid_object_id s \<longleftrightarrow> api_id_rule s \<and> length s \<le> MAX_ID_LEN)"
  by (auto simp: is_valid_object_id_iff api_id_rule_iff)

text \<open>
  C28: a descriptor parses back from its printed form and from no other string: parsing
  succeeds with \<open>d\<close> exactly on the printed form of a well-formed \<open>d\<close>.
\<close>

theorem descriptor_round_trip:
  "Descriptor_parse s = Ok d \<longleftrightarrow> wf_descriptor d \<and> s = descriptor_string d"
  using Descriptor_parse_string Descriptor_parse_Inr by auto

text \<open>
  C29: the resource IDs the graph derives never collide: private dependencies are determined by
  workload and key, and the IDs of workloads, of private and of shared resources are disjoint.
\<close>

theorem resource_id_namespaces:
  assumes "is_valid_object_id w" and "is_valid_object_id w'"
    and p: "ResId_private w k = Ok p" and p': "ResId_private w' k' = Ok p'"
    and q: "ResId_shared i = Ok q"
  shows "(p = p' \<longleftrightarrow> w = w' \<and> k = k') \<and> p \<noteq> q
    \<and> ResId_workload w \<noteq> p' \<and> ResId_workload w \<noteq> q
    \<and> (ResId_workload w = ResId_workload w' \<longleftrightarrow> w = w')"
proof -
  have dots: "CHR ''.'' \<notin> set w" "CHR ''.'' \<notin> set w'"
    using assms(1,2) by (simp_all add: valid_object_id_notin)
  have "w @ CHR ''.'' # x = w' @ CHR ''.'' # x' \<longleftrightarrow> w = w' \<and> x = x'" for x x'
    using dots by (rule append_sep_inject)
  then show ?thesis
    using p p' q dots by (auto simp: ResId_private_Inr ResId_shared_Inr ResId_workload_def)
qed

theorem resource_id_namespaces_witness:
  "ResId_private ''web'' ''db'' = Ok ''modules.web.externals.db''
   \<and> ''modules.web.externals.db'' \<noteq> ''shared.dns'' \<and> ResId_workload ''web'' \<noteq> ''shared.dns''"
proof -
  have v: "is_valid_object_id ''web''"
    by (simp add: is_valid_object_id_def MAX_ID_LEN_def id_alnum_def ascii_defs)
  have p: "ResId_private ''web'' ''db'' = Ok ''modules.web.externals.db''"
    and q: "ResId_shared ''dns'' = Ok ''shared.dns''"
    by (simp_all add: ResId_private_def ResId_shared_def ResId_new_def is_res_id_def res_id_char_def
        ascii_defs)
  show ?thesis using p resource_id_namespaces [OF v v p p q] by simp
qed

text \<open>
  C30: a GUResID built from 16 bytes passes its own validation, and different bytes give
  different GUResIDs.
\<close>

theorem guresid_from_bytes:
  assumes "length bs = 16" and "length cs = 16"
  shows "Guresid_new (Guresid_from_bytes bs) = Ok (Guresid_from_bytes bs)
    \<and> (Guresid_from_bytes bs = Guresid_from_bytes cs \<longleftrightarrow> bs = cs)"
  using assms Guresid_from_bytes_inject [of bs cs] length_Guresid_from_bytes [of bs]
    Guresid_from_bytes_chars [of bs] by (auto simp: is_guresid_def)

theorem guresid_from_bytes_witness:
  "length (replicate 16 CHR 0xAB) = 16 \<and>
   Guresid_new (Guresid_from_bytes (replicate 16 CHR 0xAB)) = Ok (Guresid_from_bytes (replicate 16 CHR 0xAB))"
  using guresid_from_bytes [of "replicate 16 CHR 0xAB" "replicate 16 CHR 0xAB"] by simp

end
