(* ===== verification/Json.thy ===== *)
theory Json
  imports Rust_Str
begin

text \<open>
  JSON documents as the program holds them: \<open>serde_json::Value\<close> with the feature
  \<open>preserve_order\<close>, so an object is its entries in insertion order. Integers are kept as
  \<open>serde_json\<close> keeps them, a non-negative \<open>u64\<close> or a negative \<open>i64\<close>. A finite double is what
  Rust's \<open>{:e}\<close> prints of it, its sign, its shortest round-trip digits and its decimal exponent,
  which identifies the double. The order-insensitive equality of \<open>Value\<close> is \<open>json_eq\<close>.
\<close>

datatype f64 = F64 (f_neg: bool) (f_digits: "nat list") (f_exp: int)

datatype number = PosInt nat | NegInt int | Float f64

datatype json =
    JNull
  | JBool bool
  | JNum number
  | JStr string
  | JArr "json list"
  | JObj "(string \<times> json) list"

type_synonym json_map = "(string \<times> json) list"

section \<open>Accessors\<close>

fun is_null :: "json \<Rightarrow> bool" where
  "is_null JNull = True"
| "is_null _ = False"

fun is_string :: "json \<Rightarrow> bool" where
  "is_string (JStr _) = True"
| "is_string _ = False"

fun as_str :: "json \<Rightarrow> string option" where
  "as_str (JStr s) = Some s"
| "as_str _ = None"

fun as_array :: "json \<Rightarrow> json list option" where
  "as_array (JArr xs) = Some xs"
| "as_array _ = None"

fun as_object :: "json \<Rightarrow> json_map option" where
  "as_object (JObj es) = Some es"
| "as_object _ = None"

text \<open>\<open>Value::get\<close> with a key.\<close>

fun json_get :: "json \<Rightarrow> string \<Rightarrow> json option" where
  "json_get (JObj es) k = map_of es k"
| "json_get _ k = None"

text \<open>\<open>Map::insert\<close>: replaces in place, or appends.\<close>

fun obj_insert :: "string \<Rightarrow> json \<Rightarrow> json_map \<Rightarrow> json_map" where
  "obj_insert k v [] = [(k, v)]"
| "obj_insert k v ((l, w) # es) = (if l = k then (k, v) # es else (l, w) # obj_insert k v es)"

lemma map_of_obj_insert: "map_of (obj_insert k v es) = (map_of es)(k \<mapsto> v)"
  by (induction k v es rule: obj_insert.induct) auto

lemma keys_obj_insert: "fst ` set (obj_insert k v es) = insert k (fst ` set es)"
  by (induction k v es rule: obj_insert.induct) auto

lemma distinct_obj_insert:
  "distinct (map fst es) \<Longrightarrow> distinct (map fst (obj_insert k v es))"
proof (induction k v es rule: obj_insert.induct)
  case (2 k v l w es)
  have "fst ` set (obj_insert k v es) = insert k (fst ` set es)" by (rule keys_obj_insert)
  with 2 show ?case by auto
qed simp

section \<open>Numbers\<close>

definition wf_f64 :: "f64 \<Rightarrow> bool" where
  "wf_f64 f \<longleftrightarrow> f_digits f \<noteq> [] \<and> list_all (\<lambda>d. d < 10) (f_digits f)"

fun wf_number :: "number \<Rightarrow> bool" where
  "wf_number (PosInt n) = (n < 2 ^ 64)"
| "wf_number (NegInt i) = (- (2 ^ 63) \<le> i \<and> i < 0)"
| "wf_number (Float f) = wf_f64 f"

fun as_i64 :: "number \<Rightarrow> int option" where
  "as_i64 (PosInt n) = (if n < 2 ^ 63 then Some (int n) else None)"
| "as_i64 (NegInt i) = Some i"
| "as_i64 (Float _) = None"

fun as_u64 :: "number \<Rightarrow> nat option" where
  "as_u64 (PosInt n) = Some n"
| "as_u64 _ = None"

fun is_i64 :: "json \<Rightarrow> bool" where
  "is_i64 (JNum n) = (as_i64 n \<noteq> None)"
| "is_i64 _ = False"

fun is_u64 :: "json \<Rightarrow> bool" where
  "is_u64 (JNum n) = (as_u64 n \<noteq> None)"
| "is_u64 _ = False"

text \<open>
  The double nearest to an integer (ties to even), and its shortest digits: the fewest
  digits of a decimal that reads back as the same double.
\<close>

fun bit_len :: "nat \<Rightarrow> nat" where
  "bit_len n = (if n = 0 then 0 else Suc (bit_len (n div 2)))"

declare bit_len.simps [simp del]

definition round_f64 :: "nat \<Rightarrow> nat" where
  "round_f64 n =
     (let b = bit_len n in
      if b \<le> 53 then n
      else let u = 2 ^ (b - 53); q = n div u; r = n mod u in
           (if 2 * r > u \<or> (2 * r = u \<and> odd q) then q + 1 else q) * u)"

fun strip_zeros :: "nat list \<Rightarrow> nat list" where
  "strip_zeros [] = []"
| "strip_zeros (d # ds) = (let r = strip_zeros ds in if r = [] \<and> d = 0 then [] else d # r)"

definition nat_digits :: "nat \<Rightarrow> nat list" where
  "nat_digits n = map (\<lambda>c. byte c - 48) (dec n)"

definition decimals :: "nat \<Rightarrow> nat \<Rightarrow> nat list" where
  "decimals v k =
     (let p = 10 ^ (length (nat_digits v) - k); lo = (v div p) * p; hi = lo + p in
      if v - lo \<le> hi - v then [lo, hi] else [hi, lo])"

definition shortest :: "nat \<Rightarrow> nat" where
  "shortest v =
     (case find (\<lambda>c. round_f64 c = v) (concat (map (decimals v) [1..<18])) of
        Some c \<Rightarrow> c | None \<Rightarrow> v)"

definition nat_to_f64 :: "bool \<Rightarrow> nat \<Rightarrow> f64" where
  "nat_to_f64 neg n =
     (if n = 0 then F64 neg [0] 0
      else let c = shortest (round_f64 n); ds = nat_digits c in
           F64 neg (strip_zeros ds) (int (length ds) - 1))"

fun as_f64 :: "number \<Rightarrow> f64" where
  "as_f64 (PosInt n) = nat_to_f64 False n"
| "as_f64 (NegInt i) = nat_to_f64 True (nat (- i))"
| "as_f64 (Float f) = f"

text \<open>The double of an integer is well-formed.\<close>

lemma bit_len_le: "n \<noteq> 0 \<Longrightarrow> 2 ^ (bit_len n - 1) \<le> n"
proof (induction n rule: bit_len.induct)
  case (1 n)
  show ?case
  proof (cases "n div 2 = 0")
    case True
    with 1 show ?thesis by (simp add: bit_len.simps [of n] bit_len.simps [of 0])
  next
    case False
    with 1 have "2 ^ (bit_len (n div 2) - 1) \<le> n div 2" by simp
    moreover have "bit_len (n div 2) \<noteq> 0" using False by (subst bit_len.simps) simp
    ultimately have "2 * 2 ^ (bit_len (n div 2) - 1) \<le> n" by linarith
    with \<open>bit_len (n div 2) \<noteq> 0\<close> 1(2) show ?thesis
      by (simp add: bit_len.simps [of n] power_eq_if)
  qed
qed

lemma round_f64_nonzero:
  assumes "n \<noteq> 0"
  shows "round_f64 n \<noteq> 0"
proof -
  have "(2::nat) ^ (bit_len n - 53) \<le> 2 ^ (bit_len n - 1)" by (rule power_increasing) auto
  with bit_len_le [OF assms] have "(2::nat) ^ (bit_len n - 53) \<le> n" by linarith
  then have "n div 2 ^ (bit_len n - 53) \<noteq> 0" by (simp add: div_eq_0_iff)
  with assms show ?thesis by (simp add: round_f64_def Let_def)
qed

lemma shortest_nonzero:
  assumes "v \<noteq> 0"
  shows "shortest v \<noteq> 0"
proof -
  have "round_f64 0 = 0" by (simp add: round_f64_def bit_len.simps [of 0])
  moreover have "round_f64 c = v" if "find (\<lambda>c. round_f64 c = v) xs = Some c" for c xs
    using that by (auto simp: find_Some_iff)
  ultimately show ?thesis
    using assms by (metis (no_types, lifting) shortest_def option.case_eq_if option.collapse)
qed

lemma strip_zeros_Nil: "strip_zeros ds = [] \<Longrightarrow> d \<in> set ds \<Longrightarrow> d = 0"
  by (induction ds) (auto simp: Let_def split: if_splits)

lemma set_strip_zeros: "set (strip_zeros ds) \<subseteq> set ds"
  by (induction ds) (auto simp: Let_def split: if_splits)

lemma digits_val_zeros:
  "(\<And>c. c \<in> set s \<Longrightarrow> byte c - 48 = 0) \<Longrightarrow> digits_val s = 0"
  by (induction s rule: rev_induct) (auto simp: digits_val_def)

lemma nat_digits_bound: "d \<in> set (nat_digits n) \<Longrightarrow> d < 10"
  by (auto simp: nat_digits_def is_ascii_digit_def dest!: dec_digits)

lemma strip_zeros_nat_digits:
  assumes "c \<noteq> 0"
  shows "strip_zeros (nat_digits c) \<noteq> []"
proof
  assume Nil: "strip_zeros (nat_digits c) = []"
  have "byte x - 48 = 0" if "x \<in> set (dec c)" for x
  proof -
    from that have "byte x - 48 \<in> set (nat_digits c)" by (auto simp: nat_digits_def)
    with Nil show ?thesis by (rule strip_zeros_Nil)
  qed
  then have "digits_val (dec c) = 0" by (rule digits_val_zeros)
  with assms show False by simp
qed

lemma wf_nat_to_f64: "wf_f64 (nat_to_f64 neg n)"
proof (cases "n = 0")
  case False
  then have "shortest (round_f64 n) \<noteq> 0" by (intro shortest_nonzero round_f64_nonzero)
  then have "strip_zeros (nat_digits (shortest (round_f64 n))) \<noteq> []" by (rule strip_zeros_nat_digits)
  moreover have "list_all (\<lambda>d. d < 10) (strip_zeros (nat_digits c))" for c
    using set_strip_zeros [of "nat_digits c"] nat_digits_bound [of _ c] by (auto simp: list_all_iff)
  ultimately show ?thesis using False by (simp add: nat_to_f64_def wf_f64_def Let_def)
qed (simp add: nat_to_f64_def wf_f64_def)

lemma wf_as_f64: "wf_number n \<Longrightarrow> wf_f64 (as_f64 n)"
  by (cases n) (auto simp: wf_nat_to_f64)

section \<open>Well-formed documents and their equality\<close>

text \<open>Keys of an object are distinct, and every string is UTF-8.\<close>

fun wf_json :: "json \<Rightarrow> bool" where
  "wf_json (JNum n) = wf_number n"
| "wf_json (JStr s) = is_utf8 s"
| "wf_json (JArr xs) = list_all wf_json xs"
| "wf_json (JObj es) =
     (distinct (map fst es) \<and> list_all (\<lambda>e. is_utf8 (fst e) \<and> wf_json (snd e)) es)"
| "wf_json _ = True"

lemma size_zip_fst [termination_simp]:
  "(a, b) \<in> set (zip xs ys) \<Longrightarrow> size a < Suc (size_list size xs)"
  using size_list_estimation' [of a xs "size a" size] by (auto dest: set_zip_leftD)

text \<open>Numbers of different kinds differ, and the two zeros of \<open>f64\<close> are equal.\<close>

fun number_eq :: "number \<Rightarrow> number \<Rightarrow> bool" where
  "number_eq (Float a) (Float b) = (a = b \<or> f_digits a = [0] \<and> f_digits b = [0])"
| "number_eq m n = (m = n)"

lemma number_eq_refl [simp]: "number_eq n n"
  by (cases n) auto

fun json_eq :: "json \<Rightarrow> json \<Rightarrow> bool" where
  "json_eq JNull JNull = True"
| "json_eq (JBool a) (JBool b) = (a = b)"
| "json_eq (JNum m) (JNum n) = number_eq m n"
| "json_eq (JStr s) (JStr t) = (s = t)"
| "json_eq (JArr xs) (JArr ys) =
     (length xs = length ys \<and> list_all (\<lambda>(x, y). json_eq x y) (zip xs ys))"
| "json_eq (JObj es) (JObj fs) =
     (length es = length fs \<and>
      list_all (\<lambda>e. list_ex (\<lambda>f. fst e = fst f \<and> json_eq (snd e) (snd f)) fs) es)"
| "json_eq _ _ = False"

lemma json_eq_refl [simp]: "json_eq v v"
proof (induction v)
  case (JArr xs)
  then show ?case by (auto simp: list_all_iff zip_same_conv_map)
next
  case (JObj es)
  then show ?case by (fastforce simp: list_all_iff list_ex_iff)
qed auto

end
