(* ===== verification/Canonical.thy ===== *)
theory Canonical
  imports Json
begin

text \<open>
  The JSON Canonicalization Scheme (\<open>crates/core/src/canonical.rs\<close>), used for set IDs and to
  compare the parameters of two requests: \<open>write_value\<close>, \<open>write_string\<close> and \<open>es_number\<close> as the
  source has them. The main result is that the canonical string determines the content of a
  document, and is determined by it.
\<close>

section \<open>Writing\<close>

definition esc_char :: "char \<Rightarrow> string" where
  "esc_char c =
     (if c = CHR 0x22 then [CHR 0x5C, CHR 0x22]
      else if c = CHR 0x5C then [CHR 0x5C, CHR 0x5C]
      else if c = CHR 0x08 then [CHR 0x5C, CHR ''b'']
      else if c = CHR 0x0C then [CHR 0x5C, CHR ''f'']
      else if c = CHR 0x0A then [CHR 0x5C, CHR ''n'']
      else if c = CHR 0x0D then [CHR 0x5C, CHR ''r'']
      else if c = CHR 0x09 then [CHR 0x5C, CHR ''t'']
      else if byte c < 0x20 then CHR 0x5C # ''u00'' @ hex2 (byte c)
      else [c])"

definition write_string :: "string \<Rightarrow> string" where
  "write_string s = CHR 0x22 # concat (map esc_char s) @ [CHR 0x22]"

definition es_number :: "f64 \<Rightarrow> string" where
  "es_number f =
     (if f_digits f = [0] then ''0''
      else
        let sign = (if f_neg f then ''-'' else '''');
            digits = map digit (f_digits f);
            k = int (length digits);
            n = f_exp f + 1;
            body =
              (if k \<le> n \<and> n \<le> 21 then digits @ replicate (nat (n - k)) CHR ''0''
               else if 0 < n \<and> n \<le> 21 then take (nat n) digits @ ''.'' @ drop (nat n) digits
               else if -6 < n \<and> n \<le> 0 then ''0.'' @ replicate (nat (- n)) CHR ''0'' @ digits
               else
                 let e = n - 1;
                     e = (if e \<ge> 0 then CHR ''+'' # dec_int e else dec_int e) in
                 if k = 1 then digits @ ''e'' @ e
                 else take 1 digits @ ''.'' @ drop 1 digits @ ''e'' @ e)
        in sign @ body)"

definition EXACT :: nat where
  "EXACT = 2 ^ 53"

definition number_text :: "number \<Rightarrow> string" where
  "number_text n =
     (case (as_i64 n, as_u64 n) of
        (Some i, u) \<Rightarrow>
          if nat \<bar>i\<bar> \<le> EXACT then dec_int i
          else (case u of
                  Some u \<Rightarrow> if u \<le> EXACT then dec u else es_number (as_f64 n)
                | None \<Rightarrow> es_number (as_f64 n))
      | (None, Some u) \<Rightarrow> if u \<le> EXACT then dec u else es_number (as_f64 n)
      | (None, None) \<Rightarrow> es_number (as_f64 n))"

definition sort_entries :: "(string \<times> 'a) list \<Rightarrow> (string \<times> 'a) list" where
  "sort_entries es = sort_key (\<lambda>e. encode_utf16 (fst e)) es"

lemma set_sort_entries [simp]: "set (sort_entries es) = set es"
  by (simp add: sort_entries_def)

function write_value :: "json \<Rightarrow> string" where
  "write_value JNull = ''null''"
| "write_value (JBool b) = (if b then ''true'' else ''false'')"
| "write_value (JNum n) = number_text n"
| "write_value (JStr s) = write_string s"
| "write_value (JArr items) = ''['' @ join '','' (map write_value items) @ '']''"
| "write_value (JObj es) =
     ''{'' @ join '','' (map (\<lambda>e. write_string (fst e) @ '':'' @ write_value (snd e))
       (sort_entries es)) @ ''}''"
  by pat_completeness auto
termination
  by (relation "measure size") (auto simp: termination_simp less_Suc_eq_le
      intro!: trans_le_add2 size_list_estimation')

definition to_canonical_string :: "json \<Rightarrow> string" where
  "to_canonical_string v = write_value v"

section \<open>Unambiguity\<close>

text \<open>
  Two documents have the same content when they differ only in the order of object entries and
  in how equal numbers are held (\<open>1\<close> and \<open>1.0\<close>, say).
\<close>

fun same_content :: "json \<Rightarrow> json \<Rightarrow> bool" where
  "same_content JNull JNull = True"
| "same_content (JBool a) (JBool b) = (a = b)"
| "same_content (JNum m) (JNum n) = (number_text m = number_text n)"
| "same_content (JStr s) (JStr t) = (s = t)"
| "same_content (JArr xs) (JArr ys) =
     (length xs = length ys \<and> list_all (\<lambda>(x, y). same_content x y) (zip xs ys))"
| "same_content (JObj es) (JObj fs) =
     (length es = length fs \<and>
      list_all (\<lambda>e. list_ex (\<lambda>f. fst e = fst f \<and> same_content (snd e) (snd f)) fs) es)"
| "same_content _ _ = False"

text \<open>Strings: the escapes of the characters form a prefix code.\<close>

lemma esc_char_inject: "esc_char c @ u = esc_char d @ v \<Longrightarrow> c = d \<and> u = v"
  using hex2_inject [of c d] by (auto simp: esc_char_def hex2_def split: if_splits)

lemma esc_char_not_quote: "esc_char c @ u \<noteq> CHR 0x22 # v"
  by (auto simp: esc_char_def)

lemma escapes_unambiguous:
  "concat (map esc_char s) @ CHR 0x22 # u = concat (map esc_char t) @ CHR 0x22 # v \<Longrightarrow>
   s = t \<and> u = v"
proof (induction s arbitrary: t)
  case Nil
  then show ?case by (cases t) (auto dest!: sym [of "CHR 0x22 # _"] simp: esc_char_not_quote)
next
  case (Cons c s)
  then obtain d t' where t: "t = d # t'" by (cases t) (auto simp: esc_char_not_quote)
  with Cons.prems esc_char_inject [of c _ d] have "c = d" and
    "concat (map esc_char s) @ CHR 0x22 # u = concat (map esc_char t') @ CHR 0x22 # v"
    by fastforce+
  with Cons.IH t show ?case by simp
qed

lemma write_string_unambiguous:
  "write_string s @ u = write_string t @ v \<Longrightarrow> s = t \<and> u = v"
  using escapes_unambiguous [of s u t v] by (simp add: write_string_def)

text \<open>Numbers: a text of its own characters, ended by the first other one.\<close>

definition num_char :: "char \<Rightarrow> bool" where
  "num_char c \<longleftrightarrow> is_ascii_digit c \<or> c \<in> set ''+-.e''"

lemma num_char_digit [simp]: "d < 10 \<Longrightarrow> num_char (digit d)"
  by (simp add: num_char_def)

lemma num_char_signs [simp]:
  "num_char CHR ''0''" "num_char CHR ''+''" "num_char CHR ''-''" "num_char CHR ''.''" "num_char CHR ''e''"
  by (simp_all add: num_char_def is_ascii_digit_def)

lemma num_char_dec [simp]: "list_all num_char (dec n)" "list_all num_char (dec_int i)"
proof -
  show dec: "list_all num_char (dec n)" for n
    by (auto simp: list_all_iff num_char_def dest: dec_digits)
  show "list_all num_char (dec_int i)" by (simp add: dec_int_def dec)
qed

lemma list_all_take_drop:
  "list_all P xs \<Longrightarrow> list_all P (take n xs)" "list_all P xs \<Longrightarrow> list_all P (drop n xs)"
  by (auto simp: list_all_iff dest: in_set_takeD in_set_dropD)

lemma list_all_replicate: "P x \<Longrightarrow> list_all P (replicate n x)"
  by (simp add: list_all_iff)

lemma num_char_es_number:
  assumes "list_all (\<lambda>d. d < 10) (f_digits f)"
  shows "list_all num_char (es_number f)"
proof -
  from assms have "list_all num_char (map digit (f_digits f))" by (auto simp: list_all_iff)
  then show ?thesis
    by (simp add: es_number_def Let_def list_all_take_drop list_all_replicate)
qed

lemma es_number_nonempty: "wf_f64 f \<Longrightarrow> es_number f \<noteq> []"
  by (auto simp: es_number_def wf_f64_def Let_def)

lemma dec_int_nonempty [simp]: "dec_int i \<noteq> []"
  by (simp add: dec_int_def)

lemma number_text_chars:
  assumes "wf_number n"
  shows "list_all num_char (number_text n) \<and> number_text n \<noteq> []"
proof -
  have "list_all num_char (es_number (as_f64 n)) \<and> es_number (as_f64 n) \<noteq> []"
    using wf_as_f64 [OF assms] num_char_es_number es_number_nonempty by (auto simp: wf_f64_def)
  then show ?thesis by (simp add: number_text_def split: option.splits)
qed

text \<open>What can follow a value in a document: nothing, or a comma or a closing bracket.\<close>

definition delim :: "string \<Rightarrow> bool" where
  "delim u \<longleftrightarrow> u = [] \<or> hd u \<in> {CHR '','', CHR '']'', CHR ''}''}"

lemma delim_Cons [simp]: "delim (c # u) \<longleftrightarrow> c \<in> {CHR '','', CHR '']'', CHR ''}''}"
  by (simp add: delim_def)

lemma delim_not_num: "delim u \<Longrightarrow> takeWhile num_char u = [] \<and> dropWhile num_char u = u"
  by (cases u) (auto simp: num_char_def is_ascii_digit_def)

lemma span_inject:
  assumes "list_all P s" "list_all P t" "takeWhile P u = []" "takeWhile P v = []" "s @ u = t @ v"
  shows "s = t \<and> u = v"
proof -
  have "takeWhile P (s @ u) = s" "takeWhile P (t @ v) = t"
    using assms(1-4) by (simp_all add: list_all_iff takeWhile_append)
  with assms(5) show ?thesis by simp
qed

lemma number_unambiguous:
  assumes "wf_number m" "wf_number n" "delim u" "delim v" "number_text m @ u = number_text n @ v"
  shows "number_text m = number_text n \<and> u = v"
  using span_inject [OF _ _ _ _ assms(5), of num_char] number_text_chars assms delim_not_num by blast

lemma join_Cons: "join sep (x # xs) = x @ (if xs = [] then [] else sep @ join sep xs)"
  by (cases xs) auto

text \<open>A comma-separated sequence is unambiguous when its items are.\<close>

lemma join_unambiguous:
  assumes "\<And>x y u v. x \<in> set xs \<Longrightarrow> y \<in> set ys \<Longrightarrow> delim u \<Longrightarrow> delim v \<Longrightarrow>
      f x @ u = f y @ v \<Longrightarrow> R x y \<and> u = v"
    and "\<And>x. x \<in> set xs \<union> set ys \<Longrightarrow> f x \<noteq> [] \<and> hd (f x) \<noteq> c"
    and "c \<in> {CHR '']'', CHR ''}''}"
    and "join '','' (map f xs) @ c # u = join '','' (map f ys) @ c # v"
  shows "list_all2 R xs ys \<and> u = v"
  using assms
proof (induction xs arbitrary: ys)
  case Nil
  show ?case
  proof (cases ys)
    case (Cons y ys')
    with Nil(2) [of y] Nil(4) show ?thesis by (cases "f y") (auto simp: join_Cons)
  qed (use Nil in simp)
next
  case (Cons x xs)
  obtain y ys' where ys: "ys = y # ys'"
    using Cons.prems(2) [of x] Cons.prems(4) by (cases ys; cases "f x") (auto simp: join_Cons)
  define ru where "ru = (if xs = [] then c # u else CHR '','' # join '','' (map f xs) @ c # u)"
  define rv where "rv = (if ys' = [] then c # v else CHR '','' # join '','' (map f ys') @ c # v)"
  have "f x @ ru = f y @ rv"
    using Cons.prems(4) by (auto simp: ys ru_def rv_def join_Cons split: if_splits)
  moreover have "delim ru" "delim rv" using Cons.prems(3) by (auto simp: ru_def rv_def)
  ultimately have R: "R x y" and r: "ru = rv" using Cons.prems(1) [of x y ru rv] ys by auto
  from r Cons.prems(3) have "xs = [] \<longleftrightarrow> ys' = []"
    and "join '','' (map f xs) @ c # u = join '','' (map f ys') @ c # v"
    by (auto simp: ru_def rv_def split: if_splits)
  then have "list_all2 R xs ys' \<and> u = v"
    by (intro Cons.IH) (use Cons.prems(1-3) ys in auto)
  with R ys show ?case by simp
qed

text \<open>Objects: entries sorted by key are determined by the set of entries.\<close>

lemma map_fst_sort_entries:
  "map fst (sort_entries es) = sort_key encode_utf16 (map fst es)"
proof -
  have "map fst (insort_key (\<lambda>e. encode_utf16 (fst e)) x xs) = insort_key encode_utf16 (fst x) (map fst xs)"
    for x and xs :: "(string \<times> 'a) list" by (induction xs) auto
  then show ?thesis unfolding sort_entries_def by (induction es) (auto simp: sort_key_simps)
qed

lemma sorted_keys_unique:
  assumes "distinct ks" "distinct ls" "set ks = set ls" "list_all is_utf8 ks"
  shows "sort_key encode_utf16 ks = sort_key encode_utf16 ls"
proof -
  have inj: "inj_on encode_utf16 (set ls)"
    using assms(3,4) by (auto simp: inj_on_def list_all_iff encode_utf16_inject)
  let ?ks = "sort_key encode_utf16 ks" and ?ls = "sort_key encode_utf16 ls"
  have "distinct (map encode_utf16 ?ks)" "distinct (map encode_utf16 ?ls)"
    using assms(1-3) inj by (simp_all add: distinct_map)
  then have "map encode_utf16 ?ks = map encode_utf16 ?ls"
    by (intro sorted_distinct_set_unique) (simp_all add: assms(3))
  moreover have "inj_on encode_utf16 (set ?ks \<union> set ?ls)" using inj assms(3) by simp
  ultimately show ?thesis using inj_on_map_eq_map by blast
qed

lemma same_keys:
  assumes "distinct (map fst es)" "distinct (map fst fs)" "length es = length fs"
    "fst ` set es \<subseteq> fst ` set fs"
  shows "fst ` set es = fst ` set fs"
proof (rule card_subset_eq)
  from assms(1-3) show "card (fst ` set es) = card (fst ` set fs)"
    by (metis distinct_card length_map set_map)
qed (use assms(4) in auto)

lemma write_value_first:
  assumes "wf_json v"
  obtains c r where "write_value v = c # r"
    and "case v of JNull \<Rightarrow> c = CHR ''n'' | JBool b \<Rightarrow> c = (if b then CHR ''t'' else CHR ''f'')
      | JNum n \<Rightarrow> num_char c | JStr s \<Rightarrow> c = CHR 0x22 | JArr xs \<Rightarrow> c = CHR ''['' | JObj es \<Rightarrow> c = CHR ''{''"
proof (cases v)
  case (JNum n)
  with assms number_text_chars [of n] obtain c r where "number_text n = c # r" "num_char c"
    by (cases "number_text n") auto
  with JNum that show ?thesis by simp
next
  case (JBool b)
  then show ?thesis using that [of _ "tl (write_value v)"] by (cases b) auto
qed (use that in \<open>auto simp: write_string_def\<close>)

lemma not_num_char [simp]:
  "\<not> num_char CHR ''n''" "\<not> num_char CHR ''t''" "\<not> num_char CHR ''f''" "\<not> num_char CHR 0x22"
  "\<not> num_char CHR ''[''" "\<not> num_char CHR ''{''" "\<not> num_char CHR '']''" "\<not> num_char CHR ''}''"
  by (simp_all add: num_char_def is_ascii_digit_def)

lemma write_value_kind:
  assumes "wf_json a" "wf_json b" "write_value a @ u = write_value b @ v"
  shows "case a of JNull \<Rightarrow> b = JNull | JBool x \<Rightarrow> b = JBool x | JNum n \<Rightarrow> \<exists>m. b = JNum m
      | JStr s \<Rightarrow> \<exists>t. b = JStr t | JArr xs \<Rightarrow> \<exists>ys. b = JArr ys | JObj es \<Rightarrow> \<exists>fs. b = JObj fs"
proof -
  obtain c r where a: "write_value a = c # r" "case a of JNull \<Rightarrow> c = CHR ''n''
      | JBool b \<Rightarrow> c = (if b then CHR ''t'' else CHR ''f'') | JNum n \<Rightarrow> num_char c
      | JStr s \<Rightarrow> c = CHR 0x22 | JArr xs \<Rightarrow> c = CHR ''['' | JObj es \<Rightarrow> c = CHR ''{''"
    using assms(1) by (rule write_value_first)
  obtain d q where b: "write_value b = d # q" "case b of JNull \<Rightarrow> d = CHR ''n''
      | JBool b \<Rightarrow> d = (if b then CHR ''t'' else CHR ''f'') | JNum n \<Rightarrow> num_char d
      | JStr s \<Rightarrow> d = CHR 0x22 | JArr xs \<Rightarrow> d = CHR ''['' | JObj es \<Rightarrow> d = CHR ''{''"
    using assms(2) by (rule write_value_first)
  from a(1) b(1) assms(3) have "c = d" by simp
  with a(2) b(2) show ?thesis by (cases a; cases b) (auto split: if_splits)
qed

lemma write_value_not_close:
  "wf_json v \<Longrightarrow> write_value v \<noteq> [] \<and> hd (write_value v) \<noteq> CHR '']''"
  by (rule write_value_first [of v]) (auto split: json.splits if_splits)

lemma zip_list_all2: "list_all2 R xs ys \<longleftrightarrow> length xs = length ys \<and> list_all (\<lambda>(x, y). R x y) (zip xs ys)"
  by (auto simp: list_all2_iff list_all_iff)

lemma entries_pairwise:
  assumes "list_all2 (\<lambda>e f. fst e = fst f \<and> R (snd e) (snd f)) (sort_entries es) (sort_entries fs)"
  shows "length es = length fs \<and> list_all (\<lambda>e. list_ex (\<lambda>f. fst e = fst f \<and> R (snd e) (snd f)) fs) es"
proof -
  have "\<exists>f \<in> set fs. fst e = fst f \<and> R (snd e) (snd f)" if "e \<in> set es" for e
  proof -
    from that obtain i where i: "i < length (sort_entries es)" "sort_entries es ! i = e"
      by (metis in_set_conv_nth set_sort_entries)
    with list_all2_lengthD [OF assms] have "sort_entries fs ! i \<in> set fs"
      by (metis nth_mem set_sort_entries)
    with list_all2_nthD [OF assms i(1)] i(2) show ?thesis by auto
  qed
  moreover have "length es = length fs"
    using list_all2_lengthD [OF assms] by (simp add: sort_entries_def)
  ultimately show ?thesis by (simp add: list_all_iff list_ex_iff)
qed

lemma write_value_unambiguous:
  "wf_json a \<Longrightarrow> wf_json b \<Longrightarrow> delim u \<Longrightarrow> delim v \<Longrightarrow> write_value a @ u = write_value b @ v \<Longrightarrow>
   same_content a b \<and> u = v"
proof (induction a arbitrary: b u v)
  case JNull
  from write_value_kind [OF JNull.prems(1,2,5)] JNull.prems(5) show ?case by simp
next
  case (JBool x)
  from write_value_kind [OF JBool.prems(1,2,5)] JBool.prems(5) show ?case by simp
next
  case (JNum n)
  from write_value_kind [OF JNum.prems(1,2,5)] obtain m where b: "b = JNum m" by auto
  with JNum.prems number_unambiguous [of n m u v] show ?case by simp
next
  case (JStr s)
  from write_value_kind [OF JStr.prems(1,2,5)] obtain t where b: "b = JStr t" by auto
  with JStr.prems(5) write_string_unambiguous [of s u t v] show ?case by simp
next
  case (JArr xs)
  from write_value_kind [OF JArr.prems(1,2,5)] obtain ys where b: "b = JArr ys" by auto
  have "list_all2 same_content xs ys \<and> u = v"
    by (rule join_unambiguous [of xs ys write_value same_content "CHR '']''"])
      (use JArr b write_value_not_close in \<open>auto simp: list_all_iff\<close>)
  with b show ?case by (simp add: zip_list_all2)
next
  case (JObj es)
  from write_value_kind [OF JObj.prems(1,2,5)] obtain fs where b: "b = JObj fs" by auto
  let ?f = "\<lambda>e. write_string (fst e) @ '':'' @ write_value (snd e)"
  let ?R = "\<lambda>e f. fst e = fst f \<and> same_content (snd e) (snd f)"
  have item: "?R x y \<and> p = q" if "x \<in> set es" "y \<in> set fs" "delim p" "delim q" "?f x @ p = ?f y @ q"
    for x y p q
  proof -
    from that(5) have k: "fst x = fst y" "write_value (snd x) @ p = write_value (snd y) @ q"
      using write_string_unambiguous [of "fst x" _ "fst y"] by fastforce+
    moreover have "wf_json (snd x)" "wf_json (snd y)"
      using JObj.prems(1,2) b that(1,2) by (auto simp: list_all_iff)
    ultimately show ?thesis using JObj.IH [of x "snd x" "snd y" p q] that by (cases x) auto
  qed
  have "list_all2 ?R (sort_entries es) (sort_entries fs) \<and> u = v"
    by (rule join_unambiguous [of _ _ ?f ?R "CHR ''}''"])
      (use item JObj.prems(5) b in \<open>auto simp: write_string_def\<close>)
  with entries_pairwise [of same_content es fs] b show ?case by simp
qed

lemma sorted_entries_match:
  assumes "distinct (map fst es)" "distinct (map fst fs)" "list_all (\<lambda>e. is_utf8 (fst e)) es"
    and len: "length es = length fs"
    and match: "\<And>e. e \<in> set es \<Longrightarrow> \<exists>f \<in> set fs. fst e = fst f \<and> R (snd e) (snd f)"
  shows "list_all2 (\<lambda>e f. fst e = fst f \<and> R (snd e) (snd f)) (sort_entries es) (sort_entries fs)"
proof (rule list_all2_all_nthI)
  have sub: "fst ` set es \<subseteq> fst ` set fs" using match by fastforce
  have keys: "map fst (sort_entries es) = map fst (sort_entries fs)"
    unfolding map_fst_sort_entries
    by (rule sorted_keys_unique)
      (use assms(1-3) same_keys [OF assms(1,2) len sub] in \<open>simp_all add: list.pred_map comp_def\<close>)
  then show len': "length (sort_entries es) = length (sort_entries fs)" by (rule map_eq_imp_length_eq)
  fix i assume i: "i < length (sort_entries es)"
  let ?e = "sort_entries es ! i" and ?f = "sort_entries fs ! i"
  from i keys len' have k: "fst ?e = fst ?f" by (metis nth_map)
  from i have "?e \<in> set es" by (metis nth_mem set_sort_entries)
  then obtain f where f: "f \<in> set fs" "fst ?e = fst f" "R (snd ?e) (snd f)" using match by blast
  have "?f \<in> set fs" using i len' by (metis nth_mem set_sort_entries)
  with f(1,2) k assms(2) have "f = ?f" by (metis eq_key_imp_eq_value prod.collapse)
  with k f show "fst ?e = fst ?f \<and> R (snd ?e) (snd ?f)" by simp
qed

lemma same_content_write_value:
  "wf_json a \<Longrightarrow> wf_json b \<Longrightarrow> same_content a b \<Longrightarrow> write_value a = write_value b"
proof (induction a b rule: same_content.induct)
  case (5 xs ys)
  have "write_value x = write_value y" if z: "(x, y) \<in> set (zip xs ys)" for x y
  proof (rule "5.IH" [OF z refl])
    from z 5(2,3) show "wf_json x" "wf_json y"
      by (auto simp: list_all_iff dest: set_zip_leftD set_zip_rightD)
    from z 5(4) show "same_content x y" by (auto simp: list_all_iff)
  qed
  with 5(4) have "list_all2 (\<lambda>x y. write_value x = write_value y) xs ys"
    unfolding list_all2_iff same_content.simps by blast
  then have "map write_value xs = map write_value ys"
    by (rule list_all2_map_eq)
  then show ?case by (simp only: write_value.simps)
next
  case (6 es fs)
  have "\<exists>f \<in> set fs. fst e = fst f \<and> write_value (snd e) = write_value (snd f)" if e: "e \<in> set es" for e
  proof -
    from e 6(4) obtain f where f: "f \<in> set fs" "fst e = fst f" "same_content (snd e) (snd f)"
      by (auto simp: list_all_iff list_ex_iff)
    moreover from e f(1) 6(2,3) have "wf_json (snd e)" "wf_json (snd f)" by (auto simp: list_all_iff)
    ultimately have "write_value (snd e) = write_value (snd f)" using "6.IH" [OF e f(1)] by simp
    with f show ?thesis by blast
  qed
  with 6(2-4) have "list_all2 (\<lambda>e f. fst e = fst f \<and> write_value (snd e) = write_value (snd f))
      (sort_entries es) (sort_entries fs)"
    by (intro sorted_entries_match) (simp_all add: list_all_iff)
  then have "map (\<lambda>e. write_string (fst e) @ '':'' @ write_value (snd e)) (sort_entries es) =
      map (\<lambda>e. write_string (fst e) @ '':'' @ write_value (snd e)) (sort_entries fs)"
    by (rule list_all2_map_eq) simp
  then show ?case by (simp only: write_value.simps)
qed auto

lemma number_eq_text: "number_eq m n \<Longrightarrow> number_text m = number_text n"
  by (cases m; cases n) (auto simp: number_text_def es_number_def)

lemma json_eq_same_content: "json_eq a b \<Longrightarrow> same_content a b"
proof (induction a b rule: json_eq.induct)
  case (5 xs ys)
  then show ?case by (auto simp: list_all_iff)
next
  case (6 es fs)
  then show ?case by (fastforce simp: list_all_iff list_ex_iff)
qed (auto simp: number_eq_text)

lemma canonical_string_same:
  assumes "wf_json a" "wf_json b"
  shows "to_canonical_string a = to_canonical_string b \<longleftrightarrow> same_content a b"
  using write_value_unambiguous [OF assms, of "[]" "[]"] same_content_write_value [OF assms]
  by (auto simp: to_canonical_string_def delim_def)



end
