(* ===== verification/Model.thy ===== *)
theory Model
  imports Ids Json Btree
begin

text \<open>
  The domain objects shared by the API, the store and the engine
  (\<open>crates/core/src/model.rs\<close>). A \<open>serde_json::Map\<close> is its entries in insertion order, a
  \<open>BTreeMap\<close> its entries in key order.
\<close>

record secret_ref =
  sr_store :: string
  sr_reference :: string
  sr_version :: "string option"

record criterion =
  cr_id :: "string option"
  cr_env_type :: "string option"
  cr_app_id :: "string option"
  cr_env_id :: "string option"
  cr_res_id :: "string option"
  cr_class :: "string option"

record driver_inputs =
  di_values :: json_map
  di_secrets :: json_map
  di_secret_refs :: json_map

record provision =
  pv_is_dependent :: bool
  pv_match_dependents :: bool
  pv_params :: "json option"

record resource_definition =
  rd_id :: string
  rd_name :: string
  rd_ty :: string
  rd_driver_type :: string
  rd_driver_account :: "string option"
  rd_driver_inputs :: driver_inputs
  rd_provision :: "(string, provision) btree_map"
  rd_criteria :: "criterion list"

datatype cloud_account_type = Aws | AwsRole | AwsIdentity

record cloud_account =
  ca_id :: string
  ca_name :: string
  ca_ty :: cloud_account_type
  ca_config :: json_map
  ca_secret_refs :: "(string, secret_ref) btree_map"

record resource_context =
  rc_org :: string
  rc_app :: string
  rc_env :: string
  rc_env_type :: string
  rc_res :: descriptor

text \<open>The \<open>Default\<close> instances.\<close>

definition default_criterion :: criterion where
  "default_criterion = \<lparr>cr_id = None, cr_env_type = None, cr_app_id = None, cr_env_id = None,
     cr_res_id = None, cr_class = None\<rparr>"

definition default_driver_inputs :: driver_inputs where
  "default_driver_inputs = \<lparr>di_values = [], di_secrets = [], di_secret_refs = []\<rparr>"

definition default_provision :: provision where
  "default_provision = \<lparr>pv_is_dependent = False, pv_match_dependents = False, pv_params = None\<rparr>"

end
