(* ===== verification/Criteria.thy ===== *)
theory Criteria
  imports Model
begin

text \<open>
  Matching resource definitions to a resource context (\<open>crates/core/src/criteria.rs\<close>):
  \<open>criterion_weight\<close>, \<open>definition_weight\<close> and the loop of \<open>select_definition\<close>. The lemmas show
  that the weight orders matching criteria by specificity and that the loop finds the heaviest
  definition, or reports exactly the tie there is.
\<close>

section \<open>Weights and selection\<close>

datatype match_error =
    NoMatch resource_context
  | Ambiguous (am_descriptor: string) (am_definitions: "string list") (am_weight: nat)

fun match_error_string :: "match_error \<Rightarrow> string" where
  "match_error_string (NoMatch c) =
     ''no resource definition matches type `'' @ d_ty (rc_res c) @ ''`, class `'' @ d_class (rc_res c) @
     ''`, resource ID `'' @ d_id (rc_res c) @ ''` in app `'' @ rc_app c @ ''`, env `'' @ rc_env c @
     ''` (env type `'' @ rc_env_type c @ ''`)''"
| "match_error_string (Ambiguous d ds w) =
     ''ambiguous match for `'' @ d @ ''`: definitions '' @
     join '' and '' (map (\<lambda>x. ''`'' @ x @ ''`'') ds) @ '' match with equal weight '' @ dec w"

text \<open>One \<open>if let Some(v)\<close> of the source: leaves with \<open>None\<close> when a set field differs.\<close>

definition field_weight :: "string option \<Rightarrow> string \<Rightarrow> nat \<Rightarrow> nat \<Rightarrow> nat option" where
  "field_weight field v n weight =
     (case field of
        None \<Rightarrow> Some weight
      | Some f \<Rightarrow> if f \<noteq> v then None else Some (weight + n))"

definition criterion_weight :: "criterion \<Rightarrow> resource_context \<Rightarrow> nat option" where
  "criterion_weight c ctx =
     Option.bind (field_weight (cr_env_type c) (rc_env_type ctx) 1 0) (\<lambda>w.
     Option.bind (field_weight (cr_app_id c) (rc_app ctx) 2 w) (\<lambda>w.
     Option.bind (field_weight (cr_env_id c) (rc_env ctx) 4 w) (\<lambda>w.
     Option.bind (field_weight (cr_res_id c) (d_id (rc_res ctx)) 8 w) (\<lambda>w.
       case cr_class c of
         Some v \<Rightarrow> if v = d_class (rc_res ctx) then Some (w + 16) else None
       | None \<Rightarrow> if is_default (d_class (rc_res ctx)) then Some w else None))))"

text \<open>\<open>Iterator::max\<close>.\<close>

fun iter_max :: "nat list \<Rightarrow> nat option" where
  "iter_max [] = None"
| "iter_max (x # xs) = Some (fold max xs x)"

definition definition_weight :: "resource_definition \<Rightarrow> resource_context \<Rightarrow> nat option" where
  "definition_weight def ctx =
     (if rd_ty def \<noteq> d_ty (rc_res ctx) then None
      else iter_max (List.map_filter (\<lambda>c. criterion_weight c ctx) (rd_criteria def)))"

fun select_step ::
  "resource_context \<Rightarrow> resource_definition \<Rightarrow> resource_definition list \<times> nat \<Rightarrow>
   resource_definition list \<times> nat" where
  "select_step ctx def (best, best_weight) =
     (case definition_weight def ctx of
        None \<Rightarrow> (best, best_weight)
      | Some w \<Rightarrow>
          if best = [] \<or> w > best_weight then ([def], w)
          else if w = best_weight then (best @ [def], best_weight)
          else (best, best_weight))"

definition select_definition ::
  "resource_definition list \<Rightarrow> resource_context \<Rightarrow> match_error + resource_definition" where
  "select_definition defs ctx =
     (case fold (select_step ctx) defs ([], 0) of
        (best, best_weight) \<Rightarrow>
          (case best of
             [] \<Rightarrow> Err (NoMatch ctx)
           | [d] \<Rightarrow> Ok d
           | _ \<Rightarrow> Err (Ambiguous (descriptor_string (rc_res ctx)) (sort (map rd_id best)) best_weight)))"

section \<open>The weight of a criterion\<close>

definition field_matches :: "string option \<Rightarrow> string \<Rightarrow> bool" where
  "field_matches field v \<longleftrightarrow> field = None \<or> field = Some v"

text \<open>The documented rule: every field that is set equals the context, and a criterion without a
  class is for the class \<open>default\<close> only.\<close>

definition criterion_matches :: "criterion \<Rightarrow> resource_context \<Rightarrow> bool" where
  "criterion_matches c ctx \<longleftrightarrow>
     field_matches (cr_env_type c) (rc_env_type ctx) \<and> field_matches (cr_app_id c) (rc_app ctx) \<and>
     field_matches (cr_env_id c) (rc_env ctx) \<and> field_matches (cr_res_id c) (d_id (rc_res ctx)) \<and>
     (cr_class c = Some (d_class (rc_res ctx)) \<or>
      cr_class c = None \<and> d_class (rc_res ctx) = default_class)"

text \<open>What a criterion sets, most significant first.\<close>

definition specificity :: "criterion \<Rightarrow> bool list" where
  "specificity c = [cr_class c \<noteq> None, cr_res_id c \<noteq> None, cr_env_id c \<noteq> None,
     cr_app_id c \<noteq> None, cr_env_type c \<noteq> None]"

definition weight_sum :: "criterion \<Rightarrow> nat" where
  "weight_sum c = of_bool (cr_env_type c \<noteq> None) + 2 * of_bool (cr_app_id c \<noteq> None) +
     4 * of_bool (cr_env_id c \<noteq> None) + 8 * of_bool (cr_res_id c \<noteq> None) +
     16 * of_bool (cr_class c \<noteq> None)"

lemma field_weight_iff:
  "field_weight f v b w = Some w' \<longleftrightarrow> field_matches f v \<and> w' = w + b * of_bool (f \<noteq> None)"
  by (auto simp: field_weight_def field_matches_def split: option.splits)

lemma criterion_weight_iff:
  "criterion_weight c ctx = Some w \<longleftrightarrow> criterion_matches c ctx \<and> w = weight_sum c"
proof -
  have "is_default (d_class (rc_res ctx)) \<longleftrightarrow> d_class (rc_res ctx) = default_class"
    by (simp add: is_default_def default_class_def)
  then show ?thesis
    by (cases "cr_class c")
      (auto simp: criterion_weight_def bind_eq_Some_conv field_weight_iff criterion_matches_def
        weight_sum_def)
qed

lemma weight_sum_less_iff: "weight_sum c < weight_sum d \<longleftrightarrow> specificity c < specificity d"
  by (simp add: weight_sum_def specificity_def less_bool_def of_bool_def)

lemma weight_sum_bound: "weight_sum c \<le> 31"
  by (simp add: weight_sum_def)

section \<open>The selection loop\<close>

definition weights :: "resource_context \<Rightarrow> resource_definition list \<Rightarrow> nat set" where
  "weights ctx defs = {w. \<exists>d \<in> set defs. definition_weight d ctx = Some w}"

definition heaviest :: "resource_context \<Rightarrow> resource_definition list \<Rightarrow> resource_definition list" where
  "heaviest ctx defs = filter (\<lambda>d. definition_weight d ctx = Some (Max (weights ctx defs))) defs"

lemma iter_max_Max: "iter_max xs = (if xs = [] then None else Some (Max (set xs)))"
  by (cases xs) (simp_all add: Max.set_eq_fold [symmetric])

lemma finite_weights [simp]: "finite (weights ctx defs)"
proof -
  have "weights ctx defs = set (List.map_filter (\<lambda>d. definition_weight d ctx) defs)"
    by (force simp: weights_def List.map_filter_def)
  then show ?thesis by simp
qed

lemma weights_snoc:
  "weights ctx (ds @ [d]) =
     (case definition_weight d ctx of None \<Rightarrow> weights ctx ds | Some w \<Rightarrow> insert w (weights ctx ds))"
  by (auto simp: weights_def split: option.splits)

lemma weight_le_Max:
  "d \<in> set ds \<Longrightarrow> definition_weight d ctx = Some w \<Longrightarrow> w \<le> Max (weights ctx ds)"
  by (rule Max_ge) (simp, auto simp: weights_def)

lemma heaviest_nonempty: "weights ctx ds \<noteq> {} \<Longrightarrow> heaviest ctx ds \<noteq> []"
proof -
  assume "weights ctx ds \<noteq> {}"
  then have "Max (weights ctx ds) \<in> weights ctx ds" by (intro Max_in) simp_all
  then show ?thesis by (simp add: heaviest_def filter_empty_conv) (simp add: weights_def)
qed

lemma heaviest_empty: "weights ctx ds = {} \<Longrightarrow> heaviest ctx ds = []"
  by (auto simp: heaviest_def weights_def filter_empty_conv)

lemma heaviest_heavier:
  assumes "definition_weight d ctx = Some w" "\<And>v. v \<in> weights ctx ds \<Longrightarrow> v < w"
  shows "weights ctx (ds @ [d]) \<noteq> {}" "Max (weights ctx (ds @ [d])) = w" "heaviest ctx (ds @ [d]) = [d]"
proof -
  show M: "Max (weights ctx (ds @ [d])) = w"
    using assms by (auto simp: weights_snoc less_imp_le intro!: Max_eqI)
  have "definition_weight x ctx \<noteq> Some w" if "x \<in> set ds" for x
    using assms(2) that by (auto simp: weights_def)
  then show "heaviest ctx (ds @ [d]) = [d]"
    using assms(1) unfolding heaviest_def M by (auto simp: filter_empty_conv)
qed (simp add: weights_snoc assms)

lemma heaviest_lighter:
  assumes "weights ctx ds \<noteq> {}" "\<forall>w. definition_weight d ctx = Some w \<longrightarrow> w \<le> Max (weights ctx ds)"
  shows "weights ctx (ds @ [d]) \<noteq> {}" "Max (weights ctx (ds @ [d])) = Max (weights ctx ds)"
    "heaviest ctx (ds @ [d]) = heaviest ctx ds @
       (if definition_weight d ctx = Some (Max (weights ctx ds)) then [d] else [])"
proof -
  show M: "Max (weights ctx (ds @ [d])) = Max (weights ctx ds)"
    using assms by (auto simp: weights_snoc max_def split: option.splits)
  show "heaviest ctx (ds @ [d]) = heaviest ctx ds @
       (if definition_weight d ctx = Some (Max (weights ctx ds)) then [d] else [])"
    unfolding heaviest_def M by simp
qed (use assms in \<open>auto simp: weights_snoc split: option.splits\<close>)

text \<open>The loop invariant: \<open>best\<close> holds the heaviest definitions seen so far, in order.\<close>

lemma select_loop:
  "fold (select_step ctx) ds ([], 0) =
     (if weights ctx ds = {} then ([], 0) else (heaviest ctx ds, Max (weights ctx ds)))"
proof (induction ds rule: rev_induct)
  case (snoc d ds)
  show ?case
  proof (cases "definition_weight d ctx")
    case None
    then show ?thesis using snoc.IH heaviest_lighter [of ctx ds d]
      by (cases "weights ctx ds = {}") (auto simp: weights_snoc)
  next
    case (Some w)
    show ?thesis
    proof (cases "\<forall>v \<in> weights ctx ds. v < w")
      case True
      with Some heaviest_heavier [of d ctx w ds] snoc.IH heaviest_nonempty [of ctx ds]
      show ?thesis by (cases "weights ctx ds = {}") auto
    next
      case False
      then obtain v where v: "v \<in> weights ctx ds" "w \<le> v" by (auto simp: not_less)
      then have ne: "weights ctx ds \<noteq> {}" by blast
      have le: "w \<le> Max (weights ctx ds)"
        using Max_ge [OF finite_weights v(1)] v(2) by (rule order_trans [rotated])
      with Some have "\<forall>v. definition_weight d ctx = Some v \<longrightarrow> v \<le> Max (weights ctx ds)" by simp
      note l = heaviest_lighter [OF ne this]
      from Some le ne snoc.IH l heaviest_nonempty [OF ne] show ?thesis
        by (auto simp del: Max_less_iff)
    qed
  qed
qed (simp add: weights_def)

lemma select_definition_cases:
  "select_definition ds ctx =
     (case heaviest ctx ds of
        [] \<Rightarrow> Err (NoMatch ctx)
      | [d] \<Rightarrow> Ok d
      | _ \<Rightarrow> Err (Ambiguous (descriptor_string (rc_res ctx)) (sort (map rd_id (heaviest ctx ds)))
                 (Max (weights ctx ds))))"
  using heaviest_nonempty [of ctx ds] heaviest_empty [of ctx ds]
  by (auto simp: select_definition_def select_loop split: list.splits)

lemma definition_weight_Max:
  "definition_weight def ctx =
     (let W = weight_sum ` {c \<in> set (rd_criteria def). criterion_matches c ctx} in
      if rd_ty def = d_ty (rc_res ctx) \<and> W \<noteq> {} then Some (Max W) else None)"
proof -
  let ?xs = "List.map_filter (\<lambda>c. criterion_weight c ctx) (rd_criteria def)"
  have "criterion_weight c ctx = (if criterion_matches c ctx then Some (weight_sum c) else None)" for c
    using criterion_weight_iff [of c ctx] by (cases "criterion_weight c ctx") auto
  then have W: "set ?xs = weight_sum ` {c \<in> set (rd_criteria def). criterion_matches c ctx}"
    by (force simp: List.map_filter_def)
  then have "?xs = [] \<longleftrightarrow> weight_sum ` {c \<in> set (rd_criteria def). criterion_matches c ctx} = {}"
    by (metis set_empty)
  with W show ?thesis by (simp add: definition_weight_def iter_max_Max Let_def)
qed

text \<open>
  C31: Weights order definitions by specificity. A definition has a weight exactly when its type
  fits and one of its criteria matches, and the weight is that of its heaviest matching criterion;
  of two criteria the heavier is the one whose set fields come first in the order class, resource
  ID, environment, application, environment type.
\<close>

theorem definition_weight_specificity:
  "definition_weight def ctx =
     (let W = weight_sum ` {c \<in> set (rd_criteria def). criterion_matches c ctx} in
      if rd_ty def = d_ty (rc_res ctx) \<and> W \<noteq> {} then Some (Max W) else None)
   \<and> (weight_sum c < weight_sum d \<longleftrightarrow> specificity c < specificity d) \<and> weight_sum c < 2 ^ 5"
  by (intro conjI definition_weight_Max weight_sum_less_iff le_less_trans [OF weight_sum_bound]) simp

text \<open>
  C6: The selection loop returns a definition exactly when it is the only one of greatest weight.
  It reports \<open>NoMatch\<close> exactly when no definition matches, and otherwise names, sorted, exactly
  the definitions that tie for the greatest weight.
\<close>

theorem select_definition_correct:
  "(select_definition defs ctx = Ok d \<longleftrightarrow> heaviest ctx defs = [d]) \<and>
   (select_definition defs ctx = Err (NoMatch ctx') \<longleftrightarrow> ctx' = ctx \<and> weights ctx defs = {}) \<and>
   (select_definition defs ctx = Err (Ambiguous r ids w) \<longleftrightarrow>
     length (heaviest ctx defs) \<ge> 2 \<and> r = descriptor_string (rc_res ctx) \<and>
     ids = sort (map rd_id (heaviest ctx defs)) \<and> w = Max (weights ctx defs))"
  using heaviest_nonempty [of ctx defs] heaviest_empty [of ctx defs]
  by (auto simp: select_definition_cases split: list.splits)

lemma mset_shape:
  assumes "mset xs = mset ys"
  shows "(case xs of [] \<Rightarrow> a | [x] \<Rightarrow> f x | _ \<Rightarrow> b) = (case ys of [] \<Rightarrow> a | [x] \<Rightarrow> f x | _ \<Rightarrow> b)"
proof -
  have len: "length xs = length ys" using assms by (rule mset_eq_length)
  consider "xs = []" | x where "xs = [x]" | x y zs where "xs = x # y # zs"
    by (cases xs rule: remdups_adj.cases) auto
  then show ?thesis
  proof cases
    case (3 x y zs)
    with len obtain u v ws where "ys = u # v # ws"
      by (metis length_Cons Suc_length_conv)
    with 3 show ?thesis by simp
  qed (use assms in simp_all)
qed

text \<open>
  C32: The order in which the definitions are listed does not matter to the selection.
\<close>

theorem select_definition_order:
  assumes "mset defs = mset defs'"
  shows "select_definition defs ctx = select_definition defs' ctx"
proof -
  from assms have set: "set defs = set defs'" by (rule mset_eq_setD)
  then have W: "weights ctx defs = weights ctx defs'" by (simp add: weights_def)
  with assms have H: "mset (heaviest ctx defs) = mset (heaviest ctx defs')"
    by (simp add: heaviest_def)
  then have ids: "sort (map rd_id (heaviest ctx defs)) = sort (map rd_id (heaviest ctx defs'))"
    by (intro properties_for_sort) simp_all
  show ?thesis unfolding select_definition_cases W ids by (rule mset_shape [OF H])
qed

definition sample_definition :: "string \<Rightarrow> criterion list \<Rightarrow> resource_definition" where
  "sample_definition name cs = \<lparr>rd_id = name, rd_name = name, rd_ty = ''dns'',
     rd_driver_type = ''openporch/echo'', rd_driver_account = None,
     rd_driver_inputs = default_driver_inputs, rd_provision = [], rd_criteria = cs\<rparr>"

definition sample_context :: resource_context where
  "sample_context = \<lparr>rc_org = ''acme'', rc_app = ''shop'', rc_env = ''dev'',
     rc_env_type = ''development'', rc_res = Descriptor ''dns'' ''default'' ''shared.dns''\<rparr>"

theorem select_definition_order_witness:
  "select_definition
     [sample_definition ''b'' [default_criterion],
      sample_definition ''a'' [default_criterion\<lparr>cr_app_id := Some ''shop''\<rparr>]] sample_context =
   Ok (sample_definition ''a'' [default_criterion\<lparr>cr_app_id := Some ''shop''\<rparr>])"
proof -
  have "select_definition
     [sample_definition ''b'' [default_criterion],
      sample_definition ''a'' [default_criterion\<lparr>cr_app_id := Some ''shop''\<rparr>]] sample_context =
    select_definition
     [sample_definition ''a'' [default_criterion\<lparr>cr_app_id := Some ''shop''\<rparr>],
      sample_definition ''b'' [default_criterion]] sample_context"
    by (rule select_definition_order) simp
  also have "\<dots> = Ok (sample_definition ''a'' [default_criterion\<lparr>cr_app_id := Some ''shop''\<rparr>])"
    by (simp add: select_definition_def definition_weight_def criterion_weight_def field_weight_def
        List.map_filter_def sample_definition_def sample_context_def default_criterion_def
        is_default_def)
  finally show ?thesis .
qed

end
