(* ===== verification/Template.thy ===== *)
theory Template
  imports Model
begin

text \<open>
  Placeholder syntax (\<open>crates/core/src/placeholder.rs\<close>, first half): strings with \<open>${...}\<close> as
  templates, paths as segments, references to resources, and their interpretation in the dialect
  of a location. Bytes are scanned where the source compares with ASCII characters only; the path
  parser works on characters, each held as its UTF-8 bytes.
\<close>

section \<open>Errors, segments and templates\<close>

datatype placeholder_error_kind =
    Syntax string
  | UnknownRoot string
  | NotAllowed string
  | Unresolvable string
  | SecretInNonSecret

record placeholder_error =
  pe_placeholder :: string
  pe_location :: string
  pe_kind :: placeholder_error_kind

fun placeholder_error_kind_string :: "placeholder_error_kind \<Rightarrow> string" where
  "placeholder_error_kind_string (Syntax m) = ''invalid placeholder syntax: '' @ m"
| "placeholder_error_kind_string (UnknownRoot r) = ''unknown placeholder root `'' @ r @ ''`''"
| "placeholder_error_kind_string (NotAllowed m) = ''placeholder not allowed here: '' @ m"
| "placeholder_error_kind_string (Unresolvable m) = ''cannot resolve placeholder: '' @ m"
| "placeholder_error_kind_string SecretInNonSecret = ''a secret cannot be used in a non-secret input''"

definition placeholder_error_string :: "placeholder_error \<Rightarrow> string" where
  "placeholder_error_string e =
     placeholder_error_kind_string (pe_kind e) @ '' in `'' @ pe_placeholder e @ ''` at '' @ pe_location e"

datatype segment = SName string | SQuoted string | SIndex nat

fun segment_key :: "segment \<Rightarrow> string option" where
  "segment_key (SName s) = Some s"
| "segment_key (SQuoted s) = Some s"
| "segment_key (SIndex _) = None"

fun segment_string :: "segment \<Rightarrow> string" where
  "segment_string (SName s) = ''.'' @ s"
| "segment_string (SQuoted s) = ''['' @ [CHR 0x27] @ s @ [CHR 0x27] @ '']''"
| "segment_string (SIndex i) = ''['' @ dec i @ '']''"

record raw_placeholder =
  rp_text :: string
  rp_segments :: "segment list"

definition rp_root :: "raw_placeholder \<Rightarrow> string" where
  "rp_root p =
     (case rp_segments p of
        [] \<Rightarrow> []
      | s # _ \<Rightarrow> (case segment_key s of None \<Rightarrow> [] | Some k \<Rightarrow> k))"

datatype part = Literal string | Placeholder raw_placeholder

section \<open>Parsing\<close>

text \<open>The loop of \<open>find_placeholder_end\<close>; the index counts bytes.\<close>

fun find_end :: "char option \<Rightarrow> nat \<Rightarrow> string \<Rightarrow> nat option" where
  "find_end quote i [] = None"
| "find_end quote i (c # cs) =
     (case quote of
        Some q \<Rightarrow> find_end (if c = q then None else quote) (Suc i) cs
      | None \<Rightarrow>
          if c = CHR 0x27 \<or> c = CHR 0x22 then find_end (Some c) (Suc i) cs
          else if c = CHR ''}'' then Some i
          else find_end None (Suc i) cs)"

definition find_placeholder_end :: "string \<Rightarrow> nat option" where
  "find_placeholder_end s = find_end None 0 s"

definition is_name_char :: "string \<Rightarrow> bool" where
  "is_name_char c \<longleftrightarrow>
     c \<notin> {''.'', ''['', '']'', [CHR 0x27], [CHR 0x22]} \<and> \<not> is_whitespace c"

definition unquote :: "char \<Rightarrow> string \<Rightarrow> string option" where
  "unquote q s = Option.bind (strip_prefix [q] s) (strip_suffix [q])"

definition bracket_segment :: "string \<Rightarrow> placeholder_error_kind + segment" where
  "bracket_segment inner =
     (case unquote (CHR 0x27) inner of
        Some q \<Rightarrow> Ok (SQuoted q)
      | None \<Rightarrow>
          (case unquote (CHR 0x22) inner of
             Some q \<Rightarrow> Ok (SQuoted q)
           | None \<Rightarrow>
               (case parse_usize inner of
                  Some i \<Rightarrow> Ok (SIndex i)
                | None \<Rightarrow> Err (Syntax ''brackets hold a quoted string or a non-negative index''))))"

text \<open>The loop of \<open>parse_path\<close>: the characters from index \<open>i\<close> on, and the segments so far.\<close>

function path_loop :: "string list \<Rightarrow> segment list \<Rightarrow> placeholder_error_kind + segment list" where
  "path_loop [] segments = Ok segments"
| "path_loop (c # cs) segments =
     (if c = ''['' then
        (let inner = takeWhile (\<lambda>x. x \<noteq> '']'') cs; rest = dropWhile (\<lambda>x. x \<noteq> '']'') cs in
         if rest = [] then Err (Syntax ''unterminated `[`'')
         else rbind (bracket_segment (concat inner)) (\<lambda>seg. path_loop (tl rest) (segments @ [seg])))
      else if c = ''.'' \<and> segments \<noteq> [] then
        (let name = takeWhile is_name_char cs in
         if name = [] then Err (Syntax ''empty path segment'')
         else path_loop (dropWhile is_name_char cs) (segments @ [SName (concat name)]))
      else if segments = [] \<and> is_name_char c then
        path_loop (dropWhile is_name_char cs)
          (segments @ [SName (concat (c # takeWhile is_name_char cs))])
      else Err (Syntax (''unexpected `'' @ c @ ''`'')))"
  by pat_completeness auto
termination
  by (relation "measure (\<lambda>(cs, _). length cs)")
    (auto simp: less_Suc_eq_le length_dropWhile_le intro: le_trans [OF diff_le_self])

definition parse_path :: "string \<Rightarrow> placeholder_error_kind + segment list" where
  "parse_path body =
     (let chars = utf8_chars body in
      if chars = [] then Err (Syntax ''empty placeholder'') else path_loop chars [])"

definition push_part :: "string \<Rightarrow> part list \<Rightarrow> part list" where
  "push_part lit parts = (if lit \<noteq> [] then parts @ [Literal lit] else parts)"

text \<open>The loop of \<open>Template::parse\<close>: the rest of the string, the pending literal, the parts.\<close>

function template_loop ::
  "string \<Rightarrow> string \<Rightarrow> part list \<Rightarrow> placeholder_error_kind + part list" where
  "template_loop rest lit parts =
     (case split_once (CHR ''$'') rest of
        None \<Rightarrow> Ok (push_part (lit @ rest) parts)
      | Some (pre, tail) \<Rightarrow>
          let lit = lit @ pre in
          case strip_prefix [CHR 0x5C, CHR ''{''] tail of
            Some tl' \<Rightarrow> template_loop tl' (lit @ ''${'') parts
          | None \<Rightarrow>
              (case strip_prefix ''{'' tail of
                 Some tl' \<Rightarrow>
                   (case find_placeholder_end tl' of
                      None \<Rightarrow> Err (Syntax ''unterminated `${`'')
                    | Some end \<Rightarrow>
                        let body = take end tl' in
                        rbind (parse_path body) (\<lambda>segments.
                          template_loop (drop (end + 1) tl') []
                            (push_part lit parts @
                             [Placeholder \<lparr>rp_text = ''${'' @ body @ ''}'', rp_segments = segments\<rparr>])))
               | None \<Rightarrow> template_loop tail (lit @ ''$'') parts))"
  by pat_completeness auto
termination
  by (relation "measure (\<lambda>(rest, _). length rest)")
    (auto simp: split_once_Some)

declare template_loop.simps [simp del]

definition Template_parse :: "string \<Rightarrow> placeholder_error_kind + part list" where
  "Template_parse s = template_loop s [] []"

definition Template_is_literal :: "part list \<Rightarrow> bool" where
  "Template_is_literal parts \<longleftrightarrow> list_all (\<lambda>p. case p of Literal _ \<Rightarrow> True | Placeholder _ \<Rightarrow> False) parts"

definition Template_placeholders :: "part list \<Rightarrow> raw_placeholder list" where
  "Template_placeholders parts =
     List.map_filter (\<lambda>p. case p of Placeholder r \<Rightarrow> Some r | Literal _ \<Rightarrow> None) parts"

definition Template_whole :: "part list \<Rightarrow> raw_placeholder option" where
  "Template_whole parts = (case parts of [Placeholder p] \<Rightarrow> Some p | _ \<Rightarrow> None)"

section \<open>Context keys and resource references\<close>

datatype context_key =
    CK_OrgId | CK_AppId | CK_EnvId | CK_EnvType | CK_ResId | CK_ResClass | CK_ResType
  | CK_ResGuresid | CK_DeployId | CK_DeploySetId

definition context_keys :: "context_key list" where
  "context_keys = [CK_OrgId, CK_AppId, CK_EnvId, CK_EnvType, CK_ResId, CK_ResClass, CK_ResType,
     CK_ResGuresid, CK_DeployId, CK_DeploySetId]"

fun context_path :: "context_key \<Rightarrow> string" where
  "context_path CK_OrgId = ''org.id''"
| "context_path CK_AppId = ''app.id''"
| "context_path CK_EnvId = ''env.id''"
| "context_path CK_EnvType = ''env.type''"
| "context_path CK_ResId = ''res.id''"
| "context_path CK_ResClass = ''res.class''"
| "context_path CK_ResType = ''res.type''"
| "context_path CK_ResGuresid = ''res.guresid''"
| "context_path CK_DeployId = ''deploy.id''"
| "context_path CK_DeploySetId = ''deploy.set.id''"

datatype resource_ref =
  ResourceRef (rr_ty: string) (rr_class: "string option") (rr_id: "string option")

text \<open>An optional part after a separator: \<open>s.split_once(c)\<close> with a check of the second half.\<close>

definition opt_part ::
  "char \<Rightarrow> (string \<Rightarrow> id_error + string) \<Rightarrow> string \<Rightarrow> id_error + (string \<times> string option)" where
  "opt_part c check s =
     (case split_once c s of
        Some (h, x) \<Rightarrow> rbind (check x) (\<lambda>x. Ok (h, Some x))
      | None \<Rightarrow> Ok (s, None))"

definition ResourceRef_parse :: "string \<Rightarrow> id_error + resource_ref" where
  "ResourceRef_parse s =
     rbind (opt_part (CHR ''#'') ResId_new s) (\<lambda>(head, rid).
     rbind (opt_part (CHR ''.'') ClassId_new head) (\<lambda>(ty, class).
     rbind (ResourceTypeId_new ty) (\<lambda>ty. Ok (ResourceRef ty class rid))))"

text \<open>The \<open>expect\<close> of the source is the \<open>projr\<close>; \<open>resolve_wf\<close> of \<open>Template_Correct\<close> shows that it holds.\<close>

definition ResourceRef_resolve :: "resource_ref \<Rightarrow> descriptor \<Rightarrow> bool \<Rightarrow> descriptor" where
  "ResourceRef_resolve r referrer implicit =
     (let (class, rid) =
        (if implicit then
           (case_option default_class id (rr_class r),
            case_option (projr (ResId_new (replace_str ''/'' ''-'' (rr_ty r)))) id (rr_id r))
         else
           (case_option (d_class referrer) id (rr_class r),
            case_option (d_id referrer) id (rr_id r)))
      in Descriptor (rr_ty r) class rid)"

definition resource_ref_string :: "resource_ref \<Rightarrow> string" where
  "resource_ref_string r =
     rr_ty r @ case_option [] (\<lambda>c. CHR ''.'' # c) (rr_class r) @ case_option [] (\<lambda>i. CHR ''#'' # i) (rr_id r)"

section \<open>Interpretation\<close>

datatype resource_field = FOutputs "segment list" | FGuresid | FAccount

datatype expr =
    EContext context_key
  | EResource (e_target: resource_ref) (e_field: resource_field)
  | EExternals string "segment list"
  | EShared string "segment list"
  | EValues string "segment list"
  | EPod "string list"

datatype dialect = DDefinition | DDriverAccount | DSet

fun segment_name :: "segment \<Rightarrow> string option" where
  "segment_name (SName n) = Some n"
| "segment_name _ = None"

fun names :: "segment list \<Rightarrow> string list option" where
  "names [] = Some []"
| "names (s # segs) =
     Option.bind (segment_name s) (\<lambda>n. map_option (\<lambda>ns. n # ns) (names segs))"

definition ref_expected :: string where
  "ref_expected = ''expected `resources.<type>[.<class>][#<id>].outputs.<name>`''"

fun is_field :: "segment \<Rightarrow> bool" where
  "is_field (SName n) = (n = ''outputs'' \<or> n = ''guresid'' \<or> n = ''account'')"
| "is_field _ = False"

text \<open>The reference as text, and the segments after it.\<close>

definition ref_text :: "segment list \<Rightarrow> placeholder_error_kind + (string \<times> segment list)" where
  "ref_text segs =
     (case segs of
        SQuoted q # rest \<Rightarrow> Ok (q, rest)
      | SName _ # _ \<Rightarrow>
          let front = takeWhile (\<lambda>s. \<not> is_field s) segs;
              rest = dropWhile (\<lambda>s. \<not> is_field s) segs in
          if rest = [] then Err (Syntax ref_expected)
          else rbind (ok_or (Syntax ref_expected) (names front)) (\<lambda>parts.
            if parts = [] \<or> (\<not> list_ex (contains_str ''#'') parts \<and> length parts > 2)
            then Err (Syntax ref_expected)
            else Ok (join ''.'' parts, rest))
      | _ \<Rightarrow> Err (Syntax ref_expected))"

definition ref_field :: "segment list \<Rightarrow> placeholder_error_kind + resource_field" where
  "ref_field rest =
     (case rest of
        SName n # path \<Rightarrow>
          if n = ''outputs'' \<and> path \<noteq> [] then Ok (FOutputs path)
          else if path = [] \<and> n = ''guresid'' then Ok FGuresid
          else if path = [] \<and> n = ''account'' then Ok FAccount
          else Err (Syntax ref_expected)
      | _ \<Rightarrow> Err (Syntax ref_expected))"

definition parse_resource_ref ::
  "segment list \<Rightarrow> placeholder_error_kind + (resource_ref \<times> resource_field)" where
  "parse_resource_ref segs =
     rbind (ref_text segs) (\<lambda>(text, rest).
     rbind (map_err (\<lambda>e. Syntax (id_error_string e)) (ResourceRef_parse text)) (\<lambda>target.
     rbind (ref_field rest) (\<lambda>field. Ok (target, field))))"

text \<open>\<open>segs.get(1).and_then(Segment::key)\<close>.\<close>

definition second_key :: "segment list \<Rightarrow> string option" where
  "second_key segs = (case segs of _ # s # _ \<Rightarrow> segment_key s | _ \<Rightarrow> None)"

definition Expr_interpret :: "raw_placeholder \<Rightarrow> dialect \<Rightarrow> placeholder_error_kind + expr" where
  "Expr_interpret raw dialect =
     (let segs = rp_segments raw;
          root = rp_root raw;
          defn = (dialect = DDefinition \<or> dialect = DDriverAccount) in
      if root = ''context'' \<and> defn then
        rbind (ok_or (Syntax ''context paths are names'') (names (tl segs))) (\<lambda>path.
          case find (\<lambda>k. context_path k = join ''.'' path) context_keys of
            Some k \<Rightarrow> Ok (EContext k)
          | None \<Rightarrow> Err (Unresolvable (''unknown context value `context.'' @ join ''.'' path @ ''`'')))
      else if root = ''context'' then
        Err (NotAllowed (''workloads cannot use `context` placeholders; '' @
          ''use `values` for environment configuration''))
      else if root = ''resources'' \<and> defn then
        rbind (parse_resource_ref (tl segs)) (\<lambda>(target, field).
          if field = FAccount \<and> dialect \<noteq> DDriverAccount
          then Err (NotAllowed ''`.account` is only allowed in `driver_account`'')
          else Ok (EResource target field))
      else if (root = ''externals'' \<or> root = ''shared'') \<and> dialect = DSet then
        (let expected = Syntax (''expected `'' @ root @ ''.<id>.<output>`'') in
         rbind (ok_or expected (second_key segs)) (\<lambda>key.
           let path = drop 2 segs in
           if path = [] then Err expected
           else Ok (if root = ''externals'' then EExternals key path else EShared key path)))
      else if root = ''values'' \<and> dialect = DSet then
        rbind (ok_or (Syntax ''expected `values.<key>`'') (second_key segs)) (\<lambda>key.
          Ok (EValues key (drop 2 segs)))
      else if root = ''pod'' \<and> dialect = DSet then
        rbind (ok_or (Syntax ''pod paths are names'') (names (tl segs))) (\<lambda>path.
          if path = [] then Err (Syntax ''expected `pod.<path>`'') else Ok (EPod path))
      else Err (UnknownRoot root))"

end
