(* ===== verification/Placeholder.thy ===== *)
theory Placeholder
  imports Template
begin

text \<open>
  Placeholder resolution (\<open>crates/core/src/placeholder.rs\<close>, second half): values with
  placeholders resolved against a scope into a plain or a secret sink, and the in-memory scope.
  The trait \<open>Scope\<close> is the argument \<open>lookup\<close>; \<open>MapScope_lookup\<close> is the program's instance of it.
  \<open>json_text\<close> is \<open>serde_json\<close>'s text of a value, an argument as well. The lemmas show that secrets
  never reach a plain sink and that a resolved value refers to exactly the secrets looked up.
\<close>

section \<open>Secret expressions and resolved values\<close>

datatype secret_part = SP_Literal string | SP_Secret secret_ref

type_synonym secret_expr = "secret_part list"

definition SecretExpr_whole :: "secret_ref \<Rightarrow> secret_expr" where
  "SecretExpr_whole r = [SP_Secret r]"

definition SecretExpr_references :: "secret_expr \<Rightarrow> secret_ref list" where
  "SecretExpr_references parts =
     List.map_filter (\<lambda>p. case p of SP_Secret r \<Rightarrow> Some r | SP_Literal _ \<Rightarrow> None) parts"

definition SecretExpr_render :: "secret_expr \<Rightarrow> (secret_ref \<Rightarrow> 'e + string) \<Rightarrow> 'e + string" where
  "SecretExpr_render parts read =
     try_fold (\<lambda>p out. case p of
         SP_Literal s \<Rightarrow> Ok (out @ s)
       | SP_Secret r \<Rightarrow> rbind (read r) (\<lambda>s. Ok (out @ s))) parts []"

definition push_literal :: "string \<Rightarrow> secret_expr \<Rightarrow> secret_expr" where
  "push_literal s parts =
     (case rev parts of
        SP_Literal l # front \<Rightarrow> rev front @ [SP_Literal (l @ s)]
      | _ \<Rightarrow> if s \<noteq> [] then parts @ [SP_Literal s] else parts)"

datatype resolved =
    RValue json
  | RSecret secret_expr
  | RArray "resolved list"
  | RObject "(string \<times> resolved) list"

fun is_tainted :: "resolved \<Rightarrow> bool" where
  "is_tainted (RValue _) = False"
| "is_tainted _ = True"

fun as_plain :: "resolved \<Rightarrow> json option" where
  "as_plain (RValue v) = Some v"
| "as_plain _ = None"

text \<open>\<open>collect\<close> into a \<open>serde_json::Map\<close>.\<close>

definition obj_of :: "(string \<times> json) list \<Rightarrow> json_map" where
  "obj_of es = fold (\<lambda>(k, v). obj_insert k v) es []"

text \<open>The constructors are called on lists whose items are all untainted, where
  \<open>into_value_unchecked\<close> does not reach its \<open>unreachable!\<close>.\<close>

fun into_value_unchecked :: "resolved \<Rightarrow> json" where
  "into_value_unchecked (RValue v) = v"

definition Resolved_array :: "resolved list \<Rightarrow> resolved" where
  "Resolved_array items =
     (if list_all (\<lambda>r. \<not> is_tainted r) items then RValue (JArr (map into_value_unchecked items))
      else RArray items)"

definition Resolved_object :: "(string \<times> resolved) list \<Rightarrow> resolved" where
  "Resolved_object items =
     (if list_all (\<lambda>(_, r). \<not> is_tainted r) items
      then RValue (JObj (obj_of (map (\<lambda>(k, r). (k, into_value_unchecked r)) items)))
      else RObject items)"

section \<open>Resolution\<close>

datatype lookup = LValue json | LSecret secret_ref

datatype sink = Plain | SecretSink

type_synonym scope = "expr \<Rightarrow> string + lookup"

definition placeholder_err ::
  "string \<Rightarrow> string \<Rightarrow> placeholder_error_kind \<Rightarrow> placeholder_error" where
  "placeholder_err location placeholder kind =
     \<lparr>pe_placeholder = placeholder, pe_location = location, pe_kind = kind\<rparr>"

definition resolve_placeholder ::
  "dialect \<Rightarrow> scope \<Rightarrow> sink \<Rightarrow> string \<Rightarrow> raw_placeholder \<Rightarrow> placeholder_error + lookup" where
  "resolve_placeholder dialect lookup sink location p =
     rbind (map_err (placeholder_err location (rp_text p)) (Expr_interpret p dialect)) (\<lambda>expr.
     rbind (map_err (\<lambda>reason. placeholder_err location (rp_text p) (Unresolvable reason)) (lookup expr))
       (\<lambda>found.
          if (case found of LSecret _ \<Rightarrow> True | LValue _ \<Rightarrow> False) \<and> sink = Plain
          then Err (placeholder_err location (rp_text p) SecretInNonSecret)
          else Ok found))"

text \<open>The second loop of \<open>resolve_string\<close>: literals, and one lookup per placeholder.\<close>

fun fill_parts :: "(json \<Rightarrow> string) \<Rightarrow> part list \<Rightarrow> lookup list \<Rightarrow> secret_expr \<Rightarrow> secret_expr" where
  "fill_parts json_text [] lookups parts = parts"
| "fill_parts json_text (Literal l # ps) lookups parts =
     fill_parts json_text ps lookups (push_literal l parts)"
| "fill_parts json_text (Placeholder _ # ps) lookups parts =
     fill_parts json_text ps (tl lookups)
       (case hd lookups of
          LValue (JStr v) \<Rightarrow> push_literal v parts
        | LValue v \<Rightarrow> push_literal (json_text v) parts
        | LSecret r \<Rightarrow> parts @ [SP_Secret r])"

text \<open>What \<open>resolve_string\<close> builds once every placeholder is looked up.\<close>

definition resolved_string :: "(json \<Rightarrow> string) \<Rightarrow> part list \<Rightarrow> lookup list \<Rightarrow> resolved" where
  "resolved_string json_text template lookups =
     (if Template_whole template \<noteq> None then
        (case last lookups of
           LValue v \<Rightarrow> RValue v
         | LSecret r \<Rightarrow> RSecret (SecretExpr_whole r))
      else
        let expr = fill_parts json_text template lookups [] in
        if SecretExpr_references expr \<noteq> [] then RSecret expr
        else RValue (JStr (projr (SecretExpr_render expr (\<lambda>_. (Ok [] :: unit + string))))))"

definition resolve_string ::
  "(json \<Rightarrow> string) \<Rightarrow> string \<Rightarrow> dialect \<Rightarrow> scope \<Rightarrow> sink \<Rightarrow> string \<Rightarrow> placeholder_error + resolved" where
  "resolve_string json_text s dialect lookup sink location =
     rbind (map_err (placeholder_err location s) (Template_parse s)) (\<lambda>template.
     rbind (try_map (resolve_placeholder dialect lookup sink location) (Template_placeholders template))
       (\<lambda>lookups. Ok (resolved_string json_text template lookups)))"

definition index_location :: "string \<Rightarrow> nat \<Rightarrow> string" where
  "index_location location i = location @ ''['' @ dec i @ '']''"

definition key_location :: "string \<Rightarrow> string \<Rightarrow> string" where
  "key_location location k = location @ ''.'' @ k"

lemma size_enumerate [termination_simp]:
  "(i, x) \<in> set (enumerate n xs) \<Longrightarrow> size x < Suc (size_list size xs)"
  using size_list_estimation' [of x xs "size x" size] by (auto simp: in_set_enumerate_eq)

fun resolve_value ::
  "(json \<Rightarrow> string) \<Rightarrow> json \<Rightarrow> dialect \<Rightarrow> scope \<Rightarrow> sink \<Rightarrow> string \<Rightarrow> placeholder_error + resolved" where
  "resolve_value json_text (JStr s) dialect lookup sink location =
     resolve_string json_text s dialect lookup sink location"
| "resolve_value json_text (JArr items) dialect lookup sink location =
     rbind (try_map (\<lambda>(i, item). resolve_value json_text item dialect lookup sink (index_location location i))
       (enumerate 0 items)) (\<lambda>out. Ok (Resolved_array out))"
| "resolve_value json_text (JObj es) dialect lookup sink location =
     rbind (try_map (\<lambda>(k, v).
         rbind (resolve_value json_text v dialect lookup sink (key_location location k)) (\<lambda>r. Ok (k, r))) es)
       (\<lambda>out. Ok (Resolved_object out))"
| "resolve_value json_text other dialect lookup sink location = Ok (RValue other)"

definition collect_string ::
  "string \<Rightarrow> dialect \<Rightarrow> string \<Rightarrow> (string \<times> raw_placeholder \<times> expr) list \<Rightarrow>
   placeholder_error + (string \<times> raw_placeholder \<times> expr) list" where
  "collect_string s dialect location out =
     rbind (map_err (placeholder_err location s) (Template_parse s)) (\<lambda>t.
       try_fold (\<lambda>p out.
           rbind (map_err (placeholder_err location (rp_text p)) (Expr_interpret p dialect)) (\<lambda>e.
             Ok (out @ [(location, p, e)])))
         (Template_placeholders t) out)"

fun collect_into ::
  "json \<Rightarrow> dialect \<Rightarrow> string \<Rightarrow> (string \<times> raw_placeholder \<times> expr) list \<Rightarrow>
   placeholder_error + (string \<times> raw_placeholder \<times> expr) list" where
  "collect_into (JStr s) dialect location out = collect_string s dialect location out"
| "collect_into (JArr items) dialect location out =
     try_fold (\<lambda>(i, item) out. collect_into item dialect (index_location location i) out)
       (enumerate 0 items) out"
| "collect_into (JObj es) dialect location out =
     try_fold (\<lambda>(k, v) out. collect_into v dialect (key_location location k) out) es out"
| "collect_into _ dialect location out = Ok out"

definition collect_placeholders ::
  "json \<Rightarrow> dialect \<Rightarrow> string \<Rightarrow> placeholder_error + (string \<times> raw_placeholder \<times> expr) list" where
  "collect_placeholders v dialect location = collect_into v dialect location []"

section \<open>The in-memory scope\<close>

record resource_outputs =
  ro_values :: json_map
  ro_secrets :: "(string, secret_ref) btree_map"
  ro_guresid :: "string option"
  ro_account :: "string option"

definition default_outputs :: resource_outputs where
  "default_outputs = \<lparr>ro_values = [], ro_secrets = [], ro_guresid = None, ro_account = None\<rparr>"

fun walk_step :: "segment \<Rightarrow> json \<Rightarrow> json option" where
  "walk_step (SIndex i) (JArr a) = (if i < length a then Some (a ! i) else None)"
| "walk_step (SName k) (JObj m) = map_of m k"
| "walk_step (SQuoted k) (JObj m) = map_of m k"
| "walk_step _ _ = None"

definition walk :: "json \<Rightarrow> segment list \<Rightarrow> string + json" where
  "walk v path =
     try_fold (\<lambda>seg v. ok_or (''no field `'' @ segment_string seg @ ''`'') (walk_step seg v)) path v"

definition ResourceOutputs_get :: "resource_outputs \<Rightarrow> segment list \<Rightarrow> string + lookup" where
  "ResourceOutputs_get self path =
     (case path of
        [] \<Rightarrow> Err ''an output name is required''
      | first # rest \<Rightarrow>
          rbind (ok_or ''output names are strings'' (segment_key first)) (\<lambda>name.
            case map_of (ro_secrets self) name of
              Some r \<Rightarrow>
                if rest = [] then Ok (LSecret r)
                else Err (''secret output `'' @ name @ ''` has no fields'')
            | None \<Rightarrow>
                rbind (ok_or (''no output `'' @ name @ ''`'') (map_of (ro_values self) name)) (\<lambda>v.
                rbind (walk v rest) (\<lambda>v. Ok (LValue v)))))"

datatype shared_value = SVValue json | SVSecret secret_ref

record map_scope =
  ms_context :: "(context_key \<times> json) list"
  ms_referrer :: "descriptor option"
  ms_implicit_types :: "string list"
  ms_resources :: "(descriptor, resource_outputs) btree_map"
  ms_externals :: "(string, resource_outputs) btree_map"
  ms_shared :: "(string, resource_outputs) btree_map"
  ms_values :: "(string, shared_value) btree_map"

definition MapScope_descriptor_for :: "map_scope \<Rightarrow> resource_ref \<Rightarrow> string + descriptor" where
  "MapScope_descriptor_for self target =
     (let implicit = (rr_ty target \<in> set (ms_implicit_types self)) in
      case (ms_referrer self, rr_class target, rr_id target) of
        (Some r, _, _) \<Rightarrow> Ok (ResourceRef_resolve target r implicit)
      | (None, Some c, Some i) \<Rightarrow> Ok (Descriptor (rr_ty target) c i)
      | (None, _, _) \<Rightarrow>
          if implicit then
            (let dummy = Descriptor (rr_ty target) default_class ''x'' in
             Ok (ResourceRef_resolve target dummy True))
          else Err (''`'' @ resource_ref_string target @ ''` needs a class and ID here''))"

fun MapScope_lookup :: "map_scope \<Rightarrow> scope" where
  "MapScope_lookup self (EContext k) =
     rbind (ok_or (''`context.'' @ context_path k @ ''` is not available here'')
       (map_of (ms_context self) k)) (\<lambda>v. Ok (LValue v))"
| "MapScope_lookup self (EResource target field) =
     rbind (MapScope_descriptor_for self target) (\<lambda>d.
     rbind (ok_or (''resource `'' @ descriptor_string d @ ''` is not in the graph'')
       (map_of (ms_resources self) d)) (\<lambda>outputs.
         case field of
           FOutputs path \<Rightarrow> ResourceOutputs_get outputs path
         | FGuresid \<Rightarrow>
             rbind (ok_or (''resource `'' @ descriptor_string d @ ''` has no GUResID yet'')
               (ro_guresid outputs)) (\<lambda>g. Ok (LValue (JStr g)))
         | FAccount \<Rightarrow>
             rbind (ok_or (''resource `'' @ descriptor_string d @ ''` has no cloud account'')
               (ro_account outputs)) (\<lambda>a. Ok (LValue (JStr a)))))"
| "MapScope_lookup self (EExternals key path) =
     rbind (ok_or (''no dependency `'' @ key @ ''`'') (map_of (ms_externals self) key)) (\<lambda>outputs.
       ResourceOutputs_get outputs path)"
| "MapScope_lookup self (EShared sid path) =
     rbind (ok_or (''no shared resource `'' @ sid @ ''`'') (map_of (ms_shared self) sid)) (\<lambda>outputs.
       ResourceOutputs_get outputs path)"
| "MapScope_lookup self (EValues key path) =
     (case map_of (ms_values self) key of
        Some (SVValue v) \<Rightarrow> rbind (walk v path) (\<lambda>v. Ok (LValue v))
      | Some (SVSecret r) \<Rightarrow>
          if path = [] then Ok (LSecret r) else Err (''secret value `'' @ key @ ''` has no fields'')
      | None \<Rightarrow> Err (''no shared value `'' @ key @ ''`''))"
| "MapScope_lookup self (EPod path) =
     Err (''`pod.'' @ join ''.'' path @ ''` needs a workload target that supports pod references'')"

section \<open>One lookup per placeholder\<close>

text \<open>The \<open>expect\<close>s of \<open>resolve_string\<close>: a template that is one placeholder has one lookup, and
  \<open>fill_parts\<close> never runs out of lookups.\<close>

lemma placeholders_simps [simp]:
  "Template_placeholders [] = []"
  "Template_placeholders (Literal l # ps) = Template_placeholders ps"
  "Template_placeholders (Placeholder p # ps) = p # Template_placeholders ps"
  by (simp_all add: Template_placeholders_def List.map_filter_def)

lemma whole_Some [simp]: "Template_whole ps = Some p \<longleftrightarrow> ps = [Placeholder p]"
  by (auto simp: Template_whole_def split: list.splits part.splits)

section \<open>References of secret expressions\<close>

lemma references_simps [simp]:
  "SecretExpr_references [] = []"
  "SecretExpr_references (SP_Literal l # ps) = SecretExpr_references ps"
  "SecretExpr_references (SP_Secret r # ps) = r # SecretExpr_references ps"
  "SecretExpr_references (ps @ qs) = SecretExpr_references ps @ SecretExpr_references qs"
  by (simp_all add: SecretExpr_references_def List.map_filter_def)

lemma push_literal_snoc:
  "push_literal s [] = (if s = [] then [] else [SP_Literal s])"
  "push_literal s (front @ [SP_Literal l]) = front @ [SP_Literal (l @ s)]"
  "push_literal s (front @ [SP_Secret r]) =
     front @ [SP_Secret r] @ (if s = [] then [] else [SP_Literal s])"
  by (simp_all add: push_literal_def)

lemma push_literal_induct:
  assumes "P []" "\<And>front l. P (front @ [SP_Literal l])" "\<And>front r. P (front @ [SP_Secret r])"
  shows "P parts"
proof (cases parts rule: rev_cases)
  case (snoc front p)
  with assms(2,3) show ?thesis by (cases p) simp_all
qed (simp add: assms(1))

lemma references_push_literal [simp]:
  "SecretExpr_references (push_literal s parts) = SecretExpr_references parts"
  by (rule push_literal_induct [of _ parts]) (simp_all add: push_literal_snoc)

text \<open>The secrets among the results of lookups.\<close>

definition lookup_secrets :: "lookup list \<Rightarrow> secret_ref list" where
  "lookup_secrets ls = List.map_filter (\<lambda>l. case l of LSecret r \<Rightarrow> Some r | LValue _ \<Rightarrow> None) ls"

lemma lookup_secrets_simps [simp]:
  "lookup_secrets [] = []"
  "lookup_secrets (LValue v # ls) = lookup_secrets ls"
  "lookup_secrets (LSecret r # ls) = r # lookup_secrets ls"
  "lookup_secrets (ls @ ms) = lookup_secrets ls @ lookup_secrets ms"
  by (simp_all add: lookup_secrets_def List.map_filter_def)

lemma references_fill_parts:
  "length lookups = length (Template_placeholders ps) \<Longrightarrow>
   SecretExpr_references (fill_parts json_text ps lookups parts) =
     SecretExpr_references parts @ lookup_secrets lookups"
proof (induction json_text ps lookups parts rule: fill_parts.induct)
  case (3 json_text p ps lookups parts)
  then obtain l ls where ls: "lookups = l # ls" by (cases lookups) auto
  with 3 show ?case by (cases l) (auto split: json.splits)
qed auto

section \<open>Collecting placeholders\<close>

lemma collect_string_append:
  "collect_string s dialect location out =
     rbind (map_err (placeholder_err location s) (Template_parse s)) (\<lambda>t.
     rbind (try_map (\<lambda>p.
         rbind (map_err (placeholder_err location (rp_text p)) (Expr_interpret p dialect)) (\<lambda>e.
           Ok (location, p, e))) (Template_placeholders t)) (\<lambda>es. Ok (out @ es)))"
  by (simp add: collect_string_def try_fold_snoc)

lemma collect_items_append:
  assumes "\<And>x out. x \<in> set xs \<Longrightarrow> f x out = rbind (f x []) (\<lambda>es. Ok (out @ es))"
  shows "try_fold f xs out = rbind (try_map (\<lambda>x. f x []) xs) (\<lambda>ess. Ok (out @ concat ess))"
proof -
  have "try_fold f xs out = try_fold (\<lambda>x out. rbind (f x []) (\<lambda>ys. Ok (out @ ys))) xs out"
    by (rule try_fold_cong [OF refl refl assms])
  then show ?thesis by (simp only: try_fold_concat)
qed

lemma collect_into_append:
  "collect_into v dialect location out =
     rbind (collect_into v dialect location []) (\<lambda>es. Ok (out @ es))"
proof (induction v dialect location out rule: collect_into.induct)
  case (1 s dialect location out)
  show ?case unfolding collect_into.simps collect_string_append by (simp add: rbind_assoc)
next
  case (2 items dialect location out)
  let ?f = "\<lambda>(i, item) out. collect_into item dialect (index_location location i) out"
  have eq: "try_fold ?f (enumerate 0 items) out =
    rbind (try_map (\<lambda>x. ?f x []) (enumerate 0 items)) (\<lambda>ess. Ok (out @ concat ess))" for out
  proof (rule collect_items_append)
    fix x out
    assume x: "x \<in> set (enumerate 0 items)"
    show "?f x out = rbind (?f x []) (\<lambda>es. Ok (out @ es))"
    proof (cases x)
      case (Pair i item)
      show ?thesis unfolding Pair prod.case by (rule 2 [OF x Pair [symmetric]])
    qed
  qed
  show ?case unfolding collect_into.simps eq [of out] eq [of "[]"] rbind_assoc by simp
next
  case (3 es dialect location out)
  let ?f = "\<lambda>(k, v) out. collect_into v dialect (key_location location k) out"
  have eq: "try_fold ?f es out = rbind (try_map (\<lambda>x. ?f x []) es) (\<lambda>ess. Ok (out @ concat ess))" for out
  proof (rule collect_items_append)
    fix x out
    assume x: "x \<in> set es"
    show "?f x out = rbind (?f x []) (\<lambda>es. Ok (out @ es))"
    proof (cases x)
      case (Pair k v)
      show ?thesis unfolding Pair prod.case by (rule 3 [OF x Pair [symmetric]])
    qed
  qed
  show ?case unfolding collect_into.simps eq [of out] eq [of "[]"] rbind_assoc by simp
qed auto

lemma collect_placeholders_simps:
  "collect_placeholders (JStr s) dialect location =
     rbind (map_err (placeholder_err location s) (Template_parse s)) (\<lambda>t.
       try_map (\<lambda>p.
         rbind (map_err (placeholder_err location (rp_text p)) (Expr_interpret p dialect)) (\<lambda>e.
           Ok (location, p, e))) (Template_placeholders t))"
  "collect_placeholders (JArr items) dialect location =
     rbind (try_map (\<lambda>(i, item). collect_placeholders item dialect (index_location location i))
       (enumerate 0 items)) (\<lambda>ess. Ok (concat ess))"
  "collect_placeholders (JObj es) dialect location =
     rbind (try_map (\<lambda>(k, v). collect_placeholders v dialect (key_location location k)) es)
       (\<lambda>ess. Ok (concat ess))"
proof -
  have ok: "rbind r Ok = r" for r :: "'e + 'a" by (cases r) auto
  show "collect_placeholders (JStr s) dialect location =
     rbind (map_err (placeholder_err location s) (Template_parse s)) (\<lambda>t.
       try_map (\<lambda>p.
         rbind (map_err (placeholder_err location (rp_text p)) (Expr_interpret p dialect)) (\<lambda>e.
           Ok (location, p, e))) (Template_placeholders t))"
    by (simp add: collect_placeholders_def collect_string_append ok)
  show "collect_placeholders (JArr items) dialect location =
     rbind (try_map (\<lambda>(i, item). collect_placeholders item dialect (index_location location i))
       (enumerate 0 items)) (\<lambda>ess. Ok (concat ess))"
    using collect_items_append [of "enumerate 0 items"
        "\<lambda>x out. collect_into (snd x) dialect (index_location location (fst x)) out" "[]",
        OF collect_into_append]
    by (simp add: collect_placeholders_def case_prod_unfold)
  show "collect_placeholders (JObj es) dialect location =
     rbind (try_map (\<lambda>(k, v). collect_placeholders v dialect (key_location location k)) es)
       (\<lambda>ess. Ok (concat ess))"
    using collect_items_append [of es
        "\<lambda>x out. collect_into (snd x) dialect (key_location location (fst x)) out" "[]",
        OF collect_into_append]
    by (simp add: collect_placeholders_def case_prod_unfold)
qed

section \<open>Resolution refers to exactly the secrets it looked up\<close>

fun resolved_refs :: "resolved \<Rightarrow> secret_ref list" where
  "resolved_refs (RValue _) = []"
| "resolved_refs (RSecret e) = SecretExpr_references e"
| "resolved_refs (RArray rs) = concat (map resolved_refs rs)"
| "resolved_refs (RObject es) = concat (map (\<lambda>e. resolved_refs (snd e)) es)"

text \<open>The promise of the type's documentation: what is not a plain value has a secret inside.\<close>

fun wf_resolved :: "resolved \<Rightarrow> bool" where
  "wf_resolved (RValue _) = True"
| "wf_resolved (RSecret e) = (SecretExpr_references e \<noteq> [])"
| "wf_resolved (RArray rs) = (list_ex is_tainted rs \<and> list_all wf_resolved rs)"
| "wf_resolved (RObject es) =
     (list_ex (\<lambda>e. is_tainted (snd e)) es \<and> list_all (\<lambda>e. wf_resolved (snd e)) es)"

lemma tainted_iff_refs: "wf_resolved r \<Longrightarrow> is_tainted r \<longleftrightarrow> resolved_refs r \<noteq> []"
  by (induction r rule: resolved_refs.induct) (auto simp: list_ex_iff list_all_iff)

lemma untainted_no_refs: "\<not> is_tainted r \<Longrightarrow> resolved_refs r = []"
  by (cases r) auto

lemma refs_array [simp]: "resolved_refs (Resolved_array rs) = concat (map resolved_refs rs)"
  by (auto simp: Resolved_array_def list_all_iff untainted_no_refs)

lemma refs_object [simp]:
  "resolved_refs (Resolved_object es) = concat (map (\<lambda>e. resolved_refs (snd e)) es)"
  by (auto simp: Resolved_object_def list_all_iff untainted_no_refs case_prod_unfold)

lemma wf_array: "list_all wf_resolved rs \<Longrightarrow> wf_resolved (Resolved_array rs)"
  by (auto simp: Resolved_array_def list_all_iff list_ex_iff)

lemma wf_object: "list_all (\<lambda>e. wf_resolved (snd e)) es \<Longrightarrow> wf_resolved (Resolved_object es)"
  by (auto simp: Resolved_object_def list_all_iff list_ex_iff case_prod_unfold)

lemma resolve_placeholder_Ok:
  "resolve_placeholder dialect lookup sink location p = Ok l \<longleftrightarrow>
     (\<exists>e. Expr_interpret p dialect = Ok e \<and> lookup e = Ok l \<and> (sink = Plain \<longrightarrow> lookup_secrets [l] = []))"
proof (cases "Expr_interpret p dialect")
  case (Inr e)
  show ?thesis
  proof (cases "lookup e")
    case Ok: (Inr found)
    with Inr show ?thesis by (cases found) (auto simp: resolve_placeholder_def)
  qed (simp add: Inr resolve_placeholder_def)
qed (simp add: resolve_placeholder_def)

lemma resolve_placeholders_Ok:
  "try_map (resolve_placeholder dialect lookup sink location) ps = Ok ls \<longleftrightarrow>
     (\<exists>es. try_map (\<lambda>p. rbind (map_err (placeholder_err location (rp_text p)) (Expr_interpret p dialect))
          (\<lambda>e. Ok (location, p, e))) ps = Ok es \<and>
        map (\<lambda>(_, _, e). lookup e) es = map Ok ls \<and> (sink = Plain \<longrightarrow> lookup_secrets ls = []))"
proof (induction ps arbitrary: ls)
  case Nil
  show ?case by auto
next
  case (Cons p ps)
  show ?case
  proof (cases ls)
    case (Cons l ls')
    have "lookup_secrets (l # ls') = lookup_secrets [l] @ lookup_secrets ls'" by (cases l) auto
    then show ?thesis
      unfolding Cons by (fastforce simp: rbind_eq_Inr resolve_placeholder_Ok Cons.IH)
  qed (auto simp: rbind_eq_Inr)
qed

lemma one_lookup_per_placeholder:
  "try_map (resolve_placeholder dialect lookup sink location) (Template_placeholders t) = Ok ls \<Longrightarrow>
   length ls = length (Template_placeholders t)"
  by (rule try_map_length)

text \<open>What resolving a value has looked up, in terms of the placeholders collected from it.\<close>

definition looked_up ::
  "json \<Rightarrow> dialect \<Rightarrow> scope \<Rightarrow> sink \<Rightarrow> string \<Rightarrow> lookup list \<Rightarrow> bool" where
  "looked_up v dialect lookup sink location ls \<longleftrightarrow>
     (\<exists>es. collect_placeholders v dialect location = Ok es \<and>
        map (\<lambda>(_, _, e). lookup e) es = map Ok ls \<and> (sink = Plain \<longrightarrow> lookup_secrets ls = []))"

lemma resolve_string_Ok:
  "resolve_string json_text s dialect lookup sink location = Ok r \<longleftrightarrow>
     (\<exists>t ls. Template_parse s = Ok t \<and>
        try_map (resolve_placeholder dialect lookup sink location) (Template_placeholders t) = Ok ls \<and>
        r = resolved_string json_text t ls)"
  by (auto simp: resolve_string_def rbind_eq_Inr)

lemma looked_up_string:
  "looked_up (JStr s) dialect lookup sink location ls \<longleftrightarrow>
     (\<exists>t. Template_parse s = Ok t \<and>
        try_map (resolve_placeholder dialect lookup sink location) (Template_placeholders t) = Ok ls)"
  by (auto simp: looked_up_def collect_placeholders_simps(1) rbind_eq_Inr resolve_placeholders_Ok)

lemma resolved_string_refs:
  assumes "length ls = length (Template_placeholders t)"
  shows "resolved_refs (resolved_string json_text t ls) = lookup_secrets ls
    \<and> wf_resolved (resolved_string json_text t ls)"
proof (cases "Template_whole t")
  case None
  have "SecretExpr_references (fill_parts json_text t ls []) = lookup_secrets ls"
    using references_fill_parts [OF assms, of json_text "[]"] by simp
  with None show ?thesis by (simp add: resolved_string_def Let_def)
next
  case (Some p)
  with assms obtain l where "ls = [l]" by (auto simp: length_Suc_conv)
  with Some show ?thesis by (cases l) (auto simp: resolved_string_def SecretExpr_whole_def)
qed

lemma resolve_string_refs:
  assumes "resolve_string json_text s dialect lookup sink location = Ok r"
  shows "\<exists>ls. looked_up (JStr s) dialect lookup sink location ls \<and> resolved_refs r = lookup_secrets ls
    \<and> wf_resolved r"
proof -
  from assms obtain t ls where t: "Template_parse s = Ok t"
    and ls: "try_map (resolve_placeholder dialect lookup sink location) (Template_placeholders t) = Ok ls"
    and r: "r = resolved_string json_text t ls"
    unfolding resolve_string_Ok by blast
  from resolved_string_refs [OF one_lookup_per_placeholder [OF ls]]
  have "resolved_refs r = lookup_secrets ls \<and> wf_resolved r" unfolding r by blast
  moreover have "looked_up (JStr s) dialect lookup sink location ls"
    using t ls by (auto simp: looked_up_string)
  ultimately show ?thesis by blast
qed

text \<open>Items of an array or object, resolved in order.\<close>

lemma looked_up_items:
  assumes "try_map F xs = Ok rs"
    and "\<And>x r. x \<in> set xs \<Longrightarrow> F x = Ok r \<Longrightarrow> \<exists>es ls. C x = Ok es \<and> map lk es = map Ok ls \<and>
      (sink = Plain \<longrightarrow> lookup_secrets ls = []) \<and> refs r = lookup_secrets ls \<and> W r"
  shows "\<exists>ess ls. try_map C xs = Ok ess \<and> map lk (concat ess) = map Ok ls \<and>
      (sink = Plain \<longrightarrow> lookup_secrets ls = []) \<and> concat (map refs rs) = lookup_secrets ls \<and> list_all W rs"
  using assms
proof (induction xs arbitrary: rs)
  case Nil
  then show ?case by (intro exI [of _ "[]"]) simp
next
  case (Cons x xs)
  from Cons.prems(1) obtain r rs' where rs: "rs = r # rs'" and x: "F x = Ok r" and xs: "try_map F xs = Ok rs'"
    by (auto simp: rbind_eq_Inr)
  from Cons.prems(2) [OF _ x] obtain es ls where 1: "C x = Ok es" "map lk es = map Ok ls"
    "sink = Plain \<longrightarrow> lookup_secrets ls = []" "refs r = lookup_secrets ls" "W r" by auto
  from Cons.IH [OF xs] Cons.prems(2) obtain ess ls' where 2: "try_map C xs = Ok ess"
    "map lk (concat ess) = map Ok ls'" "sink = Plain \<longrightarrow> lookup_secrets ls' = []"
    "concat (map refs rs') = lookup_secrets ls'" "list_all W rs'" by auto
  from 1 2 rs show ?case by (intro exI [of _ "es # ess"] exI [of _ "ls @ ls'"]) simp
qed

lemma resolve_value_refs:
  "resolve_value json_text v dialect lookup sink location = Ok r \<Longrightarrow>
   \<exists>es ls. collect_placeholders v dialect location = Ok es \<and> map (\<lambda>(_, _, e). lookup e) es = map Ok ls \<and>
     (sink = Plain \<longrightarrow> lookup_secrets ls = []) \<and> resolved_refs r = lookup_secrets ls \<and> wf_resolved r"
proof (induction json_text v dialect lookup sink location arbitrary: r rule: resolve_value.induct)
  case (1 json_text s dialect lookup sink location)
  then show ?case using resolve_string_refs by (fastforce simp: looked_up_def)
next
  case (2 json_text items dialect lookup sink location)
  let ?F = "\<lambda>(i, item). resolve_value json_text item dialect lookup sink (index_location location i)"
  from "2.prems" obtain out where out: "r = Resolved_array out" "try_map ?F (enumerate 0 items) = Ok out"
    by (auto simp: rbind_eq_Inr)
  from looked_up_items [OF out(2), of "\<lambda>(i, item). collect_placeholders item dialect (index_location location i)"
      "\<lambda>(_, _, e). lookup e" sink resolved_refs wf_resolved] "2.IH"
  show ?case by (fastforce simp: collect_placeholders_simps out wf_array)
next
  case (3 json_text es dialect lookup sink location)
  let ?F = "\<lambda>(k, v). rbind (resolve_value json_text v dialect lookup sink (key_location location k)) (\<lambda>r. Ok (k, r))"
  from "3.prems" obtain out where out: "r = Resolved_object out" "try_map ?F es = Ok out"
    by (auto simp: rbind_eq_Inr)
  from looked_up_items [OF out(2), of "\<lambda>(k, v). collect_placeholders v dialect (key_location location k)"
      "\<lambda>(_, _, e). lookup e" sink "\<lambda>e. resolved_refs (snd e)" "\<lambda>e. wf_resolved (snd e)"] "3.IH"
  show ?case by (fastforce simp: collect_placeholders_simps out wf_object rbind_eq_Inr)
qed (auto simp: collect_placeholders_def)

definition can_look_up :: "scope \<Rightarrow> sink \<Rightarrow> expr \<Rightarrow> bool" where
  "can_look_up lookup sink e \<longleftrightarrow>
     (\<exists>l. lookup e = Ok l \<and> (sink = Plain \<longrightarrow> (\<forall>r. l \<noteq> LSecret r)))"

lemma try_map_mem:
  assumes "try_map C xs = Ok ess" "x \<in> set xs"
  obtains es where "C x = Ok es" "es \<in> set ess"
  using assms that by (auto simp: try_map_Inr_iff list_all2_conv_all_nth in_set_conv_nth) (metis nth_mem)

lemma resolve_string_succeeds:
  assumes "collect_placeholders (JStr s) dialect location = Ok es"
    and "\<And>e. e \<in> set es \<Longrightarrow> can_look_up lookup sink (snd (snd e))"
  shows "is_ok (resolve_string json_text s dialect lookup sink location)"
proof -
  from assms(1) obtain t where t: "Template_parse s = Ok t"
    and es: "try_map (\<lambda>p. rbind (map_err (placeholder_err location (rp_text p)) (Expr_interpret p dialect))
        (\<lambda>e. Ok (location, p, e))) (Template_placeholders t) = Ok es"
    by (auto simp: collect_placeholders_simps rbind_eq_Inr)
  have "is_ok (try_map (resolve_placeholder dialect lookup sink location) (Template_placeholders t))"
  proof (rule try_map_is_ok)
    fix p
    assume "p \<in> set (Template_placeholders t)"
    with es obtain e where e: "Expr_interpret p dialect = Ok e" "(location, p, e) \<in> set es"
      by (rule try_map_mem) (auto simp: rbind_eq_Inr)
    with assms(2) obtain l where "lookup e = Ok l" "sink = Plain \<longrightarrow> (\<forall>r. l \<noteq> LSecret r)"
      by (force simp: can_look_up_def)
    with e(1) show "is_ok (resolve_placeholder dialect lookup sink location p)"
      by (cases l) (auto simp: resolve_placeholder_def)
  qed
  with t show ?thesis by (auto simp: resolve_string_def is_ok_iff)
qed

lemma resolve_value_succeeds:
  "collect_placeholders v dialect location = Ok es \<Longrightarrow>
   (\<And>e. e \<in> set es \<Longrightarrow> can_look_up lookup sink (snd (snd e))) \<Longrightarrow>
   is_ok (resolve_value json_text v dialect lookup sink location)"
proof (induction json_text v dialect lookup sink location arbitrary: es rule: resolve_value.induct)
  case (1 json_text s dialect lookup sink location)
  then show ?case by (auto intro: resolve_string_succeeds)
next
  case (2 json_text items dialect lookup sink location)
  from "2.prems"(1) obtain ess where ess: "try_map (\<lambda>(i, item). collect_placeholders item dialect
      (index_location location i)) (enumerate 0 items) = Ok ess" "es = concat ess"
    by (auto simp: collect_placeholders_simps rbind_eq_Inr)
  have "is_ok (try_map (\<lambda>(i, item). resolve_value json_text item dialect lookup sink (index_location location i))
      (enumerate 0 items))"
  proof (rule try_map_is_ok)
    fix x assume x: "x \<in> set (enumerate 0 items)"
    obtain i item where p: "x = (i, item)" by (cases x)
    from try_map_mem [OF ess(1) x] obtain es' where "collect_placeholders item dialect
      (index_location location i) = Ok es'" "es' \<in> set ess" unfolding p by auto
    with "2.prems"(2) ess(2) "2.IH" [OF x p [symmetric], of es'] show "is_ok ((\<lambda>(i, item). resolve_value json_text item
        dialect lookup sink (index_location location i)) x)" unfolding p by auto
  qed
  then show ?case by (auto simp: is_ok_iff)
next
  case (3 json_text kvs dialect lookup sink location)
  from "3.prems"(1) obtain ess where ess: "try_map (\<lambda>(k, v). collect_placeholders v dialect
      (key_location location k)) kvs = Ok ess" "es = concat ess"
    by (auto simp: collect_placeholders_simps rbind_eq_Inr)
  have "is_ok (try_map (\<lambda>(k, v). rbind (resolve_value json_text v dialect lookup sink
      (key_location location k)) (\<lambda>r. Ok (k, r))) kvs)"
  proof (rule try_map_is_ok)
    fix x assume x: "x \<in> set kvs"
    obtain k v where p: "x = (k, v)" by (cases x)
    from try_map_mem [OF ess(1) x] obtain es' where "collect_placeholders v dialect
      (key_location location k) = Ok es'" "es' \<in> set ess" unfolding p by auto
    with "3.prems"(2) ess(2) "3.IH" [OF x p [symmetric], of es']
    have "is_ok (resolve_value json_text v dialect lookup sink (key_location location k))" by auto
    then show "is_ok ((\<lambda>(k, v). rbind (resolve_value json_text v dialect lookup sink
        (key_location location k)) (\<lambda>r. Ok (k, r))) x)" unfolding p by (auto simp: is_ok_iff)
  qed
  then show ?case by (auto simp: is_ok_iff)
qed auto

text \<open>What a scope reveals to a plain sink: values and errors, and that a secret is a secret.\<close>

definition hide_secret :: "lookup \<Rightarrow> json option" where
  "hide_secret l = (case l of LValue v \<Rightarrow> Some v | LSecret _ \<Rightarrow> None)"

definition public_view :: "scope \<Rightarrow> expr \<Rightarrow> string + json option" where
  "public_view lookup e = map_sum id hide_secret (lookup e)"

lemma resolve_placeholder_public:
  assumes "public_view lookup = public_view lookup'"
  shows "resolve_placeholder dialect lookup Plain location p =
    resolve_placeholder dialect lookup' Plain location p"
proof (cases "Expr_interpret p dialect")
  case (Inr e)
  have "public_view lookup e = public_view lookup' e" using assms by simp
  then show ?thesis
    by (cases "lookup e"; cases "lookup' e")
      (auto simp: Inr resolve_placeholder_def public_view_def hide_secret_def split: lookup.splits)
qed (simp add: resolve_placeholder_def)

lemma resolve_value_public:
  "public_view lookup = public_view lookup' \<Longrightarrow> sink = Plain \<Longrightarrow>
   resolve_value json_text v dialect lookup sink location =
   resolve_value json_text v dialect lookup' sink location"
proof (induction json_text v dialect lookup sink location rule: resolve_value.induct)
  case (1 json_text s dialect lookup sink location)
  from resolve_placeholder_public [OF "1.prems"(1)]
  have "resolve_placeholder dialect lookup Plain location = resolve_placeholder dialect lookup' Plain location"
    by blast
  with "1.prems"(2) show ?case by (simp add: resolve_string_def)
next
  case (2 json_text items dialect lookup sink location)
  then have "try_map (\<lambda>(i, item). resolve_value json_text item dialect lookup sink (index_location location i))
      (enumerate 0 items) =
    try_map (\<lambda>(i, item). resolve_value json_text item dialect lookup' sink (index_location location i))
      (enumerate 0 items)"
    by (intro try_map_ext) auto
  then show ?case by (simp only: resolve_value.simps)
next
  case (3 json_text es dialect lookup sink location)
  then have "try_map (\<lambda>(k, v). rbind (resolve_value json_text v dialect lookup sink (key_location location k))
      (\<lambda>r. Ok (k, r))) es =
    try_map (\<lambda>(k, v). rbind (resolve_value json_text v dialect lookup' sink (key_location location k))
      (\<lambda>r. Ok (k, r))) es"
    by (intro try_map_ext) auto
  then show ?case by (simp only: resolve_value.simps)
qed simp_all

section \<open>Text with placeholders\<close>

text \<open>The text of a part once its placeholder is looked up, with secrets read by \<open>read\<close>.\<close>

fun lookup_text :: "(json \<Rightarrow> string) \<Rightarrow> (secret_ref \<Rightarrow> string) \<Rightarrow> lookup \<Rightarrow> string" where
  "lookup_text json_text read (LValue (JStr s)) = s"
| "lookup_text json_text read (LValue v) = json_text v"
| "lookup_text json_text read (LSecret r) = read r"

fun parts_text ::
  "(json \<Rightarrow> string) \<Rightarrow> (secret_ref \<Rightarrow> string) \<Rightarrow> part list \<Rightarrow> lookup list \<Rightarrow> string" where
  "parts_text json_text read [] ls = []"
| "parts_text json_text read (Literal l # ps) ls = l @ parts_text json_text read ps ls"
| "parts_text json_text read (Placeholder _ # ps) ls =
     lookup_text json_text read (hd ls) @ parts_text json_text read ps (tl ls)"

definition expr_text :: "(secret_ref \<Rightarrow> string) \<Rightarrow> secret_expr \<Rightarrow> string" where
  "expr_text read e = concat (map (\<lambda>p. case p of SP_Literal s \<Rightarrow> s | SP_Secret r \<Rightarrow> read r) e)"

lemma render_expr_text: "SecretExpr_render e (\<lambda>r. Ok (read r)) = Ok (expr_text read e)"
proof -
  have "try_fold (\<lambda>p out. case p of SP_Literal s \<Rightarrow> Ok (out @ s)
      | SP_Secret r \<Rightarrow> rbind (Ok (read r)) (\<lambda>s. Ok (out @ s))) e out = (Ok (out @ expr_text read e) :: 'e + string)"
    for out
    by (induction e arbitrary: out) (auto simp: expr_text_def split: secret_part.splits)
  from this [of "[]"] show ?thesis unfolding SecretExpr_render_def by simp
qed

lemma expr_text_push: "expr_text read (push_literal s e) = expr_text read e @ s"
  by (rule push_literal_induct [of _ e]) (simp_all add: push_literal_snoc expr_text_def)

lemma fill_parts_text:
  "expr_text read (fill_parts json_text ps ls e) = expr_text read e @ parts_text json_text read ps ls"
proof (induction json_text ps ls e rule: fill_parts.induct)
  case (3 json_text p ps ls e)
  have "expr_text read (e @ [SP_Secret r]) = expr_text read e @ read r" for r
    by (simp add: expr_text_def)
  with 3 show ?case by (auto simp: expr_text_push split: lookup.splits json.splits)
qed (simp_all add: expr_text_push)

lemma expr_text_no_secrets:
  "SecretExpr_references e = [] \<Longrightarrow> expr_text read e = expr_text read' e"
  by (induction e) (auto simp: expr_text_def split: secret_part.splits)

section \<open>Properties\<close>

text \<open>A sample for the witnesses below.\<close>

lemmas template_eval = Template_parse_def template_loop.simps find_placeholder_end_def parse_path_def
  is_name_char_def is_whitespace_def strip_prefix_def is_cont_def push_part_def

definition sample_part :: raw_placeholder where
  "sample_part = \<lparr>rp_text = ''${values.k}'', rp_segments = [SName ''values'', SName ''k'']\<rparr>"

definition sample_secret :: secret_ref where
  "sample_secret = \<lparr>sr_store = ''openporch'', sr_reference = ''r'', sr_version = None\<rparr>"

lemma sample_template: "Template_parse ''a${values.k}'' = Ok [Literal ''a'', Placeholder sample_part]"
  by (simp add: template_eval sample_part_def)

lemma sample_expr: "Expr_interpret sample_part DSet = Ok (EValues ''k'' [])"
  by (simp add: Expr_interpret_def rp_root_def sample_part_def second_key_def)

lemma sample_collect:
  "collect_placeholders (JStr ''a${values.k}'') DSet ''v'' = Ok [(''v'', sample_part, EValues ''k'' [])]"
  by (simp add: collect_placeholders_simps sample_template sample_expr)

lemma sample_resolve:
  "resolve_value json_text (JStr ''a${values.k}'') DSet (\<lambda>_. Ok (LSecret r)) SecretSink ''v'' =
     Ok (RSecret [SP_Literal ''a'', SP_Secret r])"
  "resolve_value json_text (JStr ''a${values.k}'') DSet (\<lambda>_. Ok (LValue (JStr ''b''))) Plain ''v'' =
     Ok (RValue (JStr ''ab''))"
  by (simp_all add: resolve_string_def sample_template sample_expr resolve_placeholder_def
      resolved_string_def Template_whole_def push_literal_def SecretExpr_render_def)

text \<open>
  C1: A value that resolves into a plain sink has no secret anywhere inside: it is a plain JSON
  value, none of the placeholders in it was looked up as a secret, and two scopes that differ only
  in which secrets they hold give the same result, errors included.
\<close>

theorem plain_sink_no_secrets:
  "(resolve_value json_text v dialect lookup Plain location = Ok r \<longrightarrow>
      (\<exists>w. r = RValue w) \<and>
      (\<exists>es vs. collect_placeholders v dialect location = Ok es \<and>
         map (\<lambda>(_, _, e). lookup e) es = map (\<lambda>v. Ok (LValue v)) vs)) \<and>
   (public_view lookup = public_view lookup' \<longrightarrow>
      resolve_value json_text v dialect lookup Plain location =
      resolve_value json_text v dialect lookup' Plain location)"
proof (intro conjI impI)
  assume "resolve_value json_text v dialect lookup Plain location = Ok r"
  from resolve_value_refs [OF this] obtain es ls where es: "collect_placeholders v dialect location = Ok es"
    and ls: "map (\<lambda>(_, _, e). lookup e) es = map Ok ls" "lookup_secrets ls = []"
    and r: "resolved_refs r = lookup_secrets ls" "wf_resolved r" by auto
  from r ls(2) tainted_iff_refs [of r] show "\<exists>w. r = RValue w" by (cases r) auto
  have "\<exists>vs. ls = map LValue vs" using ls(2)
  proof (induction ls)
    case (Cons l ls)
    then obtain v vs where "l = LValue v" "ls = map LValue vs" by (cases l) auto
    then show ?case by (intro exI [of _ "v # vs"]) simp
  qed simp
  with es ls(1) show "\<exists>es vs. collect_placeholders v dialect location = Ok es \<and>
      map (\<lambda>(_, _, e). lookup e) es = map (\<lambda>v. Ok (LValue v)) vs" by (auto simp: comp_def)
qed (rule resolve_value_public [OF _ refl])

theorem plain_sink_no_secrets_witness:
  "(\<exists>es vs. collect_placeholders (JStr ''a${values.k}'') DSet ''v'' = Ok es \<and>
      map (\<lambda>(_, _, e). (Ok (LValue (JStr ''b'')) :: string + lookup)) es = map (\<lambda>v. Ok (LValue v)) vs)
   \<and> resolve_value (\<lambda>_. []) (JStr ''a${values.k}'') DSet (\<lambda>_. Ok (LSecret sample_secret)) Plain ''v'' =
     resolve_value (\<lambda>_. []) (JStr ''a${values.k}'') DSet
       (\<lambda>_. Ok (LSecret (sample_secret\<lparr>sr_store := ''other''\<rparr>))) Plain ''v''"
proof -
  have "public_view (\<lambda>_. Ok (LSecret sample_secret)) =
      public_view (\<lambda>_. Ok (LSecret (sample_secret\<lparr>sr_store := ''other''\<rparr>)))"
    by (simp add: public_view_def hide_secret_def fun_eq_iff)
  with plain_sink_no_secrets [of "\<lambda>_. []" "JStr ''a${values.k}''" DSet "\<lambda>_. Ok (LSecret sample_secret)" "''v''"]
    plain_sink_no_secrets [of "\<lambda>_. []" "JStr ''a${values.k}''" DSet "\<lambda>_. Ok (LValue (JStr ''b''))" "''v''"
      "RValue (JStr ''ab'')"] sample_resolve(2) [of "\<lambda>_. []"]
  show ?thesis by blast
qed

text \<open>
  C19: Resolving refers to exactly the secrets of its placeholders. The secret references inside a
  resolved value are, in order, those that the scope returned for the placeholders collected from
  it, and everything that is not a plain value has one inside, as the type promises.
\<close>

theorem resolve_value_secret_refs:
  assumes "resolve_value json_text v dialect lookup sink location = Ok r"
  shows "\<exists>es ls. collect_placeholders v dialect location = Ok es \<and>
    map (\<lambda>(_, _, e). lookup e) es = map Ok ls \<and> resolved_refs r = lookup_secrets ls \<and> wf_resolved r"
  using resolve_value_refs [OF assms] by blast

theorem resolve_value_secret_refs_witness:
  "\<exists>es ls. collect_placeholders (JStr ''a${values.k}'') DSet ''v'' = Ok es \<and>
     map (\<lambda>(_, _, e). (Ok (LSecret sample_secret) :: string + lookup)) es = map Ok ls \<and>
     resolved_refs (RSecret [SP_Literal ''a'', SP_Secret sample_secret]) = lookup_secrets ls \<and>
     wf_resolved (RSecret [SP_Literal ''a'', SP_Secret sample_secret])"
  by (rule resolve_value_secret_refs [OF sample_resolve(1) [of "\<lambda>_. []"]])

text \<open>
  C18: Resolving succeeds exactly when every placeholder can be collected and looked up, and for a
  plain sink is not a secret.
\<close>

theorem resolve_value_succeeds_iff:
  "is_ok (resolve_value json_text v dialect lookup sink location) \<longleftrightarrow>
     (\<exists>es. collect_placeholders v dialect location = Ok es \<and>
        list_all (\<lambda>(_, _, e). can_look_up lookup sink e) es)"
proof
  assume "is_ok (resolve_value json_text v dialect lookup sink location)"
  then obtain r where "resolve_value json_text v dialect lookup sink location = Ok r"
    by (auto simp: is_ok_iff)
  from resolve_value_refs [OF this] obtain es ls where es: "collect_placeholders v dialect location = Ok es"
    and ls: "map (\<lambda>(_, _, e). lookup e) es = map Ok ls" "sink = Plain \<longrightarrow> lookup_secrets ls = []" by blast
  have "list_all (\<lambda>(_, _, e). can_look_up lookup sink e) es" using ls
  proof (induction es arbitrary: ls)
    case (Cons e es)
    then obtain l ls' where l: "ls = l # ls'" by (cases ls) auto
    with Cons show ?case by (cases l) (auto simp: can_look_up_def)
  qed simp
  with es show "\<exists>es. collect_placeholders v dialect location = Ok es \<and>
      list_all (\<lambda>(_, _, e). can_look_up lookup sink e) es" by blast
next
  assume "\<exists>es. collect_placeholders v dialect location = Ok es \<and>
      list_all (\<lambda>(_, _, e). can_look_up lookup sink e) es"
  then show "is_ok (resolve_value json_text v dialect lookup sink location)"
    by (auto simp: list_all_iff intro!: resolve_value_succeeds)
qed

text \<open>
  C33: Text with placeholders. A string that is not exactly one placeholder resolves to its literal
  text with the text of each looked-up value in place, and rendering the result (reading each
  secret with \<open>read\<close>) gives that text; it is kept as a secret expression exactly when a secret
  occurs in it.
\<close>

theorem resolve_string_text:
  assumes "Template_parse s = Ok t" "Template_whole t = None"
    and "try_map (resolve_placeholder dialect lookup sink location) (Template_placeholders t) = Ok ls"
  shows "resolve_string json_text s dialect lookup sink location =
      Ok (if lookup_secrets ls = [] then RValue (JStr (parts_text json_text read t ls))
          else RSecret (fill_parts json_text t ls []))
    \<and> SecretExpr_render (fill_parts json_text t ls []) (\<lambda>r. Ok (read r) :: unit + string) =
        Ok (parts_text json_text read t ls)"
proof -
  have len: "length ls = length (Template_placeholders t)" using assms(3) by (rule one_lookup_per_placeholder)
  let ?e = "fill_parts json_text t ls []"
  have shown: "expr_text read ?e = parts_text json_text read t ls" for read
    using fill_parts_text [of read json_text t ls "[]"] by (simp add: expr_text_def)
  have refs: "SecretExpr_references ?e = lookup_secrets ls"
    using references_fill_parts [OF len, of json_text "[]"] by simp
  have "resolved_string json_text t ls =
      (if lookup_secrets ls = [] then RValue (JStr (parts_text json_text read t ls)) else RSecret ?e)"
    using assms(2) expr_text_no_secrets [of ?e "\<lambda>_. []" read]
    by (simp add: resolved_string_def Let_def refs shown render_expr_text [where read = "\<lambda>_. []"])
  moreover have "resolve_string json_text s dialect lookup sink location = Ok (resolved_string json_text t ls)"
    using assms(1,3) by (simp add: resolve_string_def)
  ultimately show ?thesis by (simp add: render_expr_text shown)
qed

theorem resolve_string_text_witness:
  "resolve_string (\<lambda>_. []) ''a${values.k}'' DSet (\<lambda>_. Ok (LSecret sample_secret)) SecretSink ''v'' =
     Ok (RSecret [SP_Literal ''a'', SP_Secret sample_secret])
   \<and> SecretExpr_render [SP_Literal ''a'', SP_Secret sample_secret] (\<lambda>r. Ok ''pw'' :: unit + string) = Ok ''apw''"
  using resolve_string_text [of "''a${values.k}''" "[Literal ''a'', Placeholder sample_part]" DSet
      "\<lambda>_. Ok (LSecret sample_secret)" SecretSink "''v''" "[LSecret sample_secret]" "\<lambda>_. []" "\<lambda>_. ''pw''"]
  by (simp add: sample_template sample_expr resolve_placeholder_def Template_whole_def push_literal_def)

end
