(* ===== verification/Catalog.thy ===== *)
theory Catalog
  imports Model "HOL-Library.Product_Lexorder"
begin

text \<open>
  The resource type catalog (\<open>crates/core/src/catalog.rs\<close>): output schemas and the checks of
  driver outputs against them, classes, driver targets and the built-in types. The lemmas show what
  \<open>validate_outputs\<close> accepts, that no secret passes it as a plain value, and that the built-in types
  declare exactly the outputs they are written with.
\<close>

section \<open>Resource types and their outputs\<close>

datatype resource_use = Direct | Indirect | Implicit

record resource_type =
  rt_id :: string
  rt_name :: string
  rt_use :: resource_use
  rt_category :: string
  rt_inputs_schema :: json
  rt_outputs_schema :: json

datatype output_kind = OValue | OSecret

record output_error =
  oe_ty :: string
  oe_output :: string
  oe_problem :: string

definition output_error_string :: "output_error \<Rightarrow> string" where
  "output_error_string e =
     ''output `'' @ oe_output e @ ''` of resource type `'' @ oe_ty e @ ''` '' @ oe_problem e"

definition section_of :: "resource_type \<Rightarrow> output_kind \<Rightarrow> json_map option" where
  "section_of self kind =
     (let key = (case kind of OValue \<Rightarrow> ''values'' | OSecret \<Rightarrow> ''secrets'') in
      Option.bind (json_get (rt_outputs_schema self) ''properties'') (\<lambda>p.
      Option.bind (json_get p key) as_object))"

definition is_open :: "resource_type \<Rightarrow> output_kind \<Rightarrow> bool" where
  "is_open self kind =
     (case Option.bind (section_of self kind) (\<lambda>s. map_of s ''additionalProperties'') of
        None \<Rightarrow> True
      | Some v \<Rightarrow> v \<noteq> JBool False)"

definition required_names :: "json_map \<Rightarrow> string list" where
  "required_names section =
     (case Option.bind (map_of section ''required'') as_array of
        None \<Rightarrow> []
      | Some a \<Rightarrow> bs_of (List.map_filter as_str a))"

definition declared :: "resource_type \<Rightarrow> output_kind \<Rightarrow> (string \<times> json \<times> bool) list" where
  "declared self kind =
     (case section_of self kind of
        None \<Rightarrow> []
      | Some section \<Rightarrow>
          (let required = required_names section in
           case Option.bind (map_of section ''properties'') as_object of
             None \<Rightarrow> []
           | Some p \<Rightarrow> map (\<lambda>(k, v). (k, v, k \<in> set required)) p))"

definition output_kind_of :: "resource_type \<Rightarrow> string \<Rightarrow> output_kind option" where
  "output_kind_of self name =
     find (\<lambda>k. list_ex (\<lambda>(n, _, _). n = name) (declared self k)) [OValue, OSecret]"

definition has_open_outputs :: "resource_type \<Rightarrow> bool" where
  "has_open_outputs self \<longleftrightarrow> is_open self OValue \<or> is_open self OSecret"

fun is_number :: "json \<Rightarrow> bool" where
  "is_number (JNum _) = True"
| "is_number _ = False"

fun is_boolean :: "json \<Rightarrow> bool" where
  "is_boolean (JBool _) = True"
| "is_boolean _ = False"

definition json_type_matches :: "string \<Rightarrow> json \<Rightarrow> bool" where
  "json_type_matches want v =
     (if want = ''string'' then is_string v
      else if want = ''integer'' then is_i64 v \<or> is_u64 v
      else if want = ''number'' then is_number v
      else if want = ''boolean'' then is_boolean v
      else if want = ''object'' then as_object v \<noteq> None
      else if want = ''array'' then as_array v \<noteq> None
      else if want = ''null'' then is_null v
      else True)"

text \<open>\<open>schema.get("type").and_then(Value::as_str)\<close>.\<close>

definition schema_type :: "json \<Rightarrow> string option" where
  "schema_type schema = Option.bind (json_get schema ''type'') as_str"

definition output_err :: "resource_type \<Rightarrow> string \<Rightarrow> string \<Rightarrow> output_error" where
  "output_err self name problem = \<lparr>oe_ty = rt_id self, oe_output = name, oe_problem = problem\<rparr>"

definition check_value ::
  "resource_type \<Rightarrow> json_map \<Rightarrow> string list \<Rightarrow> string \<times> json \<times> bool \<Rightarrow> output_error + unit" where
  "check_value self vals secrets = (\<lambda>(name, schema, required).
     case map_of vals name of
       Some v \<Rightarrow>
         (case schema_type schema of
            Some want \<Rightarrow>
              if \<not> json_type_matches want v
              then Err (output_err self name (''must be of type '' @ want)) else Ok ()
          | None \<Rightarrow> Ok ())
     | None \<Rightarrow>
         if name \<in> set secrets then Err (output_err self name ''must be a value output, not a secret'')
         else if required then Err (output_err self name ''is missing'')
         else Ok ())"

definition check_secret ::
  "resource_type \<Rightarrow> json_map \<Rightarrow> string list \<Rightarrow> string \<times> json \<times> bool \<Rightarrow> output_error + unit" where
  "check_secret self vals secrets = (\<lambda>(name, _, required).
     if map_of vals name \<noteq> None then Err (output_err self name ''must be a secret output, not a value'')
     else if required \<and> name \<notin> set secrets then Err (output_err self name ''is missing'')
     else Ok ())"

definition validate_outputs ::
  "resource_type \<Rightarrow> json_map \<Rightarrow> string list \<Rightarrow> output_error + unit" where
  "validate_outputs self vals secrets =
     (case find (\<lambda>k. k \<in> set secrets) (map fst vals) of
        Some name \<Rightarrow> Err (output_err self name ''must be a secret output, not a value'')
      | None \<Rightarrow>
          rbind (try_map (check_value self vals secrets) (declared self OValue)) (\<lambda>_.
          rbind (try_map (check_secret self vals secrets) (declared self OSecret)) (\<lambda>_. Ok ())))"

definition validate_secret_output ::
  "resource_type \<Rightarrow> string \<Rightarrow> json \<Rightarrow> output_error + unit" where
  "validate_secret_output self name v =
     (case find (\<lambda>(n, _, _). n = name) (declared self OSecret) of
        None \<Rightarrow> Ok ()
      | Some (_, schema, _) \<Rightarrow>
          (case schema_type schema of
             Some want \<Rightarrow>
               if \<not> json_type_matches want v
               then Err (output_err self name (''must be of type '' @ want)) else Ok ()
           | None \<Rightarrow> Ok ()))"

section \<open>Classes and driver targets\<close>

record resource_class =
  rcl_id :: string
  rcl_resource_type :: string
  rcl_description :: string

type_synonym class_registry = "(string \<times> string) list"

definition ClassRegistry_new :: "resource_class list \<Rightarrow> class_registry" where
  "ClassRegistry_new classes = bs_of (map (\<lambda>c. (rcl_resource_type c, rcl_id c)) classes)"

definition ClassRegistry_contains :: "class_registry \<Rightarrow> string \<Rightarrow> string \<Rightarrow> bool" where
  "ClassRegistry_contains self ty class \<longleftrightarrow> is_default class \<or> (ty, class) \<in> set self"

definition BUILTIN_DRIVERS :: "string list" where
  "BUILTIN_DRIVERS = [''openporch/echo'', ''openporch/none'', ''openporch/template'', ''openporch/opentofu'']"

definition BUILTIN_DRIVER_NAMESPACE :: string where
  "BUILTIN_DRIVER_NAMESPACE = ''openporch''"

datatype driver_target = TResource | TWorkload

definition DriverTarget_of_type :: "string \<Rightarrow> driver_target" where
  "DriverTarget_of_type ty = (if ty = ''workload'' then TWorkload else TResource)"

fun DriverTarget_as_str :: "driver_target \<Rightarrow> string" where
  "DriverTarget_as_str TResource = ''resources''"
| "DriverTarget_as_str TWorkload = ''workloads''"

section \<open>Built-in types\<close>

definition json_schema_uri :: string where
  "json_schema_uri = ''https://json-schema.org/draft/2020-12/schema''"

definition outputs_section :: "bool \<Rightarrow> json_map \<Rightarrow> string list \<Rightarrow> json" where
  "outputs_section open props required =
     JObj [(''type'', JStr ''object''), (''properties'', JObj props),
       (''required'', JArr (map JStr required)), (''additionalProperties'', JBool open)]"

definition outputs ::
  "(string \<times> string \<times> bool) list \<Rightarrow> (string \<times> bool) list \<Rightarrow> bool \<Rightarrow> json" where
  "outputs vals secrets open =
     (let vprops = fold (\<lambda>(n, t, _). obj_insert n (JObj [(''type'', JStr t)])) vals [];
          vreq = map fst (filter (\<lambda>v. snd (snd v)) vals);
          sprops = fold (\<lambda>(n, _). obj_insert n (JObj [(''type'', JStr ''string'')])) secrets [];
          sreq = map fst (filter snd secrets) in
      JObj [(''$schema'', JStr json_schema_uri), (''type'', JStr ''object''),
        (''properties'', JObj [(''values'', outputs_section open vprops vreq),
           (''secrets'', outputs_section open sprops sreq)])])"

definition open_inputs :: json where
  "open_inputs = JObj [(''$schema'', JStr json_schema_uri), (''type'', JStr ''object'')]"

text \<open>The \<open>expect\<close> on the ID is the \<open>projr\<close>; \<open>builtin_ids_valid\<close> shows that it holds.\<close>

definition builtin :: "string \<Rightarrow> string \<Rightarrow> resource_use \<Rightarrow> string \<Rightarrow> json \<Rightarrow> json \<Rightarrow> resource_type" where
  "builtin i name use category inputs_schema outputs_schema =
     \<lparr>rt_id = projr (ResourceTypeId_new i), rt_name = name, rt_use = use, rt_category = category,
      rt_inputs_schema = inputs_schema, rt_outputs_schema = outputs_schema\<rparr>"

definition db_outputs :: json where
  "db_outputs = outputs [(''host'', ''string'', True), (''name'', ''string'', True), (''port'', ''integer'', True)]
     [(''username'', True), (''password'', True)] False"

definition type_schema :: "string \<Rightarrow> json" where
  "type_schema t = JObj [(''type'', JStr t)]"

definition workload_inputs :: json where
  "workload_inputs = JObj [(''$schema'', JStr json_schema_uri), (''type'', JStr ''object''),
     (''properties'', JObj [(''id'', type_schema ''string''), (''class'', type_schema ''string''),
        (''spec'', JObj [(''type'', JStr ''object''), (''description'',
           JStr ''The resolved workload document: containers or function, triggers, service, deploy, target'')]),
        (''dependencies'', JObj [(''type'', JStr ''object''), (''description'',
           JStr ''Outputs of the workload's direct dependencies by key'')])]),
     (''required'', JArr [JStr ''id'', JStr ''class'', JStr ''spec'', JStr ''dependencies'']),
     (''additionalProperties'', JBool False)]"

definition route_inputs :: json where
  "route_inputs = JObj [(''$schema'', JStr json_schema_uri), (''type'', JStr ''object''),
     (''properties'', JObj [(''host'', type_schema ''string''), (''path'', type_schema ''string''),
        (''port'', type_schema ''integer''), (''service'', type_schema ''string'')])]"

definition builtin_types :: "resource_type list" where
  "builtin_types = [
     builtin ''workload'' ''Workload'' Implicit ''workload'' workload_inputs
       (outputs [(''url'', ''string'', False)] [] True),
     builtin ''base-env'' ''Base environment'' Implicit ''environment'' open_inputs (outputs [] [] True),
     builtin ''k8s-cluster'' ''Kubernetes cluster'' Implicit ''kubernetes'' open_inputs
       (outputs [(''name'', ''string'', True), (''server'', ''string'', False),
          (''loadbalancer'', ''string'', False), (''region'', ''string'', False)] [(''credentials'', False)] False),
     builtin ''k8s-namespace'' ''Kubernetes namespace'' Implicit ''kubernetes'' open_inputs
       (outputs [(''namespace'', ''string'', True)] [] False),
     builtin ''k8s-service-account'' ''Kubernetes service account'' Indirect ''kubernetes'' open_inputs
       (outputs [(''name'', ''string'', True)] [] False),
     builtin ''config'' ''Configuration'' Direct ''config'' open_inputs (outputs [] [] True),
     builtin ''dns'' ''DNS name'' Direct ''dns'' open_inputs (outputs [(''host'', ''string'', True)] [] False),
     builtin ''route'' ''Route'' Direct ''dns'' route_inputs (outputs [] [] False),
     builtin ''postgres'' ''PostgreSQL database'' Direct ''datastore'' open_inputs db_outputs,
     builtin ''postgres-instance'' ''PostgreSQL instance'' Indirect ''datastore'' open_inputs
       (outputs [(''host'', ''string'', True), (''port'', ''integer'', True)]
          [(''username'', True), (''password'', True)] False),
     builtin ''mysql'' ''MySQL database'' Direct ''datastore'' open_inputs db_outputs,
     builtin ''redis'' ''Redis'' Direct ''datastore'' open_inputs
       (outputs [(''host'', ''string'', True), (''port'', ''integer'', True)]
          [(''username'', False), (''password'', True)] False),
     builtin ''s3'' ''S3 bucket'' Direct ''datastore'' open_inputs
       (outputs [(''bucket'', ''string'', True), (''region'', ''string'', True), (''arn'', ''string'', False)] [] False),
     builtin ''sqs'' ''SQS queue'' Direct ''messaging'' open_inputs
       (outputs [(''arn'', ''string'', True), (''url'', ''string'', True), (''region'', ''string'', True)] [] False),
     builtin ''sns-topic'' ''SNS topic'' Direct ''messaging'' open_inputs
       (outputs [(''arn'', ''string'', True), (''region'', ''string'', True), (''name'', ''string'', False)] [] False),
     builtin ''dynamodb-table'' ''DynamoDB table'' Direct ''datastore'' open_inputs
       (outputs [(''name'', ''string'', True), (''arn'', ''string'', True), (''region'', ''string'', True),
          (''stream_arn'', ''string'', False)] [] False),
     builtin ''aws-role'' ''AWS IAM role'' Indirect ''aws'' open_inputs
       (outputs [(''arn'', ''string'', True), (''name'', ''string'', False)] [] False),
     builtin ''aws-policy'' ''AWS IAM policy'' Indirect ''aws'' open_inputs
       (outputs [(''arn'', ''string'', True)] [] False)]"

definition builtin_type :: "string \<Rightarrow> resource_type option" where
  "builtin_type i = find (\<lambda>t. rt_id t = i) builtin_types"

section \<open>What a schema declares\<close>

lemma obj_insert_fresh: "k \<notin> fst ` set es \<Longrightarrow> obj_insert k v es = es @ [(k, v)]"
  by (induction es rule: obj_insert.induct [of _ k v, case_names Nil Cons]) auto

lemma fold_obj_insert_distinct:
  "distinct (map f xs) \<Longrightarrow> f ` set xs \<inter> fst ` set es = {} \<Longrightarrow>
   fold (\<lambda>x. obj_insert (f x) (g x)) xs es = es @ map (\<lambda>x. (f x, g x)) xs"
  by (induction xs arbitrary: es) (auto simp: obj_insert_fresh)

lemma section_of_outputs:
  assumes "rt_outputs_schema t = outputs vals secrets open"
  shows "section_of t OValue = as_object (outputs_section open
      (fold (\<lambda>x. obj_insert (fst x) (JObj [(''type'', JStr (fst (snd x)))])) vals [])
      (map fst (filter (\<lambda>v. snd (snd v)) vals)))"
    and "section_of t OSecret = as_object (outputs_section open
      (fold (\<lambda>x. obj_insert (fst x) (JObj [(''type'', JStr ''string'')])) secrets [])
      (map fst (filter snd secrets)))"
  using assms by (simp_all add: section_of_def outputs_def Let_def case_prod_unfold)

lemma map_filter_as_str: "List.map_filter as_str (map JStr xs) = xs"
  by (induction xs) (simp_all add: List.map_filter_simps)

lemma required_outputs_section:
  "required_names [(''type'', a), (''properties'', b), (''required'', JArr (map (JStr \<circ> f) xs)),
     (''additionalProperties'', c)] = bs_of (map f xs)"
  using map_filter_as_str [of "map f xs"] by (simp add: required_names_def)

lemma declared_section:
  assumes "section_of t kind = as_object (outputs_section open
      (fold (\<lambda>x. obj_insert (fst x) (f x)) xs []) (map fst (filter P xs)))"
    and "distinct (map fst xs)"
  shows "declared t kind = map (\<lambda>x. (fst x, f x, P x)) xs"
proof -
  have "fst x \<in> fst ` {y \<in> set xs. P y} \<longleftrightarrow> P x" if "x \<in> set xs" for x
    using that assms(2) by (auto simp: distinct_map inj_on_def)
  then show ?thesis
    using assms by (simp add: declared_def outputs_section_def required_outputs_section
        fold_obj_insert_distinct Let_def)
qed

lemma declared_outputs:
  assumes "rt_outputs_schema t = outputs vals secrets open"
    and "distinct (map fst vals)" "distinct (map fst secrets)"
  shows "declared t OValue = map (\<lambda>(n, ty, r). (n, type_schema ty, r)) vals"
    and "declared t OSecret = map (\<lambda>(n, r). (n, type_schema ''string'', r)) secrets"
  using declared_section [OF section_of_outputs(1) [OF assms(1)] assms(2)]
    declared_section [OF section_of_outputs(2) [OF assms(1)] assms(3)]
  by (simp_all add: type_schema_def case_prod_unfold)

lemma is_open_outputs:
  assumes "rt_outputs_schema t = outputs vals secrets open"
  shows "is_open t kind \<longleftrightarrow> open"
  by (cases kind) (simp_all add: is_open_def section_of_outputs [OF assms] outputs_section_def)

section \<open>What the checks accept\<close>

definition value_ok :: "json_map \<Rightarrow> string list \<Rightarrow> string \<times> json \<times> bool \<Rightarrow> bool" where
  "value_ok vals secrets = (\<lambda>(name, schema, required).
     case map_of vals name of
       Some v \<Rightarrow> (case schema_type schema of None \<Rightarrow> True | Some want \<Rightarrow> json_type_matches want v)
     | None \<Rightarrow> name \<notin> set secrets \<and> \<not> required)"

definition secret_ok :: "json_map \<Rightarrow> string list \<Rightarrow> string \<times> json \<times> bool \<Rightarrow> bool" where
  "secret_ok vals secrets = (\<lambda>(name, _, required).
     map_of vals name = None \<and> (required \<longrightarrow> name \<in> set secrets))"

lemma check_value_Ok [simp]: "check_value self vals secrets d = Ok u \<longleftrightarrow> value_ok vals secrets d"
  by (cases d) (auto simp: check_value_def value_ok_def split: option.splits)

lemma check_secret_Ok [simp]: "check_secret self vals secrets d = Ok u \<longleftrightarrow> secret_ok vals secrets d"
  by (cases d) (auto simp: check_secret_def secret_ok_def)

lemma try_map_unit:
  "(\<exists>us. try_map f xs = Ok us) \<longleftrightarrow> list_all (\<lambda>x. \<exists>u. f x = Ok u) xs"
  by (induction xs) (auto simp: rbind_eq_Inr)

lemma validate_outputs_iff:
  "validate_outputs self vals secrets = Ok () \<longleftrightarrow>
     fst ` set vals \<inter> set secrets = {} \<and>
     list_all (value_ok vals secrets) (declared self OValue) \<and>
     list_all (secret_ok vals secrets) (declared self OSecret)"
proof (cases "find (\<lambda>k. k \<in> set secrets) (map fst vals)")
  case None
  then have "fst ` set vals \<inter> set secrets = {}" by (auto simp: find_None_iff)
  then show ?thesis
    using None try_map_unit [of "check_value self vals secrets" "declared self OValue"]
      try_map_unit [of "check_secret self vals secrets" "declared self OSecret"]
    by (simp add: validate_outputs_def rbind_eq_Inr)
next
  case (Some name)
  then have "name \<in> fst ` set vals \<inter> set secrets" by (auto simp: find_Some_iff)
  with Some show ?thesis by (auto simp: validate_outputs_def)
qed


text \<open>
  C14: No plaintext of a secret passes the check: accepted values hold no output that the type
  declares secret or that the driver also gave as a secret, so what \<open>output_kind\<close> says of an output
  is where it is stored.
\<close>

theorem validated_secrets_not_in_values:
  assumes "validate_outputs self vals secrets = Ok ()" and "map_of vals name = Some v"
  shows "name \<notin> set secrets \<and> output_kind_of self name \<noteq> Some OSecret"
proof -
  have acc: "fst ` set vals \<inter> set secrets = {}" "list_all (secret_ok vals secrets) (declared self OSecret)"
    using assms(1) by (simp_all add: validate_outputs_iff)
  from assms(2) have "name \<in> fst ` set vals" by (metis map_of_SomeD fst_conv image_eqI)
  with acc(1) have "name \<notin> set secrets" by auto
  moreover have "\<not> list_ex (\<lambda>(n, _, _). n = name) (declared self OSecret)"
    using acc(2) assms(2) by (auto simp: list_ex_iff list_all_iff secret_ok_def)
  ultimately show ?thesis by (auto simp: output_kind_of_def)
qed

theorem validated_secrets_not_in_values_witness:
  "validate_outputs (builtin ''redis'' ''Redis'' Direct ''datastore'' open_inputs
       (outputs [(''host'', ''string'', True)] [(''password'', True)] False))
     [(''host'', JStr ''h'')] [''password''] = Ok () \<and> ''host'' \<notin> set [''password'']"
proof -
  let ?t = "builtin ''redis'' ''Redis'' Direct ''datastore'' open_inputs
    (outputs [(''host'', ''string'', True)] [(''password'', True)] False)"
  have sch: "rt_outputs_schema ?t = outputs [(''host'', ''string'', True)] [(''password'', True)] False"
    by (simp add: builtin_def)
  have d: "declared ?t OValue = [(''host'', type_schema ''string'', True)]"
    "declared ?t OSecret = [(''password'', type_schema ''string'', True)]"
    using declared_outputs [OF sch] by simp_all
  have "validate_outputs ?t [(''host'', JStr ''h'')] [''password''] = Ok ()"
    by (simp add: validate_outputs_iff d value_ok_def secret_ok_def schema_type_def type_schema_def
        json_type_matches_def)
  with validated_secrets_not_in_values [OF this, of "''host''"] show ?thesis by simp
qed

section \<open>The built-in types\<close>

text \<open>The IDs satisfy the ID rule, so \<open>builtin\<close> never meets its \<open>expect\<close>.\<close>

definition builtin_names :: "string list" where
  "builtin_names = [''workload'', ''base-env'', ''k8s-cluster'', ''k8s-namespace'',
     ''k8s-service-account'', ''config'', ''dns'', ''route'', ''postgres'', ''postgres-instance'', ''mysql'',
     ''redis'', ''s3'', ''sqs'', ''sns-topic'', ''dynamodb-table'', ''aws-role'', ''aws-policy'']"

lemma rt_id_builtin [simp]:
  "is_resource_type i \<Longrightarrow> rt_id (builtin i name use category ins outs) = i"
  by (simp add: builtin_def ResourceTypeId_new_def)

lemma builtin_names_valid: "list_all is_resource_type builtin_names"
  by code_simp

lemma builtin_types_ids: "map rt_id builtin_types = builtin_names"
  using builtin_names_valid by (simp add: builtin_types_def builtin_names_def)

lemma distinct_builtin_names: "distinct builtin_names"
  by (simp add: builtin_names_def)

text \<open>How the entry of a built-in type is written: its value outputs, secret outputs and openness.\<close>

definition written_outputs ::
  "resource_type \<Rightarrow> (string \<times> string \<times> bool) list \<Rightarrow> (string \<times> bool) list \<Rightarrow> bool \<Rightarrow> bool" where
  "written_outputs t vals secrets open \<longleftrightarrow>
     rt_outputs_schema t = outputs vals secrets open \<and>
     distinct (map fst vals) \<and> distinct (map fst secrets) \<and> fst ` set vals \<inter> fst ` set secrets = {}"

lemma written_builtin:
  "distinct (map fst vals) \<Longrightarrow> distinct (map fst secrets) \<Longrightarrow> fst ` set vals \<inter> fst ` set secrets = {} \<Longrightarrow>
   \<exists>vs ss op. written_outputs (builtin i name use category ins (outputs vals secrets open)) vs ss op"
  unfolding written_outputs_def builtin_def by auto

lemma builtin_written:
  assumes "t \<in> set builtin_types"
  shows "\<exists>vals secrets open. written_outputs t vals secrets open"
proof -
  have "list_all (\<lambda>t. \<exists>vals secrets open. written_outputs t vals secrets open) builtin_types"
    unfolding builtin_types_def db_outputs_def list.pred_inject
    by (intro conjI written_builtin TrueI) simp_all
  with assms show ?thesis by (auto simp: list_all_iff)
qed

lemma find_by_key: "distinct (map f xs) \<Longrightarrow> x \<in> set xs \<Longrightarrow> find (\<lambda>y. f y = f x) xs = Some x"
  by (induction xs) (auto simp: rev_image_eqI)

text \<open>
  C35: The built-in catalog is well-formed: type IDs are valid and distinct, so looking one up by
  its ID gives it back, and every type declares exactly the outputs it is written with, each with
  its type and whether it is required, with no output both a value and a secret.
\<close>

theorem builtin_catalog:
  assumes "t \<in> set builtin_types"
  shows "builtin_type (rt_id t) = Some t \<and> is_resource_type (rt_id t) \<and>
    (\<exists>vals secrets open. written_outputs t vals secrets open \<and>
       declared t OValue = map (\<lambda>(n, ty, r). (n, type_schema ty, r)) vals \<and>
       declared t OSecret = map (\<lambda>(n, r). (n, type_schema ''string'', r)) secrets \<and>
       has_open_outputs t = open \<and>
       (\<forall>n. output_kind_of t n = (if n \<in> fst ` set vals then Some OValue
          else if n \<in> fst ` set secrets then Some OSecret else None)))"
proof (intro conjI)
  have "distinct (map rt_id builtin_types)" by (simp add: builtin_types_ids distinct_builtin_names)
  then show "builtin_type (rt_id t) = Some t"
    using assms unfolding builtin_type_def by (rule find_by_key)
  have "rt_id t \<in> set builtin_names" using assms builtin_types_ids by (metis image_eqI list.set_map)
  then show "is_resource_type (rt_id t)" using builtin_names_valid by (simp add: list_all_iff)
  from builtin_written [OF assms] obtain vals secrets opn where w: "written_outputs t vals secrets opn"
    by blast
  then have d: "declared t OValue = map (\<lambda>(n, ty, r). (n, type_schema ty, r)) vals"
    "declared t OSecret = map (\<lambda>(n, r). (n, type_schema ''string'', r)) secrets"
    "is_open t kind \<longleftrightarrow> opn" for kind
    by (simp_all add: written_outputs_def declared_outputs is_open_outputs)
  have "output_kind_of t n = (if n \<in> fst ` set vals then Some OValue
      else if n \<in> fst ` set secrets then Some OSecret else None)" for n
    by (force simp: output_kind_of_def d list_ex_iff)
  with w d show "\<exists>vals secrets open. written_outputs t vals secrets open \<and>
       declared t OValue = map (\<lambda>(n, ty, r). (n, type_schema ty, r)) vals \<and>
       declared t OSecret = map (\<lambda>(n, r). (n, type_schema ''string'', r)) secrets \<and>
       has_open_outputs t = open \<and>
       (\<forall>n. output_kind_of t n = (if n \<in> fst ` set vals then Some OValue
          else if n \<in> fst ` set secrets then Some OSecret else None))"
    by (auto simp: has_open_outputs_def)
qed

theorem builtin_catalog_witness:
  "builtin_type ''config'' = Some (builtin ''config'' ''Configuration'' Direct ''config'' open_inputs (outputs [] [] True))"
proof -
  let ?t = "builtin ''config'' ''Configuration'' Direct ''config'' open_inputs (outputs [] [] True)"
  have "?t \<in> set builtin_types" by (simp add: builtin_types_def)
  moreover have "rt_id ?t = ''config''" using builtin_names_valid by (simp add: builtin_names_def)
  ultimately show ?thesis using builtin_catalog [of ?t] by simp
qed

end
