(* ===== verification/Redact.thy ===== *)
theory Redact
  imports Btree Rust_Str "HOL-Library.Product_Lexorder"
begin

text \<open>
  The redaction layer (\<open>crates/core/src/redact.rs\<close>): known secret values and their escaped forms
  are replaced in text before it is logged, streamed, persisted or returned. The JSON escaping of a
  string by \<open>serde_json\<close> is the argument \<open>json_string\<close>. The lemmas show that no known form survives
  and that a pass replaces exactly the bytes that belong to an occurrence.
\<close>

section \<open>The redactor\<close>

definition REDACTED :: string where
  "REDACTED = ''[REDACTED]''"

definition PASSES :: nat where
  "PASSES = 8"

type_synonym redactor = "string list"

text \<open>The characters U+2028 and U+2029 in UTF-8.\<close>

definition line_separator :: string where
  "line_separator = [CHR 0xE2, CHR 0x80, CHR 0xA8]"

definition paragraph_separator :: string where
  "paragraph_separator = [CHR 0xE2, CHR 0x80, CHR 0xA9]"

text \<open>The JSON text of a string without its quotes, empty if it has none.\<close>

definition json_inner :: "(string \<Rightarrow> string) \<Rightarrow> string \<Rightarrow> string" where
  "json_inner json_string v =
     (case Option.bind (strip_prefix [CHR 0x22] (json_string v)) (strip_suffix [CHR 0x22]) of
        None \<Rightarrow> [] | Some j \<Rightarrow> j)"

definition go_escape :: "string \<Rightarrow> string" where
  "go_escape json =
     replace_str paragraph_separator (CHR 0x5C # ''u2029'')
       (replace_str line_separator (CHR 0x5C # ''u2028'')
         (replace_str ''&'' (CHR 0x5C # ''u0026'')
           (replace_str ''>'' (CHR 0x5C # ''u003e'') (replace_str ''<'' (CHR 0x5C # ''u003c'') json))))"

definition hcl_escape :: "string \<Rightarrow> string" where
  "hcl_escape s = replace_str ''%{'' ''%%{'' (replace_str ''${'' ''$${'' s)"

definition escaped_forms :: "(string \<Rightarrow> string) \<Rightarrow> string \<Rightarrow> string list" where
  "escaped_forms json_string v =
     (let json = json_inner json_string v; go = go_escape json in
      filter (\<lambda>f. f \<noteq> v) [hcl_escape json, hcl_escape go, json, go])"

text \<open>\<open>sort\<close> and \<open>dedup\<close>: a strictly increasing list.\<close>

definition Redactor_add :: "(string \<Rightarrow> string) \<Rightarrow> string list \<Rightarrow> redactor \<Rightarrow> redactor" where
  "Redactor_add json_string vals self =
     remdups_adj (sort (self @ concat (map (\<lambda>v.
       if v = [] then [] else escaped_forms json_string v @ [v]) vals)))"

definition Redactor_new :: "(string \<Rightarrow> string) \<Rightarrow> string list \<Rightarrow> redactor" where
  "Redactor_new json_string vals = Redactor_add json_string vals []"

definition Redactor_is_empty :: "redactor \<Rightarrow> bool" where
  "Redactor_is_empty self \<longleftrightarrow> self = []"

text \<open>The length of the first character, 1 at the end of the text.\<close>

definition first_char_len :: "string \<Rightarrow> nat" where
  "first_char_len s = (case utf8_chars s of [] \<Rightarrow> 1 | c # _ \<Rightarrow> length c)"

lemma first_char_len_pos: "0 < first_char_len s"
  by (cases s) (simp_all add: first_char_len_def)

text \<open>Every occurrence of a form from a position on; the slice at \<open>from\<close> is in range.\<close>

function occurrences :: "string \<Rightarrow> string \<Rightarrow> nat \<Rightarrow> (nat \<times> nat) list" where
  "occurrences form text from =
     (if length text < from then []
      else
        (case find_str form (drop from text) of
           None \<Rightarrow> []
         | Some i \<Rightarrow>
             let start = from + i in
             (start, start + length form) #
             occurrences form text (start + first_char_len (drop start text))))"
  by pat_completeness auto
termination
proof (relation "measure (\<lambda>(form, text, from). Suc (length text) - from)", goal_cases)
  case (2 f t a i b)
  then show ?case using first_char_len_pos [of "drop b t"] by simp
qed simp

declare occurrences.simps [simp del]

text \<open>The inner loop: ranges that start within the one before are merged into it.\<close>

fun absorb :: "nat \<Rightarrow> (nat \<times> nat) list \<Rightarrow> nat \<times> (nat \<times> nat) list" where
  "absorb stop [] = (stop, [])"
| "absorb stop ((s, e) # rs) = (if s \<le> stop then absorb (max stop e) rs else (stop, (s, e) # rs))"

lemma length_absorb: "length (snd (absorb stop rs)) \<le> length rs"
  by (induction stop rs rule: absorb.induct) (auto simp: le_SucI)

function splice :: "string \<Rightarrow> string \<Rightarrow> nat \<Rightarrow> (nat \<times> nat) list \<Rightarrow> string" where
  "splice text marker at [] = drop at text"
| "splice text marker at ((start, stop) # rs) =
     (let (stop', rest) = absorb stop rs in
      take (start - at) (drop at text) @ marker @ splice text marker stop' rest)"
  by pat_completeness auto
termination
proof (relation "measure (\<lambda>(text, marker, at, rs). length rs)", goal_cases)
  case (2 t marker at start stop rs x xa y)
  then show ?case using length_absorb [of stop rs] by (auto simp: less_Suc_eq_le split: prod.splits)
qed simp

definition Redactor_pass :: "redactor \<Rightarrow> string \<Rightarrow> string \<Rightarrow> string option" where
  "Redactor_pass self text marker =
     (let ranges = concat (map (\<lambda>form. occurrences form text 0) self) in
      if ranges = [] then None else Some (splice text marker 0 (sort ranges)))"

text \<open>The loop over the further passes.\<close>

fun settle :: "redactor \<Rightarrow> string \<Rightarrow> nat \<Rightarrow> string \<Rightarrow> string" where
  "settle self marker 0 out = marker"
| "settle self marker (Suc n) out =
     (case Redactor_pass self out marker of
        Some next \<Rightarrow> settle self marker n next
      | None \<Rightarrow> out)"

definition redaction_marker :: "redactor \<Rightarrow> string" where
  "redaction_marker self = (if list_ex (\<lambda>f. contains_str f REDACTED) self then [] else REDACTED)"

definition redact :: "redactor \<Rightarrow> string \<Rightarrow> string" where
  "redact self text =
     (let marker = redaction_marker self in
      case Redactor_pass self text marker of
        None \<Rightarrow> text
      | Some out \<Rightarrow> settle self marker PASSES out)"

text \<open>\<open>Debug\<close> shows only how many forms are known.\<close>

definition redactor_debug :: "redactor \<Rightarrow> string" where
  "redactor_debug self = ''Redactor('' @ dec (length self) @ '' forms)''"

section \<open>Nothing known survives\<close>

text \<open>What the constructors keep: forms are not empty.\<close>

definition wf_redactor :: "redactor \<Rightarrow> bool" where
  "wf_redactor self \<longleftrightarrow> [] \<notin> set self"

lemma occurrences_Nil: "occurrences form s 0 = [] \<longleftrightarrow> \<not> sublist form s"
  by (subst occurrences.simps) (auto simp: contains_str_iff [symmetric] contains_str_def Let_def
      split: option.splits)

lemma pass_None: "Redactor_pass self s marker = None \<longleftrightarrow> (\<forall>f \<in> set self. \<not> sublist f s)"
  by (simp add: Redactor_pass_def Let_def occurrences_Nil)

lemma marker_clean: "wf_redactor self \<Longrightarrow> f \<in> set self \<Longrightarrow> \<not> sublist f (redaction_marker self)"
  by (auto simp: redaction_marker_def list_ex_iff contains_str_iff wf_redactor_def)

lemma settle_clean:
  "wf_redactor self \<Longrightarrow> f \<in> set self \<Longrightarrow> \<not> sublist f (settle self (redaction_marker self) n out)"
proof (induction n arbitrary: out)
  case 0
  then show ?case by (simp add: marker_clean)
next
  case (Suc n)
  then show ?case by (auto simp: pass_None split: option.splits)
qed

lemma redact_clean: "wf_redactor self \<Longrightarrow> f \<in> set self \<Longrightarrow> \<not> sublist f (redact self s)"
  by (auto simp: redact_def Let_def pass_None settle_clean split: option.splits)

lemma redact_unchanged: "(\<And>f. f \<in> set self \<Longrightarrow> \<not> sublist f s) \<Longrightarrow> redact self s = s"
  using pass_None [of self s "redaction_marker self"] by (simp add: redact_def)

text \<open>Escaping keeps a non-empty value non-empty when the JSON text of a value has the quotes and,
  between them, at least one character per character of the value, as \<open>serde_json\<close> prints it.\<close>

definition json_quotes :: "(string \<Rightarrow> string) \<Rightarrow> bool" where
  "json_quotes json_string \<longleftrightarrow>
     (\<forall>v. v \<noteq> [] \<longrightarrow> (\<exists>inner. inner \<noteq> [] \<and> json_string v = [CHR 0x22] @ inner @ [CHR 0x22]))"

lemma replace_str_nonempty: "s \<noteq> [] \<Longrightarrow> r \<noteq> [] \<Longrightarrow> replace_str p r s \<noteq> []"
  by (cases s) auto

lemma escapes_nonempty: "s \<noteq> [] \<Longrightarrow> go_escape s \<noteq> []" "s \<noteq> [] \<Longrightarrow> hcl_escape s \<noteq> []"
  unfolding go_escape_def hcl_escape_def by (intro replace_str_nonempty; simp)+

lemma escaped_forms_nonempty:
  assumes "json_quotes json_string" "v \<noteq> []" "f \<in> set (escaped_forms json_string v)"
  shows "f \<noteq> []"
proof -
  from assms(1,2) obtain inner where "inner \<noteq> []" "json_string v = [CHR 0x22] @ inner @ [CHR 0x22]"
    unfolding json_quotes_def by blast
  then have "json_inner json_string v \<noteq> []"
    unfolding json_inner_def by (simp only: strip_prefix_append bind.bind_lunit) (simp add: strip_suffix_def)
  then have "list_all (\<lambda>f. f \<noteq> []) (let json = json_inner json_string v; go = go_escape json in
      [hcl_escape json, hcl_escape go, json, go])"
    by (simp add: Let_def escapes_nonempty)
  moreover from assms(3) have "f \<in> set (let json = json_inner json_string v; go = go_escape json in
      [hcl_escape json, hcl_escape go, json, go])"
    by (simp only: escaped_forms_def Let_def set_filter mem_Collect_eq)
  ultimately show ?thesis unfolding list_all_iff by blast
qed

lemma set_add:
  "set (Redactor_add json_string vals self) =
     set self \<union> (\<Union>v \<in> set vals - {[]}. insert v (set (escaped_forms json_string v)))"
  by (auto simp: Redactor_add_def split: if_splits)

lemma wf_redactor_add:
  "json_quotes json_string \<Longrightarrow> wf_redactor self \<Longrightarrow> wf_redactor (Redactor_add json_string vals self)"
  using escaped_forms_nonempty [of json_string] by (auto simp: wf_redactor_def set_add)

lemma wf_redactor_new: "json_quotes json_string \<Longrightarrow> wf_redactor (Redactor_new json_string vals)"
  unfolding Redactor_new_def by (rule wf_redactor_add) (simp_all add: wf_redactor_def)

section \<open>A pass replaces exactly what is known\<close>

text \<open>The reference: every maximal run of covered positions becomes one marker, every other byte
  stays.\<close>

definition covered :: "redactor \<Rightarrow> string \<Rightarrow> nat \<Rightarrow> bool" where
  "covered self s i \<longleftrightarrow> (\<exists>f \<in> set self. \<exists>j. prefix f (drop j s) \<and> j \<le> i \<and> i < j + length f)"

fun mask :: "string \<Rightarrow> (nat \<Rightarrow> bool) \<Rightarrow> bool \<Rightarrow> nat \<Rightarrow> string \<Rightarrow> string" where
  "mask marker C inside i [] = []"
| "mask marker C inside i (c # cs) =
     (if C i then (if inside then [] else marker) @ mask marker C True (Suc i) cs
      else c # mask marker C False (Suc i) cs)"

lemma mask_uncovered:
  "(\<And>k. i \<le> k \<Longrightarrow> k < i + n \<Longrightarrow> \<not> C k) \<Longrightarrow> 0 < n \<Longrightarrow>
   mask marker C b i s = take n s @ mask marker C False (i + n) (drop n s)"
proof (induction n arbitrary: i s b)
  case (Suc n)
  show ?case
  proof (cases s)
    case (Cons c cs)
    with Suc.prems(1) [of i] have "mask marker C b i s = c # mask marker C False (Suc i) cs" by simp
    also have "mask marker C False (Suc i) cs = take n cs @ mask marker C False (Suc i + n) (drop n cs)"
      using Suc.IH [of "Suc i" False cs] Suc.prems(1) by (cases "n = 0") auto
    finally show ?thesis using Cons by simp
  qed simp
qed simp

lemma mask_covered_inside:
  "(\<And>k. i \<le> k \<Longrightarrow> k < i + n \<Longrightarrow> C k) \<Longrightarrow>
   mask marker C True i s = mask marker C True (i + n) (drop n s)"
proof (induction n arbitrary: i s)
  case (Suc n)
  show ?case
  proof (cases s)
    case (Cons c cs)
    with Suc.prems [of i] have "mask marker C True i s = mask marker C True (Suc i) cs" by simp
    also have "\<dots> = mask marker C True (Suc i + n) (drop n cs)"
      using Suc.prems by (intro Suc.IH) auto
    finally show ?thesis using Cons by simp
  qed simp
qed simp

lemma mask_covered:
  assumes "\<And>k. i \<le> k \<Longrightarrow> k < i + n \<Longrightarrow> C k" "0 < n" "s \<noteq> []"
  shows "mask marker C False i s = marker @ mask marker C True (i + n) (drop n s)"
proof -
  obtain c cs where s: "s = c # cs" using assms(3) by (cases s) auto
  have "mask marker C False i s = marker @ mask marker C True (Suc i) cs" using assms(1) [of i] assms(2) s by simp
  also have "mask marker C True (Suc i) cs = mask marker C True (Suc i + (n - 1)) (drop (n - 1) cs)"
    using assms(1) by (intro mask_covered_inside) auto
  finally show ?thesis using assms(2) s by (cases n) simp_all
qed

lemma mask_leave: "(s \<noteq> [] \<Longrightarrow> \<not> C i) \<Longrightarrow> mask marker C b i s = mask marker C False i s"
  by (cases s) auto

lemma mask_cong:
  "(\<And>k. i \<le> k \<Longrightarrow> C k = D k) \<Longrightarrow> mask marker C b i s = mask marker D b i s"
  by (induction s arbitrary: i b) auto

text \<open>Merging: the merged range covers what its ranges cover, and the rest starts after it.\<close>

definition in_ranges :: "(nat \<times> nat) list \<Rightarrow> nat \<Rightarrow> bool" where
  "in_ranges rs i \<longleftrightarrow> (\<exists>(s, e) \<in> set rs. s \<le> i \<and> i < e)"

lemma in_ranges_Cons: "in_ranges ((s, e) # rs) i \<longleftrightarrow> (s \<le> i \<and> i < e) \<or> in_ranges rs i"
  by (simp add: in_ranges_def)

lemma absorb_props:
  "absorb stop rs = (stop', rest) \<Longrightarrow> sorted (map fst rs) \<Longrightarrow> (\<And>r. r \<in> set rs \<Longrightarrow> a \<le> fst r \<and> fst r < snd r) \<Longrightarrow>
   a \<le> stop \<Longrightarrow>
   stop \<le> stop' \<and> (\<forall>i. in_ranges ((a, stop) # rs) i \<longleftrightarrow> (a \<le> i \<and> i < stop') \<or> in_ranges rest i) \<and>
   (\<forall>r \<in> set rest. stop' < fst r) \<and> sorted (map fst rest) \<and> set rest \<subseteq> set rs"
proof (induction stop rs rule: absorb.induct)
  case (2 stop s e rs)
  show ?case
  proof (cases "s \<le> stop")
    case True
    have "in_ranges ((a, stop) # (s, e) # rs) i \<longleftrightarrow> in_ranges ((a, max stop e) # rs) i" for i
      using True 2(4) [of "(s, e)"] by (auto simp: in_ranges_Cons)
    with 2 True show ?thesis by (auto simp: le_max_iff_disj)
  next
    case False
    with 2 show ?thesis by (fastforce simp: in_ranges_Cons)
  qed
qed (auto simp: in_ranges_Cons in_ranges_def)

lemma splice_mask:
  assumes "sorted (map fst rs)" "\<And>r. r \<in> set rs \<Longrightarrow> at \<le> fst r \<and> fst r < snd r \<and> fst r < length t"
  shows "splice t marker at rs = mask marker (in_ranges rs) False at (drop at t)"
  using assms
proof (induction t marker at rs rule: splice.induct)
  case (1 t marker at)
  have "mask marker (\<lambda>_. False) False i s = s" for i s by (induction s arbitrary: i) auto
  then show ?case by (simp add: in_ranges_def)
next
  case (2 t marker at start stop rs)
  obtain stop' rest where ab: "absorb stop rs = (stop', rest)" by (cases "absorb stop rs")
  have st: "at \<le> start" "start < stop" "start < length t" using 2(3) [of "(start, stop)"] by auto
  have p: "stop \<le> stop'" "\<And>i. in_ranges ((start, stop) # rs) i \<longleftrightarrow> (start \<le> i \<and> i < stop') \<or> in_ranges rest i"
    "\<And>r. r \<in> set rest \<Longrightarrow> stop' < fst r" "sorted (map fst rest)" "set rest \<subseteq> set rs"
    using absorb_props [OF ab, of start] 2(2,3) st by auto
  let ?C = "in_ranges ((start, stop) # rs)"
  have low: "\<not> in_ranges rest k" if "k \<le> stop'" for k using p(3) that by (force simp: in_ranges_def)
  have IH: "splice t marker stop' rest = mask marker (in_ranges rest) False stop' (drop stop' t)"
    by (rule "2.IH" [OF refl ab [symmetric]]) (use p 2(3) in \<open>force intro: less_imp_le\<close>)+
  have "mask marker ?C False at (drop at t) =
      take (start - at) (drop at t) @ mask marker ?C False start (drop start t)"
  proof (cases "start = at")
    case False
    have "mask marker ?C False at (drop at t) = take (start - at) (drop at t) @
        mask marker ?C False (at + (start - at)) (drop (start - at) (drop at t))"
      by (rule mask_uncovered) (use False st p(1,2) low in auto)
    with st show ?thesis by simp
  qed simp
  also have "mask marker ?C False start (drop start t) =
      marker @ mask marker ?C True (start + (stop' - start)) (drop (stop' - start) (drop start t))"
    by (rule mask_covered) (use st p(1,2) in auto)
  also have "start + (stop' - start) = stop'" using st p(1) by simp
  also have "drop (stop' - start) (drop start t) = drop stop' t" using st p(1) by simp
  also have "mask marker ?C True stop' (drop stop' t) = mask marker ?C False stop' (drop stop' t)"
    by (rule mask_leave) (simp add: p(2) low)
  also have "\<dots> = mask marker (in_ranges rest) False stop' (drop stop' t)"
    by (rule mask_cong) (simp add: p(2))
  finally show ?case using ab IH by simp
qed

text \<open>Every occurrence is found: the scan advances by a whole character, and a form never starts
  inside one.\<close>

definition starts_char :: "string \<Rightarrow> bool" where
  "starts_char f \<longleftrightarrow> f \<noteq> [] \<and> \<not> is_cont (hd f)"

lemma utf8_starts_char:
  assumes "is_utf8 f" "f \<noteq> []"
  shows "starts_char f"
proof -
  obtain x xs where f: "f = x # xs" using assms(2) by (cases f) auto
  with assms(1) have "valid_char (x # takeWhile is_cont xs)" by (simp add: is_utf8_def)
  then show ?thesis using f by (auto simp: starts_char_def valid_char_def is_cont_def Let_def)
qed

lemma inside_char:
  assumes "starts_char f" "prefix f (drop j s)" "i < j"
  shows "i + first_char_len (drop i s) \<le> j"
proof -
  have j: "j < length s" "\<not> is_cont (s ! j)"
    using assms(1,2) by (auto simp: starts_char_def prefix_def hd_drop_conv_nth neq_Nil_conv)
      (metis append_Cons drop_eq_Nil hd_drop_conv_nth linorder_not_le list.distinct(1) list.sel(1))+
  with assms(3) have s: "drop i s = s ! i # drop (Suc i) s" by (simp add: Cons_nth_drop_Suc)
  have "length (takeWhile is_cont (drop (Suc i) s)) \<le> j - Suc i"
  proof (rule ccontr)
    assume "\<not> ?thesis"
    then have lt: "j - Suc i < length (takeWhile is_cont (drop (Suc i) s))" by simp
    then have "takeWhile is_cont (drop (Suc i) s) ! (j - Suc i) = drop (Suc i) s ! (j - Suc i)"
      by (rule takeWhile_nth)
    with assms(3) j(1) have "takeWhile is_cont (drop (Suc i) s) ! (j - Suc i) = s ! j" by simp
    with lt j(2) show False by (metis nth_mem set_takeWhileD)
  qed
  then show ?thesis using assms(3) s by (simp add: first_char_len_def)
qed

lemma occurrences_exact:
  assumes "starts_char f"
  shows "set (occurrences f s a) = {(i, i + length f) | i. a \<le> i \<and> prefix f (drop i s)}"
  using assms
proof (induction f s a rule: occurrences.induct)
  case (1 f s a)
  show ?case
  proof (cases "length s < a")
    case True
    with 1(2) show ?thesis by (subst occurrences.simps) (auto simp: starts_char_def)
  next
    case False
    show ?thesis
    proof (cases "find_str f (drop a s)")
      case None
      have "\<not> prefix f (drop i s)" if "a \<le> i" for i
        using find_str_None [OF None, of "i - a"] that by simp
      with False None show ?thesis by (subst occurrences.simps) auto
    next
      case (Some i)
      have here: "prefix f (drop (a + i) s)" and first: "\<And>j. a \<le> j \<Longrightarrow> j < a + i \<Longrightarrow> \<not> prefix f (drop j s)"
        using find_str_Some [OF Some] by (auto simp: add.commute) (metis add_diff_inverse_nat diff_less_mono
          drop_drop add.commute le_add_diff_inverse2 not_le nat_add_left_cancel_less)
      let ?n = "a + i + first_char_len (drop (a + i) s)"
      have IH: "set (occurrences f s ?n) = {(k, k + length f) | k. ?n \<le> k \<and> prefix f (drop k s)}"
        by (rule 1(1) [OF False Some refl 1(2)])
      have "(a \<le> k \<and> prefix f (drop k s)) \<longleftrightarrow> k = a + i \<or> (?n \<le> k \<and> prefix f (drop k s))" for k
        using first [of k] here inside_char [OF 1(2), of k s "a + i"] first_char_len_pos [of "drop (a + i) s"]
        by (cases "k < a + i"; cases "k = a + i") auto
      then show ?thesis
        using False Some IH by (subst occurrences.simps) (auto simp: Let_def)
    qed
  qed
qed

lemma pass_mask:
  assumes "\<And>f. f \<in> set self \<Longrightarrow> starts_char f"
  shows "Redactor_pass self s marker =
    (if \<exists>f \<in> set self. sublist f s then Some (mask marker (covered self s) False 0 s) else None)"
proof -
  let ?rs = "concat (map (\<lambda>form. occurrences form s 0) self)"
  have rs: "set ?rs = {(i, i + length f) | i f. f \<in> set self \<and> prefix f (drop i s)}"
    using occurrences_exact [OF assms] by fastforce
  have cov: "in_ranges (sort ?rs) = covered self s"
    unfolding in_ranges_def covered_def fun_eq_iff set_sort rs by fastforce
  have "splice s marker 0 (sort ?rs) = mask marker (in_ranges (sort ?rs)) False 0 (drop 0 s)"
  proof (rule splice_mask)
    show "sorted (map fst (sort ?rs))"
      by (rule sorted_map_mono [OF sorted_sort]) (auto simp: mono_on_def less_eq_prod_def)
    fix r assume "r \<in> set (sort ?rs)"
    then obtain i f where r: "r = (i, i + length f)" "f \<in> set self" "prefix f (drop i s)"
      unfolding set_sort rs by blast
    with assms [OF r(2)] show "0 \<le> fst r \<and> fst r < snd r \<and> fst r < length s"
      by (auto simp: starts_char_def prefix_def) (metis drop_all linorder_not_le append_is_Nil_conv)
  qed
  then show ?thesis using pass_None [of self s marker] by (auto simp: Redactor_pass_def Let_def cov)
qed

section \<open>Properties\<close>

text \<open>
  C7: Redacted text contains no known secret: no value given to the redactor occurs in the result,
  neither as written nor in an escaped form, and redacting again changes nothing. Text that holds no
  known form is returned as it is.
\<close>

theorem redact_hides_values:
  fixes r :: redactor
  assumes "json_quotes json_string" and "r = Redactor_new json_string vals"
  shows "(v \<in> set vals \<longrightarrow> v \<noteq> [] \<longrightarrow>
      list_all (\<lambda>f. \<not> sublist f (redact r s)) (v # escaped_forms json_string v))
    \<and> redact r (redact r s) = redact r s
    \<and> (list_all (\<lambda>f. \<not> sublist f s) r \<longrightarrow> redact r s = s)"
proof -
  have wf: "wf_redactor r" unfolding assms(2) using assms(1) by (rule wf_redactor_new)
  have clean: "\<not> sublist f (redact r s)" if "f \<in> set r" for f using wf that by (rule redact_clean)
  have "v \<in> set vals \<Longrightarrow> v \<noteq> [] \<Longrightarrow> set (v # escaped_forms json_string v) \<subseteq> set r"
    unfolding assms(2) Redactor_new_def set_add by auto
  then show ?thesis
    using clean redact_unchanged [of r "redact r s"] redact_unchanged [of r s]
    by (auto simp: list_all_iff)
qed

definition quote :: "string \<Rightarrow> string" where
  "quote v = [CHR 0x22] @ v @ [CHR 0x22]"

theorem redact_hides_values_witness:
  "\<not> sublist ''hunter2'' (redact (Redactor_new quote [''hunter2'']) ''password=hunter2'')"
proof -
  have "json_quotes quote" by (auto simp: json_quotes_def quote_def)
  from redact_hides_values [OF this refl, of "''hunter2''" "[''hunter2'']" "''password=hunter2''"]
  show ?thesis by (simp del: sublist_code)
qed

text \<open>
  C36: One pass replaces exactly what is known. For forms in UTF-8 it changes the text exactly when
  a form occurs in it, and then each maximal run of bytes that belong to an occurrence, overlapping
  or adjacent ones included, becomes one marker, and every other byte is kept in place.
\<close>

theorem redactor_pass_exact:
  assumes "list_all (\<lambda>f. is_utf8 f \<and> f \<noteq> []) self"
  shows "Redactor_pass self s marker =
    (if list_ex (\<lambda>f. sublist f s) self then Some (mask marker (covered self s) False 0 s) else None)"
  using pass_mask [of self s marker] assms utf8_starts_char by (auto simp: list_all_iff list_ex_iff)

theorem redactor_pass_exact_witness:
  "Redactor_pass [''aba''] ''ababa'' ''*'' = Some ''*''"
proof -
  have "prefix ''aba'' (drop 0 ''ababa'')" "prefix ''aba'' (drop 2 ''ababa'')"
    by (simp_all add: numeral_eq_Suc)
  then have C: "covered [''aba''] ''ababa'' i" if "i < 5" for i
    unfolding covered_def using that by (cases "i < 3") (fastforce simp: numeral_eq_Suc)+
  have "list_ex (\<lambda>f. sublist f ''ababa'') [''aba'']" by (simp add: sublist_Cons_right)
  then show ?thesis
    by (subst redactor_pass_exact) (simp_all add: is_utf8_ascii C)
qed

end
