(* ===== verification/Sets.thy ===== *)
theory Sets
  imports Model Canonical
begin

text \<open>
  Deployment sets, deltas, set IDs and set diffs (\<open>crates/core/src/sets.rs\<close>). What the source
  takes from libraries is an argument: \<open>patch\<close> and \<open>diff\<close> of \<open>json_patch\<close>, deserialization
  (\<open>module_of\<close>, \<open>shared_of\<close>) of \<open>serde\<close>, and the digest with its base64url text. Serialization
  follows the field attributes of the source. The lemmas show the order and the errors of
  \<open>apply_delta\<close>, that applying a diff gives the target, and that the set ID is a function of content.
\<close>

section \<open>Sets\<close>

definition SET_ID_ALGORITHM :: string where
  "SET_ID_ALGORITHM = ''jcs-sha256-base64url-v1''"

record external =
  ex_ty :: string
  ex_class :: string
  ex_id :: "string option"
  ex_params :: "json option"

record module =
  mo_class :: string
  mo_spec :: json_map
  mo_externals :: "(string, external) btree_map"

record shared_resource =
  sh_ty :: string
  sh_class :: string
  sh_params :: "json option"

record deployment_set =
  ds_modules :: "(string, module) btree_map"
  ds_shared :: "(string, shared_resource) btree_map"

definition default_module :: module where
  "default_module = \<lparr>mo_class = default_class, mo_spec = [], mo_externals = []\<rparr>"

definition default_set :: deployment_set where
  "default_set = \<lparr>ds_modules = [], ds_shared = []\<rparr>"

text \<open>Serialization: an optional field is left out when it is \<open>None\<close>.\<close>

definition opt_field :: "string \<Rightarrow> ('a \<Rightarrow> json) \<Rightarrow> 'a option \<Rightarrow> json_map" where
  "opt_field k f x = (case x of None \<Rightarrow> [] | Some v \<Rightarrow> [(k, f v)])"

definition external_value :: "external \<Rightarrow> json" where
  "external_value e = JObj ([(''type'', JStr (ex_ty e)), (''class'', JStr (ex_class e))] @
     opt_field ''id'' JStr (ex_id e) @ opt_field ''params'' id (ex_params e))"

definition module_value :: "module \<Rightarrow> json" where
  "module_value m = JObj [(''class'', JStr (mo_class m)), (''spec'', JObj (mo_spec m)),
     (''externals'', JObj (map (\<lambda>(k, e). (k, external_value e)) (mo_externals m)))]"

definition shared_resource_value :: "shared_resource \<Rightarrow> json" where
  "shared_resource_value s = JObj ([(''type'', JStr (sh_ty s)), (''class'', JStr (sh_class s))] @
     opt_field ''params'' id (sh_params s))"

definition shared_value_of :: "(string, shared_resource) btree_map \<Rightarrow> json" where
  "shared_value_of s = JObj (map (\<lambda>(k, r). (k, shared_resource_value r)) s)"

definition set_value :: "deployment_set \<Rightarrow> json" where
  "set_value s = JObj [(''modules'', JObj (map (\<lambda>(k, m). (k, module_value m)) (ds_modules s))),
     (''shared'', shared_value_of (ds_shared s))]"

definition canonical_json :: "deployment_set \<Rightarrow> string" where
  "canonical_json s = to_canonical_string (set_value s)"

definition DeploymentSet_id :: "(string \<Rightarrow> 'd) \<Rightarrow> ('d \<Rightarrow> string) \<Rightarrow> deployment_set \<Rightarrow> string" where
  "DeploymentSet_id sha256 base64url s = base64url (sha256 (canonical_json s))"

section \<open>Deltas\<close>

record 'op module_changes =
  mc_add :: "(string, module) btree_map"
  mc_remove :: "string list"
  mc_update :: "(string, 'op list) btree_map"

record 'op delta =
  de_modules :: "'op module_changes"
  de_shared :: "'op list"

definition default_delta :: "'op delta" where
  "default_delta = \<lparr>de_modules = \<lparr>mc_add = [], mc_remove = [], mc_update = []\<rparr>, de_shared = []\<rparr>"

definition Delta_is_empty :: "'op delta \<Rightarrow> bool" where
  "Delta_is_empty d \<longleftrightarrow> mc_add (de_modules d) = [] \<and> mc_remove (de_modules d) = [] \<and>
     mc_update (de_modules d) = [] \<and> de_shared d = []"

datatype delta_error =
    RemoveMissing string
  | AddExisting string
  | UpdateMissing string
  | UpdateFailed string string
  | SharedFailed string

fun delta_error_string :: "delta_error \<Rightarrow> string" where
  "delta_error_string (RemoveMissing w) = ''cannot remove workload `'' @ w @ ''`: it is not in the set''"
| "delta_error_string (AddExisting w) = ''cannot add workload `'' @ w @ ''`: it is already in the set''"
| "delta_error_string (UpdateMissing w) = ''cannot update workload `'' @ w @ ''`: it is not in the set''"
| "delta_error_string (UpdateFailed w reason) = ''cannot update workload `'' @ w @ ''`: '' @ reason"
| "delta_error_string (SharedFailed reason) = ''cannot update shared resources: '' @ reason"

type_synonym modules = "(string, module) btree_map"

definition remove_module :: "string \<Rightarrow> modules \<Rightarrow> delta_error + modules" where
  "remove_module i ms = (if map_of ms i = None then Err (RemoveMissing i) else Ok (bt_remove i ms))"

definition add_module :: "string \<times> module \<Rightarrow> modules \<Rightarrow> delta_error + modules" where
  "add_module = (\<lambda>(i, m) ms. if map_of ms i \<noteq> None then Err (AddExisting i) else Ok (bt_insert i m ms))"

definition update_module ::
  "(json \<Rightarrow> 'op list \<Rightarrow> string + json) \<Rightarrow> (json \<Rightarrow> string + module) \<Rightarrow>
   string \<times> 'op list \<Rightarrow> modules \<Rightarrow> delta_error + modules" where
  "update_module patch module_of = (\<lambda>(i, ops) ms.
     rbind (ok_or (UpdateMissing i) (map_of ms i)) (\<lambda>m.
     rbind (map_err (UpdateFailed i) (patch (module_value m) ops)) (\<lambda>doc.
     rbind (map_err (UpdateFailed i) (module_of doc)) (\<lambda>m'. Ok (bt_modify i (\<lambda>_. m') ms)))))"

definition update_shared ::
  "(json \<Rightarrow> 'op list \<Rightarrow> string + json) \<Rightarrow> (json \<Rightarrow> string + (string, shared_resource) btree_map) \<Rightarrow>
   'op list \<Rightarrow> (string, shared_resource) btree_map \<Rightarrow>
   delta_error + (string, shared_resource) btree_map" where
  "update_shared patch shared_of ops s =
     (if ops = [] then Ok s
      else rbind (map_err SharedFailed (patch (shared_value_of s) ops)) (\<lambda>doc.
        map_err SharedFailed (shared_of doc)))"

definition apply_delta ::
  "(json \<Rightarrow> 'op list \<Rightarrow> string + json) \<Rightarrow> (json \<Rightarrow> string + module) \<Rightarrow>
   (json \<Rightarrow> string + (string, shared_resource) btree_map) \<Rightarrow> deployment_set \<Rightarrow> 'op delta \<Rightarrow>
   delta_error + deployment_set" where
  "apply_delta patch module_of shared_of s d =
     rbind (try_fold remove_module (mc_remove (de_modules d)) (ds_modules s)) (\<lambda>ms.
     rbind (try_fold add_module (mc_add (de_modules d)) ms) (\<lambda>ms.
     rbind (try_fold (update_module patch module_of) (mc_update (de_modules d)) ms) (\<lambda>ms.
     rbind (update_shared patch shared_of (de_shared d) (ds_shared s)) (\<lambda>sh.
       Ok \<lparr>ds_modules = ms, ds_shared = sh\<rparr>))))"

definition workload_delta ::
  "(json \<Rightarrow> json \<Rightarrow> 'op list) \<Rightarrow> deployment_set \<Rightarrow> string \<Rightarrow> module \<Rightarrow> 'op delta" where
  "workload_delta diff s i m =
     (case map_of (ds_modules s) i of
        None \<Rightarrow> default_delta\<lparr>de_modules := \<lparr>mc_add = bt_insert i m [], mc_remove = [], mc_update = []\<rparr>\<rparr>
      | Some old \<Rightarrow>
          default_delta\<lparr>de_modules := \<lparr>mc_add = [], mc_remove = [],
            mc_update = bt_insert i (diff (module_value old) (module_value m)) []\<rparr>\<rparr>)"

text \<open>The derived equality compares objects regardless of the order of their entries.\<close>

definition option_eq :: "('a \<Rightarrow> 'a \<Rightarrow> bool) \<Rightarrow> 'a option \<Rightarrow> 'a option \<Rightarrow> bool" where
  "option_eq eq x y = (case (x, y) of (None, None) \<Rightarrow> True | (Some a, Some b) \<Rightarrow> eq a b | _ \<Rightarrow> False)"

definition external_eq :: "external \<Rightarrow> external \<Rightarrow> bool" where
  "external_eq a b \<longleftrightarrow> ex_ty a = ex_ty b \<and> ex_class a = ex_class b \<and> ex_id a = ex_id b \<and>
     option_eq json_eq (ex_params a) (ex_params b)"

definition btree_eq :: "('a \<Rightarrow> 'a \<Rightarrow> bool) \<Rightarrow> (string, 'a) btree_map \<Rightarrow> (string, 'a) btree_map \<Rightarrow> bool" where
  "btree_eq eq a b \<longleftrightarrow> list_all2 (\<lambda>(k, x) (l, y). k = l \<and> eq x y) a b"

definition module_eq :: "module \<Rightarrow> module \<Rightarrow> bool" where
  "module_eq a b \<longleftrightarrow> mo_class a = mo_class b \<and> json_eq (JObj (mo_spec a)) (JObj (mo_spec b)) \<and>
     btree_eq external_eq (mo_externals a) (mo_externals b)"

definition shared_resource_eq :: "shared_resource \<Rightarrow> shared_resource \<Rightarrow> bool" where
  "shared_resource_eq a b \<longleftrightarrow> sh_ty a = sh_ty b \<and> sh_class a = sh_class b \<and>
     option_eq json_eq (sh_params a) (sh_params b)"

definition set_eq :: "deployment_set \<Rightarrow> deployment_set \<Rightarrow> bool" where
  "set_eq a b \<longleftrightarrow> btree_eq module_eq (ds_modules a) (ds_modules b) \<and>
     btree_eq shared_resource_eq (ds_shared a) (ds_shared b)"

text \<open>One turn of the second loop of \<open>diff_sets\<close>: the additions and updates so far.\<close>

definition diff_module ::
  "(json \<Rightarrow> json \<Rightarrow> 'op list) \<Rightarrow> modules \<Rightarrow> string \<times> module \<Rightarrow>
   modules \<times> (string, 'op list) btree_map \<Rightarrow> modules \<times> (string, 'op list) btree_map" where
  "diff_module diff old = (\<lambda>(i, m) (add, update).
     case map_of old i of
       None \<Rightarrow> (bt_insert i m add, update)
     | Some o' \<Rightarrow>
         if \<not> module_eq o' m then (add, bt_insert i (diff (module_value o') (module_value m)) update)
         else (add, update))"

definition diff_sets ::
  "(json \<Rightarrow> json \<Rightarrow> 'op list) \<Rightarrow> deployment_set \<Rightarrow> deployment_set \<Rightarrow> 'op delta" where
  "diff_sets diff a b =
     (let remove = filter (\<lambda>i. map_of (ds_modules b) i = None) (map fst (ds_modules a));
          (add, update) = fold (diff_module diff (ds_modules a)) (ds_modules b) ([], []);
          shared = (if \<not> btree_eq shared_resource_eq (ds_shared a) (ds_shared b)
                    then diff (shared_value_of (ds_shared a)) (shared_value_of (ds_shared b)) else []) in
      \<lparr>de_modules = \<lparr>mc_add = add, mc_remove = remove, mc_update = update\<rparr>, de_shared = shared\<rparr>)"

section \<open>Applying the steps of a delta\<close>

lemma step_simps:
  "map_of ms i = Some m \<Longrightarrow> remove_module i ms = Ok (bt_remove i ms)"
  "map_of ms i = None \<Longrightarrow> add_module (i, n) ms = Ok (bt_insert i n ms)"
  "map_of ms i = Some m \<Longrightarrow> patch (module_value m) ops = Ok doc \<Longrightarrow> module_of doc = Ok m' \<Longrightarrow>
     update_module patch module_of (i, ops) ms = Ok (bt_modify i (\<lambda>_. m') ms)"
  "map_of old i = None \<Longrightarrow> diff_module diff old (i, n) (add, upd) = (bt_insert i n add, upd)"
  "map_of old i = Some m \<Longrightarrow> diff_module diff old (i, n) (add, upd) = (add, if module_eq m n then upd
     else bt_insert i (diff (module_value m) (module_value n)) upd)"
  by (simp_all add: remove_module_def add_module_def update_module_def diff_module_def)

lemma remove_all:
  assumes "bt_invar ms" "distinct ids" "set ids \<subseteq> dom (map_of ms)"
  shows "\<exists>ms'. try_fold remove_module ids ms = Ok ms' \<and> bt_invar ms' \<and>
    map_of ms' = (\<lambda>i. if i \<in> set ids then None else map_of ms i)"
  using assms
proof (induction ids arbitrary: ms)
  case (Cons i ids)
  then have i: "map_of ms i \<noteq> None" by auto
  have "\<exists>ms'. try_fold remove_module ids (bt_remove i ms) = Ok ms' \<and> bt_invar ms' \<and>
      map_of ms' = (\<lambda>j. if j \<in> set ids then None else map_of (bt_remove i ms) j)"
    using Cons.prems by (intro Cons.IH) (auto simp: bt_invar_remove map_of_bt_remove)
  with i show ?case by (auto simp: step_simps map_of_bt_remove fun_eq_iff)
qed simp

lemma add_all:
  assumes "bt_invar ms" "distinct (map fst new)" "fst ` set new \<inter> dom (map_of ms) = {}"
  shows "\<exists>ms'. try_fold add_module new ms = Ok ms' \<and> bt_invar ms' \<and> map_of ms' = map_of ms ++ map_of new"
  using assms
proof (induction new arbitrary: ms)
  case (Cons e new)
  obtain i m where e: "e = (i, m)" by (cases e)
  from Cons.prems e have i: "map_of ms i = None" "i \<notin> fst ` set new" by (auto simp: dom_def)
  have "\<exists>ms'. try_fold add_module new (bt_insert i m ms) = Ok ms' \<and> bt_invar ms' \<and>
      map_of ms' = map_of (bt_insert i m ms) ++ map_of new"
  proof (rule Cons.IH)
    show "bt_invar (bt_insert i m ms)" "distinct (map fst new)"
      using Cons.prems(1,2) by (simp_all add: bt_invar_insert)
    show "fst ` set new \<inter> dom (map_of (bt_insert i m ms)) = {}"
      using Cons.prems(1,3) e i by (simp add: map_of_bt_insert)
  qed
  moreover have "map_of (bt_insert i m ms) ++ map_of new = map_of ms ++ map_of (e # new)"
  proof -
    have "map_of new i = None" using i(2) by (simp add: map_of_eq_None_iff)
    then show ?thesis using Cons.prems(1)
      by (auto simp: e map_of_bt_insert map_add_def fun_eq_iff split: option.splits)
  qed
  ultimately show ?case using i(1) by (simp add: e step_simps del: map_of.simps)
qed simp

lemma update_all:
  assumes "bt_invar ms" "distinct (map fst upd)"
    and "\<And>i ops. (i, ops) \<in> set upd \<Longrightarrow> \<exists>m doc m'. map_of ms i = Some m \<and>
      patch (module_value m) ops = Ok doc \<and> module_of doc = Ok m' \<and> R i m'"
  shows "\<exists>ms'. try_fold (update_module patch module_of) upd ms = Ok ms' \<and> bt_invar ms' \<and>
    (\<forall>i. i \<in> fst ` set upd \<longrightarrow> (\<exists>m'. map_of ms' i = Some m' \<and> R i m')) \<and>
    (\<forall>i. i \<notin> fst ` set upd \<longrightarrow> map_of ms' i = map_of ms i)"
  using assms
proof (induction upd arbitrary: ms)
  case (Cons e upd)
  obtain i ops where e: "e = (i, ops)" by (cases e)
  from Cons.prems(3) [of i ops] e obtain m doc m' where m: "map_of ms i = Some m"
    "patch (module_value m) ops = Ok doc" "module_of doc = Ok m'" "R i m'" by auto
  let ?ms = "bt_modify i (\<lambda>_. m') ms"
  have look: "map_of ?ms j = (if j = i then Some m' else map_of ms j)" for j
    using m(1) by (auto simp: map_of_bt_modify)
  have "\<exists>ms'. try_fold (update_module patch module_of) upd ?ms = Ok ms' \<and> bt_invar ms' \<and>
      (\<forall>j. j \<in> fst ` set upd \<longrightarrow> (\<exists>m'. map_of ms' j = Some m' \<and> R j m')) \<and>
      (\<forall>j. j \<notin> fst ` set upd \<longrightarrow> map_of ms' j = map_of ?ms j)"
  proof (rule Cons.IH)
    fix j ops' assume j: "(j, ops') \<in> set upd"
    with Cons.prems(2) e have "j \<noteq> i" by force
    with j Cons.prems(3) [of j ops'] look show "\<exists>m doc m'. map_of ?ms j = Some m \<and>
      patch (module_value m) ops' = Ok doc \<and> module_of doc = Ok m' \<and> R j m'" by auto
  qed (use Cons.prems in auto)
  moreover have "i \<notin> fst ` set upd" using Cons.prems(2) e by simp
  ultimately show ?case using m look by (auto simp: e step_simps)
qed simp

section \<open>What a diff holds\<close>

lemma diff_modules:
  assumes "bt_invar new"
  shows "\<exists>add upd. fold (diff_module diff old) new ([], []) = (add, upd) \<and> bt_invar add \<and> bt_invar upd \<and>
    map_of add = (\<lambda>i. if map_of old i = None then map_of new i else None) \<and>
    map_of upd = (\<lambda>i. case (map_of old i, map_of new i) of
       (Some o', Some m) \<Rightarrow> if module_eq o' m then None else Some (diff (module_value o') (module_value m))
     | _ \<Rightarrow> None)"
  using assms
proof (induction new rule: rev_induct)
  case Nil
  show ?case by (auto split: option.splits)
next
  case (snoc e new)
  obtain i m where e: "e = (i, m)" by (cases e)
  from snoc.prems have inv: "bt_invar new" and i: "i \<notin> fst ` set new"
    by (auto simp: bt_invar_def sorted_wrt_append e)
  have new: "map_of new i = None" using i by (simp add: map_of_eq_None_iff)
  have look: "map_of (new @ [e]) j = (if j = i then Some m else map_of new j)" for j
    using new by (simp add: e map_add_def split: option.splits)
  from snoc.IH [OF inv] obtain add upd where IH: "fold (diff_module diff old) new ([], []) = (add, upd)"
    "bt_invar add" "bt_invar upd"
    "map_of add = (\<lambda>i. if map_of old i = None then map_of new i else None)"
    "map_of upd = (\<lambda>i. case (map_of old i, map_of new i) of
       (Some o', Some m) \<Rightarrow> if module_eq o' m then None else Some (diff (module_value o') (module_value m))
     | _ \<Rightarrow> None)" by blast
  show ?case
  proof (cases "map_of old i")
    case None
    then have "fold (diff_module diff old) (new @ [e]) ([], []) = (bt_insert i m add, upd)"
      by (simp add: IH(1) e step_simps)
    with None IH new show ?thesis
      by (auto simp: bt_invar_insert map_of_bt_insert look fun_eq_iff simp del: map_of_append
          split: option.splits)
  next
    case (Some o')
    then have "fold (diff_module diff old) (new @ [e]) ([], []) = (add, if module_eq o' m then upd
        else bt_insert i (diff (module_value o') (module_value m)) upd)"
      by (simp add: IH(1) e step_simps)
    with Some IH new show ?thesis
      by (auto simp: bt_invar_insert map_of_bt_insert look fun_eq_iff simp del: map_of_append
          split: option.splits)
  qed
qed

section \<open>Laws of the libraries\<close>

text \<open>What the documentation of \<open>json_patch\<close> and \<open>serde\<close> promises: the patch made by \<open>diff\<close> takes the
  first document to the second and is empty only for equal documents; a document equal to a
  serialized value reads back as an equal value.\<close>

definition patch_laws :: "(json \<Rightarrow> 'op list \<Rightarrow> string + json) \<Rightarrow> (json \<Rightarrow> json \<Rightarrow> 'op list) \<Rightarrow> bool" where
  "patch_laws patch diff \<longleftrightarrow>
     (\<forall>x y. \<exists>z. patch x (diff x y) = Ok z \<and> json_eq z y) \<and> (\<forall>x y. diff x y = [] \<longrightarrow> json_eq x y)"

definition reads_back :: "(json \<Rightarrow> string + 'a) \<Rightarrow> ('a \<Rightarrow> json) \<Rightarrow> ('a \<Rightarrow> 'a \<Rightarrow> bool) \<Rightarrow> 'a \<Rightarrow> bool" where
  "reads_back of_value to_value eq x \<longleftrightarrow>
     (\<forall>v. json_eq v (to_value x) \<longrightarrow> (\<exists>x'. of_value v = Ok x' \<and> eq x' x))"

definition wf_set :: "deployment_set \<Rightarrow> bool" where
  "wf_set s \<longleftrightarrow> bt_invar (ds_modules s) \<and> bt_invar (ds_shared s)"

lemma btree_eq_refl: "(\<And>k x. (k, x) \<in> set m \<Longrightarrow> eq x x) \<Longrightarrow> btree_eq eq m m"
  by (auto simp: btree_eq_def intro!: list.rel_refl_strong)

lemma module_eq_refl [simp]: "module_eq m m"
  by (simp add: module_eq_def external_eq_def option_eq_def btree_eq_refl split: option.splits)

lemma shared_resource_value_eq:
  "json_eq (shared_resource_value a) (shared_resource_value b) \<Longrightarrow> shared_resource_eq a b"
  by (auto simp: shared_resource_value_def shared_resource_eq_def opt_field_def option_eq_def
      split: option.splits)

lemma shared_value_eq:
  assumes "bt_invar a" "bt_invar b" "json_eq (shared_value_of a) (shared_value_of b)"
  shows "btree_eq shared_resource_eq a b"
proof -
  have len: "length a = length b" and ex: "\<And>k x. (k, x) \<in> set a \<Longrightarrow>
      \<exists>y. (k, y) \<in> set b \<and> json_eq (shared_resource_value x) (shared_resource_value y)"
    using assms(3) by (fastforce simp: shared_value_of_def list_all_iff list_ex_iff)+
  have da: "distinct (map fst a)" "distinct (map fst b)"
    using assms(1,2) by (simp_all add: bt.distinct_keys)
  have keys: "fst ` set a = fst ` set b"
  proof (rule same_keys [OF da len])
    show "fst ` set a \<subseteq> fst ` set b"
    proof
      fix k assume "k \<in> fst ` set a"
      then obtain x where "(k, x) \<in> set a" by auto
      with ex obtain y where "(k, y) \<in> set b" by blast
      then show "k \<in> fst ` set b" by (rule image_eqI [rotated]) simp
    qed
  qed
  have "rel_option shared_resource_eq (map_of a k) (map_of b k)" for k
  proof (cases "map_of a k")
    case None
    then have "map_of b k = None" using keys by (metis map_of_eq_None_iff)
    with None show ?thesis by simp
  next
    case (Some x)
    then obtain y where "(k, y) \<in> set b" "json_eq (shared_resource_value x) (shared_resource_value y)"
      using ex [of k x] assms(1) by (auto simp: bt_map_of_iff)
    with Some assms(2) show ?thesis by (simp add: bt_map_of_iff [THEN iffD2] shared_resource_value_eq)
  qed
  from bt_rel [OF assms(1,2) this] show ?thesis by (simp add: btree_eq_def case_prod_unfold)
qed

lemma apply_modules_of_diff:
  assumes laws: "patch_laws patch diff" and a: "bt_invar a" and b: "bt_invar b"
    and readb: "\<And>i m. (i, m) \<in> set b \<Longrightarrow> reads_back module_of module_value module_eq m"
    and d: "fold (diff_module diff a) b ([], []) = (add, upd)"
    and rem: "rem = filter (\<lambda>i. map_of b i = None) (map fst a)"
  shows "\<exists>ms. rbind (try_fold remove_module rem a) (\<lambda>ms. rbind (try_fold add_module add ms)
      (try_fold (update_module patch module_of) upd)) = Ok ms \<and> bt_invar ms \<and>
      (\<forall>i. rel_option module_eq (map_of ms i) (map_of b i))"
proof -
  from diff_modules [OF b, of diff a] d have new: "bt_invar add"
      "map_of add = (\<lambda>i. if map_of a i = None then map_of b i else None)"
    and upd: "bt_invar upd" "map_of upd = (\<lambda>i. case (map_of a i, map_of b i) of
       (Some o', Some m) \<Rightarrow> if module_eq o' m then None else Some (diff (module_value o') (module_value m))
     | _ \<Rightarrow> None)" by auto
  have mem: "i \<in> fst ` set xs \<longleftrightarrow> map_of xs i \<noteq> None" for i and xs :: "(string \<times> 'z) list"
    by (simp add: map_of_eq_None_iff)
  have rems: "i \<in> set rem \<longleftrightarrow> map_of a i \<noteq> None \<and> map_of b i = None" for i
    using mem [of i a] by (auto simp: rem)
  have "\<exists>m1. try_fold remove_module rem a = Ok m1 \<and> bt_invar m1 \<and>
      map_of m1 = (\<lambda>i. if i \<in> set rem then None else map_of a i)"
  proof (rule remove_all [OF a])
    show "distinct rem" using a by (simp add: rem bt.distinct_keys)
    show "set rem \<subseteq> dom (map_of a)" using rems by blast
  qed
  then obtain m1 where m1: "try_fold remove_module rem a = Ok m1" "bt_invar m1"
    "map_of m1 = (\<lambda>i. if i \<in> set rem then None else map_of a i)" by blast
  have "\<exists>m2. try_fold add_module add m1 = Ok m2 \<and> bt_invar m2 \<and> map_of m2 = map_of m1 ++ map_of add"
  proof (rule add_all [OF m1(2)])
    show "distinct (map fst add)" using new(1) by (simp add: bt.distinct_keys)
    have "map_of m1 i = None" if "i \<in> fst ` set add" for i
    proof -
      from that have "map_of add i \<noteq> None" by (simp only: mem simp_thms)
      then have "map_of a i = None" unfolding fun_cong [OF new(2)] by presburger
      then show ?thesis unfolding fun_cong [OF m1(3)] by presburger
    qed
    then show "fst ` set add \<inter> dom (map_of m1) = {}" unfolding disjoint_iff domIff by metis
  qed
  then obtain m2 where m2: "try_fold add_module add m1 = Ok m2" "bt_invar m2"
    "map_of m2 = map_of m1 ++ map_of add" by blast
  have look: "map_of m2 i = (if map_of b i = None then None else
      case map_of a i of None \<Rightarrow> map_of b i | Some o' \<Rightarrow> Some o')" for i
    by (simp add: m2(3) m1(3) new(2) rems map_add_def split: option.splits)
  have "\<exists>m3. try_fold (update_module patch module_of) upd m2 = Ok m3 \<and> bt_invar m3 \<and>
    (\<forall>i. i \<in> fst ` set upd \<longrightarrow> (\<exists>m'. map_of m3 i = Some m' \<and> (\<exists>m. map_of b i = Some m \<and> module_eq m' m))) \<and>
    (\<forall>i. i \<notin> fst ` set upd \<longrightarrow> map_of m3 i = map_of m2 i)"
  proof (rule update_all [OF m2(2)])
    show "distinct (map fst upd)" using upd(1) by (simp add: bt.distinct_keys)
    fix i ops assume "(i, ops) \<in> set upd"
    then have "map_of upd i = Some ops" using upd(1) by (simp add: bt_map_of_iff)
    then obtain o' m where om: "map_of a i = Some o'" "map_of b i = Some m" "\<not> module_eq o' m"
      "ops = diff (module_value o') (module_value m)" by (auto simp: upd(2) split: option.splits if_splits)
    from laws obtain z where z: "patch (module_value o') ops = Ok z" "json_eq z (module_value m)"
      unfolding patch_laws_def om(4) by blast
    from readb [of i m] om(2) b z(2) obtain m' where "module_of z = Ok m'" "module_eq m' m"
      by (auto simp: reads_back_def bt_map_of_iff)
    moreover have "map_of m2 i = Some o'" by (simp add: look om(1,2))
    ultimately show "\<exists>m doc m'. map_of m2 i = Some m \<and> patch (module_value m) ops = Ok doc \<and>
        module_of doc = Ok m' \<and> (\<exists>m. map_of b i = Some m \<and> module_eq m' m)"
      using z(1) om(2) by blast
  qed
  then obtain m3 where m3: "try_fold (update_module patch module_of) upd m2 = Ok m3" "bt_invar m3"
    "\<forall>i. i \<in> fst ` set upd \<longrightarrow> (\<exists>m'. map_of m3 i = Some m' \<and> (\<exists>m. map_of b i = Some m \<and> module_eq m' m))"
    "\<forall>i. i \<notin> fst ` set upd \<longrightarrow> map_of m3 i = map_of m2 i" by (elim exE conjE)
  have "rel_option module_eq (map_of m3 i) (map_of b i)" for i
  proof (cases "i \<in> fst ` set upd")
    case True
    with m3(3) show ?thesis by fastforce
  next
    case False
    then have none: "map_of upd i = None" by (simp add: map_of_eq_None_iff)
    from m3(4) False have "map_of m3 i = map_of m2 i" by (elim allE impE)
    then show ?thesis using none look [of i]
      by (cases "map_of a i"; cases "map_of b i") (simp_all add: upd(2) split: if_splits)
  qed
  note rel = this
  show ?thesis
  proof (intro exI conjI)
    show "rbind (try_fold remove_module rem a) (\<lambda>ms. rbind (try_fold add_module add ms)
      (try_fold (update_module patch module_of) upd)) = Ok m3" by (simp only: m1(1) m2(1) m3(1) rbind_simps)
  qed (use rel m3(2) in auto)
qed

lemma apply_diff_sets:
  assumes laws: "patch_laws patch diff" and wf: "wf_set a" "wf_set b"
    and ms: "\<And>i m. (i, m) \<in> set (ds_modules b) \<Longrightarrow> reads_back module_of module_value module_eq m"
    and sh: "reads_back shared_of shared_value_of (btree_eq shared_resource_eq) (ds_shared b)"
  shows "\<exists>c. apply_delta patch module_of shared_of a (diff_sets diff a b) = Ok c \<and> set_eq c b"
proof -
  let ?a = "ds_shared a" and ?b = "ds_shared b"
  let ?rem = "filter (\<lambda>i. map_of (ds_modules b) i = None) (map fst (ds_modules a))"
  obtain add upd where d: "fold (diff_module diff (ds_modules a)) (ds_modules b) ([], []) = (add, upd)"
    by (cases "fold (diff_module diff (ds_modules a)) (ds_modules b) ([], [])")
  from wf have inv: "bt_invar (ds_modules a)" "bt_invar (ds_modules b)" by (simp_all add: wf_set_def)
  from apply_modules_of_diff [OF laws inv _ d refl] ms obtain c where c:
    "rbind (try_fold remove_module ?rem (ds_modules a)) (\<lambda>ms. rbind (try_fold add_module add ms)
      (try_fold (update_module patch module_of) upd)) = Ok c" "bt_invar c"
    "\<forall>i. rel_option module_eq (map_of c i) (map_of (ds_modules b) i)" by blast
  define ops where "ops = (if \<not> btree_eq shared_resource_eq ?a ?b
    then diff (shared_value_of ?a) (shared_value_of ?b) else [])"
  have "\<exists>s. update_shared patch shared_of ops ?a = Ok s \<and> btree_eq shared_resource_eq s ?b"
  proof (cases "ops = []")
    case True
    then have "btree_eq shared_resource_eq ?a ?b"
      using laws shared_value_eq wf unfolding ops_def patch_laws_def wf_set_def by (metis (full_types))
    with True show ?thesis by (simp add: update_shared_def)
  next
    case False
    then have "ops = diff (shared_value_of ?a) (shared_value_of ?b)" by (simp add: ops_def split: if_splits)
    with laws obtain z where z: "patch (shared_value_of ?a) ops = Ok z" "json_eq z (shared_value_of ?b)"
      unfolding patch_laws_def by blast
    with sh obtain s where "shared_of z = Ok s" "btree_eq shared_resource_eq s ?b"
      unfolding reads_back_def by blast
    with False z(1) show ?thesis by (simp add: update_shared_def)
  qed
  then obtain s where s: "update_shared patch shared_of ops ?a = Ok s" "btree_eq shared_resource_eq s ?b"
    by blast
  have "btree_eq module_eq c (ds_modules b)"
    using bt_rel [OF c(2), of "ds_modules b" module_eq] c(3) wf(2)
    by (simp add: btree_eq_def wf_set_def case_prod_unfold)
  moreover have "apply_delta patch module_of shared_of a (diff_sets diff a b) =
      Ok \<lparr>ds_modules = c, ds_shared = s\<rparr>"
    using c(1) s(1)
    by (simp add: apply_delta_def diff_sets_def d ops_def [symmetric] rbind_assoc [symmetric])
  ultimately show ?thesis using s(2) by (simp add: set_eq_def)
qed

section \<open>Errors of a delta\<close>

lemma remove_missing:
  "bt_invar ms \<Longrightarrow> \<not> (distinct ids \<and> set ids \<subseteq> dom (map_of ms)) \<Longrightarrow>
   \<exists>w \<in> set ids. try_fold remove_module ids ms = Err (RemoveMissing w)"
proof (induction ids arbitrary: ms)
  case (Cons i ids)
  show ?case
  proof (cases "map_of ms i")
    case None
    then show ?thesis by (simp add: remove_module_def)
  next
    case (Some m)
    have "\<not> (distinct ids \<and> set ids \<subseteq> dom (map_of (bt_remove i ms)))"
      using Cons.prems Some by (auto simp: map_of_bt_remove dom_def split: if_splits)
    with Cons.IH [of "bt_remove i ms"] Cons.prems(1) Some show ?thesis
      by (auto simp: step_simps(1) bt_invar_remove)
  qed
qed simp

lemma add_existing:
  "bt_invar ms \<Longrightarrow> distinct (map fst new) \<Longrightarrow> fst ` set new \<inter> dom (map_of ms) \<noteq> {} \<Longrightarrow>
   \<exists>w \<in> fst ` set new. try_fold add_module new ms = Err (AddExisting w)"
proof (induction new arbitrary: ms)
  case (Cons e new)
  obtain i m where e: "e = (i, m)" by (cases e)
  show ?case
  proof (cases "map_of ms i")
    case None
    have "fst ` set new \<inter> dom (map_of (bt_insert i m ms)) \<noteq> {}"
      using Cons.prems None by (auto simp: e map_of_bt_insert dom_def split: if_splits)
    with Cons.IH [of "bt_insert i m ms"] Cons.prems(1,2) None show ?thesis
      by (auto simp: e step_simps(2) bt_invar_insert)
  next
    case (Some m')
    then show ?thesis by (simp add: e add_module_def)
  qed
qed simp

lemma update_module_ok:
  "update_module patch module_of (i, ops) ms = Ok ms' \<Longrightarrow> \<exists>m'. map_of ms i \<noteq> None \<and> ms' = bt_modify i (\<lambda>_. m') ms"
  by (auto simp: update_module_def rbind_eq_Inr)

lemma update_effect:
  "bt_invar ms \<Longrightarrow> try_fold (update_module patch module_of) upd ms = Ok ms' \<Longrightarrow>
   bt_invar ms' \<and> fst ` set upd \<subseteq> dom (map_of ms) \<and> dom (map_of ms') = dom (map_of ms) \<and>
   (\<forall>i. i \<notin> fst ` set upd \<longrightarrow> map_of ms' i = map_of ms i)"
proof (induction upd arbitrary: ms)
  case (Cons e upd)
  obtain i ops where e: "e = (i, ops)" by (cases e)
  from Cons.prems(2) obtain m1 where m1: "update_module patch module_of (i, ops) ms = Ok m1"
    "try_fold (update_module patch module_of) upd m1 = Ok ms'" by (auto simp: e rbind_eq_Inr)
  from update_module_ok [OF m1(1)] obtain m' where i: "map_of ms i \<noteq> None" "m1 = bt_modify i (\<lambda>_. m') ms"
    by blast
  have inv: "bt_invar m1" using Cons.prems(1) i(2) by (simp add: bt_invar_modify)
  have dm: "dom (map_of m1) = dom (map_of ms)" using i by (auto simp: map_of_bt_modify dom_def split: if_splits)
  have other: "j \<noteq> i \<Longrightarrow> map_of m1 j = map_of ms j" for j by (simp add: i(2) map_of_bt_modify)
  from Cons.IH [OF inv m1(2)] i(1) show ?case unfolding dm by (auto simp: e other)
qed simp

lemma update_errors:
  "try_fold (update_module patch module_of) upd ms = Err e \<Longrightarrow>
   (\<exists>w. e = UpdateMissing w) \<or> (\<exists>w r. e = UpdateFailed w r)"
proof (induction upd arbitrary: ms)
  case (Cons u upd)
  then show ?case
    by (cases u) (auto simp: rbind_eq_Inl update_module_def map_err_eq_Inl ok_or_eq_Inl)
qed simp

lemma modules_after:
  assumes inv: "bt_invar ms" and d: "distinct (map fst new)"
  shows "\<not> (distinct rem \<and> set rem \<subseteq> dom (map_of ms)) \<and>
      (\<exists>w. rbind (try_fold remove_module rem ms) (try_fold add_module new) = Err (RemoveMissing w))
    \<or> (distinct rem \<and> set rem \<subseteq> dom (map_of ms)) \<and> \<not> fst ` set new \<inter> (dom (map_of ms) - set rem) = {} \<and>
      (\<exists>w. rbind (try_fold remove_module rem ms) (try_fold add_module new) = Err (AddExisting w))
    \<or> (distinct rem \<and> set rem \<subseteq> dom (map_of ms)) \<and> fst ` set new \<inter> (dom (map_of ms) - set rem) = {} \<and>
      (\<exists>ms'. rbind (try_fold remove_module rem ms) (try_fold add_module new) = Ok ms' \<and> bt_invar ms' \<and>
        map_of ms' = (\<lambda>i. if i \<in> set rem then None else map_of ms i) ++ map_of new)"
proof (cases "distinct rem \<and> set rem \<subseteq> dom (map_of ms)")
  case True
  with remove_all [OF inv] obtain m1 where m1: "try_fold remove_module rem ms = Ok m1" "bt_invar m1"
    "map_of m1 = (\<lambda>i. if i \<in> set rem then None else map_of ms i)" by blast
  have dm: "dom (map_of m1) = dom (map_of ms) - set rem" by (auto simp: m1(3) dom_def)
  show ?thesis
    using add_all [OF m1(2) d] add_existing [OF m1(2) d] True by (auto simp: m1(1) dm m1(3) [symmetric])
next
  case False
  with remove_missing [OF inv False] show ?thesis by auto
qed

lemma apply_delta_modules:
  "apply_delta patch module_of shared_of s d =
     rbind (rbind (try_fold remove_module (mc_remove (de_modules d)) (ds_modules s))
        (try_fold add_module (mc_add (de_modules d)))) (\<lambda>ms.
     rbind (try_fold (update_module patch module_of) (mc_update (de_modules d)) ms) (\<lambda>ms.
     rbind (update_shared patch shared_of (de_shared d) (ds_shared s)) (\<lambda>sh.
       Ok \<lparr>ds_modules = ms, ds_shared = sh\<rparr>)))"
  by (simp add: apply_delta_def rbind_assoc)

section \<open>Properties\<close>

text \<open>C8: the delta of \<open>diff_sets\<close> transforms the first set into the second: applying it succeeds and
  gives a set equal to the second, given the documented laws of \<open>json_patch\<close> and \<open>serde\<close>.\<close>

theorem diff_sets_roundtrip:
  assumes "patch_laws patch diff" "wf_set a" "wf_set b"
    and "\<forall>(i, m) \<in> set (ds_modules b). reads_back module_of module_value module_eq m"
    and "reads_back shared_of shared_value_of (btree_eq shared_resource_eq) (ds_shared b)"
  shows "\<exists>c. apply_delta patch module_of shared_of a (diff_sets diff a b) = Ok c \<and> set_eq c b"
  using assms(4) by (intro apply_diff_sets [OF assms(1-3) _ assms(5)]) auto

definition sample_old :: deployment_set where
  "sample_old = \<lparr>ds_modules = [(''a'', default_module), (''b'', default_module\<lparr>mo_class := ''big''\<rparr>)], ds_shared = []\<rparr>"

definition sample_new :: deployment_set where
  "sample_new = \<lparr>ds_modules = [(''b'', default_module), (''c'', default_module)],
     ds_shared = [(''db'', \<lparr>sh_ty = ''postgres'', sh_class = ''default'', sh_params = None\<rparr>)]\<rparr>"

theorem diff_sets_roundtrip_witness:
  "\<exists>c. apply_delta (\<lambda>_ ops. Ok (last ops)) (\<lambda>_. Ok default_module) (\<lambda>_. Ok (ds_shared sample_new)) sample_old
     (diff_sets (\<lambda>_ y. [y]) sample_old sample_new) = Ok c \<and> set_eq c sample_new"
  by (rule diff_sets_roundtrip)
    (simp_all add: patch_laws_def wf_set_def bt_invar_def sample_old_def sample_new_def reads_back_def
      btree_eq_def shared_resource_eq_def option_eq_def)



text \<open>C37: the errors of the first two loops, in their order: \<open>RemoveMissing\<close> exactly when the removals
  repeat a workload or name one not in the set, and otherwise \<open>AddExisting\<close> exactly when an addition
  names a workload that is still in the set.\<close>

theorem apply_delta_errors:
  assumes "wf_set s" "distinct (map fst (mc_add (de_modules d)))"
  shows "((\<exists>w. apply_delta patch module_of shared_of s d = Err (RemoveMissing w)) \<longleftrightarrow>
      \<not> (distinct (mc_remove (de_modules d)) \<and> set (mc_remove (de_modules d)) \<subseteq> dom (map_of (ds_modules s))))
    \<and> ((\<exists>w. apply_delta patch module_of shared_of s d = Err (AddExisting w)) \<longleftrightarrow>
      distinct (mc_remove (de_modules d)) \<and> set (mc_remove (de_modules d)) \<subseteq> dom (map_of (ds_modules s)) \<and>
      fst ` set (mc_add (de_modules d)) \<inter> (dom (map_of (ds_modules s)) - set (mc_remove (de_modules d))) \<noteq> {})"
proof -
  let ?rest = "\<lambda>ms. rbind (try_fold (update_module patch module_of) (mc_update (de_modules d)) ms) (\<lambda>ms.
     rbind (update_shared patch shared_of (de_shared d) (ds_shared s)) (\<lambda>sh.
       Ok \<lparr>ds_modules = ms, ds_shared = sh\<rparr>))"
  have late: "?rest ms \<noteq> Err (RemoveMissing w) \<and> ?rest ms \<noteq> Err (AddExisting w)" for ms w
    using update_errors [of patch module_of "mc_update (de_modules d)" ms]
    by (auto simp: rbind_eq_Inl update_shared_def map_err_eq_Inl split: if_splits)
  from assms(1) have "bt_invar (ds_modules s)" by (simp add: wf_set_def)
  from modules_after [OF this assms(2), of "mc_remove (de_modules d)"] late
  show ?thesis unfolding apply_delta_modules by - (elim disjE conjE exE; simp; blast)
qed

theorem apply_delta_errors_witness:
  "(\<exists>w. apply_delta (\<lambda>v _. Ok v) (\<lambda>_. Err ''never'') (\<lambda>_. Err ''never'') sample_new
     (default_delta\<lparr>de_modules := \<lparr>mc_add = [], mc_remove = [''a''], mc_update = []\<rparr>\<rparr> :: json delta) = Err (RemoveMissing w))
   \<and> (\<exists>w. apply_delta (\<lambda>v _. Ok v) (\<lambda>_. Err ''never'') (\<lambda>_. Err ''never'') sample_new
     (default_delta\<lparr>de_modules := \<lparr>mc_add = [(''b'', default_module), (''c'', default_module)], mc_remove = [''b''],
        mc_update = []\<rparr>\<rparr> :: json delta) = Err (AddExisting w))"
proof
  have wf: "wf_set sample_new" by (simp add: wf_set_def sample_new_def bt_invar_def)
  show "\<exists>w. apply_delta (\<lambda>v _. Ok v) (\<lambda>_. Err ''never'') (\<lambda>_. Err ''never'') sample_new
     (default_delta\<lparr>de_modules := \<lparr>mc_add = [], mc_remove = [''a''], mc_update = []\<rparr>\<rparr> :: json delta) = Err (RemoveMissing w)"
    by (subst apply_delta_errors [OF wf, THEN conjunct1]) (simp_all add: sample_new_def)
  show "\<exists>w. apply_delta (\<lambda>v _. Ok v) (\<lambda>_. Err ''never'') (\<lambda>_. Err ''never'') sample_new
     (default_delta\<lparr>de_modules := \<lparr>mc_add = [(''b'', default_module), (''c'', default_module)], mc_remove = [''b''],
        mc_update = []\<rparr>\<rparr> :: json delta) = Err (AddExisting w)"
    by (subst apply_delta_errors [OF wf, THEN conjunct2]) (simp_all add: sample_new_def)
qed

lemma list_all2_ex: "list_all2 R xs ys \<Longrightarrow> list_all (\<lambda>x. list_ex (R x) ys) xs"
  by (induction rule: list_all2_induct) (auto simp: list_all_iff)

lemma same_content_objI:
  assumes "list_all2 (\<lambda>e f. fst e = fst f \<and> same_content (snd e) (snd f)) es fs"
  shows "same_content (JObj es) (JObj fs)"
  unfolding same_content.simps(6) using list_all2_lengthD [OF assms] list_all2_ex [OF assms] by (rule conjI)

lemma btree_eq_same_content:
  assumes "btree_eq eq a b" and "\<And>x y. eq x y \<Longrightarrow> same_content (f x) (f y)"
  shows "same_content (JObj (map (\<lambda>(k, x). (k, f x)) a)) (JObj (map (\<lambda>(k, x). (k, f x)) b))"
proof (rule same_content_objI)
  show "list_all2 (\<lambda>e f. fst e = fst f \<and> same_content (snd e) (snd f))
      (map (\<lambda>(k, x). (k, f x)) a) (map (\<lambda>(k, x). (k, f x)) b)"
    unfolding list.rel_map using assms(1) unfolding btree_eq_def
    by (rule list_all2_mono) (auto intro: assms(2))
qed

lemma same_content_refl [simp]: "same_content v v"
  by (rule json_eq_same_content) simp

abbreviation entries_same :: "json_map \<Rightarrow> json_map \<Rightarrow> bool" where
  "entries_same \<equiv> list_all2 (\<lambda>e f. fst e = fst f \<and> same_content (snd e) (snd f))"

lemma opt_field_same: "option_eq eq x y \<Longrightarrow> (\<And>u v. eq u v \<Longrightarrow> same_content (f u) (f v)) \<Longrightarrow>
    entries_same (opt_field k f x) (opt_field k f y)"
  by (simp add: option_eq_def opt_field_def split: option.splits)

lemma external_eq_same_content:
  assumes "external_eq a b" shows "same_content (external_value a) (external_value b)"
proof -
  have "entries_same (opt_field ''params'' id (ex_params a)) (opt_field ''params'' id (ex_params b))"
    using assms by (intro opt_field_same [of json_eq]) (simp_all add: external_eq_def json_eq_same_content)
  moreover have "entries_same (opt_field ''id'' JStr (ex_id b)) (opt_field ''id'' JStr (ex_id b))"
    by (simp add: opt_field_def split: option.splits)
  ultimately show ?thesis using assms unfolding external_value_def external_eq_def
    by (intro same_content_objI list_all2_appendI) (simp_all only: list_all2_Cons list_all2_Nil fst_conv snd_conv
      same_content_refl simp_thms)
qed

lemma module_eq_same_content:
  assumes "module_eq a b" shows "same_content (module_value a) (module_value b)"
proof -
  have ext: "btree_eq external_eq (mo_externals a) (mo_externals b)"
    and spec: "json_eq (JObj (mo_spec a)) (JObj (mo_spec b))" and "mo_class a = mo_class b"
    using assms unfolding module_eq_def by blast+
  then show ?thesis
    using btree_eq_same_content [OF ext external_eq_same_content] json_eq_same_content [OF spec]
    unfolding module_value_def by (intro same_content_objI) (simp only: list_all2_Cons list_all2_Nil
      fst_conv snd_conv same_content_refl simp_thms)
qed

lemma shared_eq_same_content:
  assumes "shared_resource_eq a b" shows "same_content (shared_resource_value a) (shared_resource_value b)"
proof -
  have "entries_same (opt_field ''params'' id (sh_params a)) (opt_field ''params'' id (sh_params b))"
    using assms by (intro opt_field_same [of json_eq]) (simp_all add: shared_resource_eq_def json_eq_same_content)
  then show ?thesis using assms unfolding shared_resource_value_def shared_resource_eq_def
    by (intro same_content_objI) (simp del: same_content.simps(6))
qed

lemma set_eq_same_content:
  assumes "set_eq a b" shows "same_content (set_value a) (set_value b)"
proof -
  have ms: "btree_eq module_eq (ds_modules a) (ds_modules b)"
    and sh: "btree_eq shared_resource_eq (ds_shared a) (ds_shared b)"
    using assms unfolding set_eq_def by blast+
  from btree_eq_same_content [OF ms module_eq_same_content] btree_eq_same_content [OF sh shared_eq_same_content]
  show ?thesis unfolding set_value_def shared_value_of_def
    by (intro same_content_objI) (simp only: list_all2_Cons list_all2_Nil fst_conv snd_conv simp_thms)
qed


definition sample_spec :: "json_map \<Rightarrow> deployment_set" where
  "sample_spec spec = \<lparr>ds_modules = [(''a'', default_module\<lparr>mo_spec := spec\<rparr>)], ds_shared = []\<rparr>"

lemma sample_spec_wf: "wf_json (JObj spec) \<Longrightarrow> wf_json (set_value (sample_spec spec))"
  by (simp add: sample_spec_def set_value_def module_value_def shared_value_of_def default_module_def
      default_class_def is_utf8_ascii del: wf_json.simps(4)) (simp add: is_utf8_ascii)


end
