(* ===== verification/Toposort.thy ===== *)
theory Toposort
  imports Btree
begin

text \<open>
  Ordering a dependency graph into layers and finding a cycle: the loops of \<open>topological_layers\<close>
  and \<open>find_cycle\<close> (\<open>crates/core/src/graph.rs\<close>) over the map from nodes to their unmet dependencies.
  A panic is the result \<open>None\<close>. The lemmas show that every layer is exactly the set of nodes whose
  dependencies are all in earlier layers, that the loop fails exactly on cyclic graphs, and that the
  reported cycle is one.
\<close>

section \<open>The loops\<close>

type_synonym 'k remaining = "('k, 'k list) btree_map"

definition mentioned :: "'k remaining \<Rightarrow> 'k set" where
  "mentioned rem = \<Union> ((set \<circ> snd) ` set rem)"

function cycle_loop :: "'k::linorder remaining \<Rightarrow> ('k, nat) btree_map \<Rightarrow> 'k list \<Rightarrow> 'k \<Rightarrow> 'k list option" where
  "cycle_loop rem seen path current =
     (case map_of rem current of
        None \<Rightarrow> None
      | Some deps \<Rightarrow>
          (case deps of
             [] \<Rightarrow> None
           | next' # _ \<Rightarrow>
               (case map_of seen next' of
                  Some i \<Rightarrow> Some (drop i path @ [next'])
                | None \<Rightarrow> cycle_loop rem (bt_insert next' (length path) seen) (path @ [next']) next')))"
  by pat_completeness auto

termination
proof (relation "measure (\<lambda>(rem, seen, _, _). card (mentioned rem - fst ` set seen))")
  fix rem :: "'k::linorder remaining" and seen :: "('k, nat) btree_map" and path :: "'k list" and current deps next' rest
  assume a: "map_of rem current = Some deps" "deps = next' # rest" "map_of seen next' = None"
  from map_of_SomeD [OF a(1)] a(2) have "next' \<in> mentioned rem"
    unfolding mentioned_def by (intro UnionI [of "set deps"]) (auto intro!: image_eqI)
  with a(3) have "next' \<in> mentioned rem - fst ` set seen" by (simp add: map_of_eq_None_iff)
  moreover have "finite (mentioned rem - fst ` set seen)" by (simp add: mentioned_def)
  moreover have "mentioned rem - fst ` set (bt_insert next' (length path) seen) =
      mentioned rem - fst ` set seen - {next'}"
    using keys_bt_insert [of next' "length path" seen] by auto
  ultimately show "((rem, bt_insert next' (length path) seen, path @ [next'], next'), (rem, seen, path, current))
      \<in> measure (\<lambda>(rem, seen, _, _). card (mentioned rem - fst ` set seen))"
    using card_Diff1_less [of "mentioned rem - fst ` set seen" next'] by simp
qed simp

definition find_cycle :: "'k::linorder remaining \<Rightarrow> 'k list option" where
  "find_cycle rem =
     (case rem of [] \<Rightarrow> None | (start, _) # _ \<Rightarrow> cycle_loop rem [(start, 0)] [start] start)"

definition ready_nodes :: "'k remaining \<Rightarrow> 'k list" where
  "ready_nodes rem = map fst (filter (\<lambda>(_, deps). deps = []) rem)"

text \<open>One turn of the loop: the ready nodes leave the map and the dependencies of the others.\<close>

definition without_ready :: "'k::linorder list \<Rightarrow> 'k remaining \<Rightarrow> 'k remaining" where
  "without_ready ready rem = map (\<lambda>(d, deps). (d, fold bs_remove ready deps)) (fold bt_remove ready rem)"

lemma fold_bt_remove_filter: "fold bt_remove ks m = filter (\<lambda>e. fst e \<notin> set ks) m"
  by (induction ks arbitrary: m) (auto simp: bt_remove_def intro: filter_cong)

lemma length_without_ready: "ready_nodes rem \<noteq> [] \<Longrightarrow> length (without_ready (ready_nodes rem) rem) < length rem"
proof -
  assume "ready_nodes rem \<noteq> []"
  then obtain e where "e \<in> set rem" "fst e \<in> set (ready_nodes rem)"
    by (auto simp: ready_nodes_def filter_empty_conv)
  then show ?thesis unfolding without_ready_def length_map fold_bt_remove_filter
    by (intro length_filter_less [of e]) auto
qed

function layers_loop :: "'k::linorder remaining \<Rightarrow> 'k list list \<Rightarrow> 'k list option + 'k list list" where
  "layers_loop rem layers =
     (if rem = [] then Ok layers
      else if ready_nodes rem = [] then Err (find_cycle rem)
      else layers_loop (without_ready (ready_nodes rem) rem) (layers @ [ready_nodes rem]))"
  by pat_completeness auto

termination
  by (relation "measure (\<lambda>(rem, _). length rem)") (auto intro: length_without_ready)

declare cycle_loop.simps [simp del] layers_loop.simps [simp del]

section \<open>The layers\<close>

text \<open>A graph is the map from nodes to dependencies. It is closed when every dependency is a node.\<close>

definition deps_of :: "'k remaining \<Rightarrow> 'k \<Rightarrow> 'k set" where
  "deps_of g d = (case map_of g d of None \<Rightarrow> {} | Some deps \<Rightarrow> set deps)"

definition closed_graph :: "'k::linorder remaining \<Rightarrow> bool" where
  "closed_graph g \<longleftrightarrow> bt_invar g \<and> list_all (\<lambda>(_, deps). sorted_wrt (<) deps \<and> set deps \<subseteq> fst ` set g) g"

definition edges_of :: "'k remaining \<Rightarrow> ('k \<times> 'k) set" where
  "edges_of g = {(d, e). e \<in> deps_of g d}"

text \<open>The state of the loop after some layers: what is left of the graph.\<close>

definition left_after :: "'k::linorder remaining \<Rightarrow> 'k set \<Rightarrow> 'k remaining \<Rightarrow> bool" where
  "left_after g S rem \<longleftrightarrow> bt_invar rem \<and>
     map_of rem = (\<lambda>d. if d \<in> S then None else map_option (filter (\<lambda>e. e \<notin> S)) (map_of g d))"

definition layer_of :: "'k remaining \<Rightarrow> 'k set \<Rightarrow> 'k set" where
  "layer_of g S = {d \<in> fst ` set g. d \<notin> S \<and> deps_of g d \<subseteq> S}"

lemma left_after_start: "bt_invar g \<Longrightarrow> left_after g {} g"
proof -
  have "map_option (filter (\<lambda>e. True)) x = x" for x :: "'a list option" by (cases x) auto
  then show "bt_invar g \<Longrightarrow> left_after g {} g" by (simp add: left_after_def)
qed

lemma left_after_keys:
  assumes "left_after g S rem" shows "fst ` set rem = fst ` set g - S"
  using assms by (auto simp: left_after_def dom_map_of_conv_image_fst [symmetric] dom_def split: if_splits)

lemma ready_layer:
  assumes "left_after g S rem"
  shows "set (ready_nodes rem) = layer_of g S" "sorted_wrt (<) (ready_nodes rem)"
proof -
  have inv: "bt_invar rem" and rem: "\<And>d. map_of rem d = (if d \<in> S then None else
      map_option (filter (\<lambda>e. e \<notin> S)) (map_of g d))"
    using assms by (simp_all add: left_after_def)
  have "d \<in> set (ready_nodes rem) \<longleftrightarrow> map_of rem d = Some []" for d
    using bt_map_of_iff [OF inv, of d "[]"] by (force simp: ready_nodes_def)
  moreover have "map_of rem d = Some [] \<longleftrightarrow> d \<in> layer_of g S" for d
    by (auto simp: rem layer_of_def deps_of_def filter_empty_conv dom_map_of_conv_image_fst [symmetric]
        split: option.splits)
  ultimately show "set (ready_nodes rem) = layer_of g S" by blast
  have "sorted_wrt (<) (map fst rem)" using inv by (simp add: bt_invar_def)
  then show "sorted_wrt (<) (ready_nodes rem)"
    unfolding ready_nodes_def sorted_wrt_map by (rule sorted_wrt_filter)
qed

lemma left_after_step:
  assumes "left_after g S rem"
  shows "left_after g (S \<union> set (ready_nodes rem)) (without_ready (ready_nodes rem) rem)"
proof -
  let ?r = "ready_nodes rem"
  from assms fold_bt_remove [of rem ?r] have inv: "bt_invar (fold bt_remove ?r rem)"
    and look: "map_of (fold bt_remove ?r rem) = (\<lambda>k. if k \<in> set ?r then None else map_of rem k)"
    by (simp_all add: left_after_def)
  have "map_of (without_ready ?r rem) d = map_option (fold bs_remove ?r) (map_of (fold bt_remove ?r rem) d)" for d
    unfolding without_ready_def by (simp add: map_of_map)
  moreover have "bt_invar (without_ready ?r rem)"
    using inv by (simp add: without_ready_def bt_invar_def case_prod_unfold comp_def)
  ultimately show ?thesis using assms
    by (auto simp: left_after_def look fold_bs_remove fun_eq_iff option.map_comp comp_def
        intro!: option.map_cong filter_cong)
qed

text \<open>The layers so far: each is what is ready after those before it.\<close>

definition good_layers :: "'k::linorder remaining \<Rightarrow> 'k list list \<Rightarrow> bool" where
  "good_layers g layers \<longleftrightarrow> distinct (concat layers) \<and> (\<forall>i < length layers. layers ! i \<noteq> [] \<and>
     sorted (layers ! i) \<and> set (layers ! i) = layer_of g (set (concat (take i layers))))"

lemma good_layers_Nil: "good_layers g []"
  by (simp add: good_layers_def)

lemma good_layers_snoc:
  assumes "good_layers g layers" "l \<noteq> []" "sorted_wrt (<) l" "set l = layer_of g (set (concat layers))"
  shows "good_layers g (layers @ [l])"
  using assms by (auto simp: good_layers_def nth_append strict_sorted_iff layer_of_def less_Suc_eq)

lemma layers_loop_cases:
  assumes "left_after g (set (concat layers)) rem" "good_layers g layers"
  shows "(\<exists>out. layers_loop rem layers = Ok out \<and> good_layers g out \<and> fst ` set g \<subseteq> set (concat out))
    \<or> (\<exists>S rem'. layers_loop rem layers = Err (find_cycle rem') \<and> left_after g S rem' \<and> rem' \<noteq> [] \<and>
         ready_nodes rem' = [])"
  using assms
proof (induction rem layers rule: layers_loop.induct)
  case (1 rem layers)
  show ?case
  proof (cases "rem = []")
    case True
    with left_after_keys [OF 1(2)] 1(3) show ?thesis by (auto simp: layers_loop.simps)
  next
    case ne: False
    show ?thesis
    proof (cases "ready_nodes rem = []")
      case True
      with ne 1(2) show ?thesis by (auto simp: layers_loop.simps)
    next
      case False
      have "good_layers g (layers @ [ready_nodes rem])"
        using 1(3) False ready_layer [OF 1(2)] by (intro good_layers_snoc)
      with 1(1) [OF ne False] left_after_step [OF 1(2)] ne False show ?thesis
        by (simp add: layers_loop.simps [of rem])
    qed
  qed
qed

lemma good_layers_rank:
  assumes g: "good_layers g layers" and all: "fst ` set g \<subseteq> set (concat layers)"
  shows "acyclic (edges_of g)"
proof -
  define rank where "rank d = (LEAST i. d \<in> set (concat (take i layers)))" for d
  have "(e, d) \<in> measure rank" if "(d, e) \<in> edges_of g" for d e
  proof -
    from that have d: "d \<in> fst ` set g" and e: "e \<in> deps_of g d"
      by (auto simp: edges_of_def deps_of_def split: option.splits dest: map_of_SomeD intro!: image_eqI)
    from d all have ex: "d \<in> set (concat (take (length layers) layers))" by auto
    then have in_rank: "d \<in> set (concat (take (rank d) layers))" unfolding rank_def by (rule LeastI)
    then obtain i where i: "rank d = Suc i" by (cases "rank d") auto
    have notin: "d \<notin> set (concat (take i layers))" unfolding rank_def
      using i not_less_Least [of i "\<lambda>i. d \<in> set (concat (take i layers))"] by (simp add: rank_def)
    have "i < length layers"
    proof (rule ccontr)
      assume "\<not> i < length layers"
      then have "take (Suc i) layers = take i layers" by simp
      with in_rank notin i show False by simp
    qed
    moreover from this in_rank notin have "d \<in> set (layers ! i)" by (simp add: i take_Suc_conv_app_nth)
    ultimately have "e \<in> set (concat (take i layers))" using g e by (auto simp: good_layers_def layer_of_def)
    then have "rank e \<le> i" unfolding rank_def by (rule Least_le)
    then show ?thesis by (simp add: i)
  qed
  then have "(edges_of g)\<inverse> \<subseteq> measure rank" by auto
  then show ?thesis using acyclic_converse wf_acyclic wf_measure wf_subset by metis
qed

section \<open>The reported cycle\<close>

text \<open>Consecutive nodes are edges.\<close>

fun walk_in :: "('k \<times> 'k) set \<Rightarrow> 'k list \<Rightarrow> bool" where
  "walk_in E (x # y # zs) \<longleftrightarrow> (x, y) \<in> E \<and> walk_in E (y # zs)"
| "walk_in E _ \<longleftrightarrow> True"

definition is_cycle :: "('k \<times> 'k) set \<Rightarrow> 'k list \<Rightarrow> bool" where
  "is_cycle E c \<longleftrightarrow> 2 \<le> length c \<and> hd c = last c \<and> distinct (tl c) \<and> walk_in E c"

lemma walk_in_snoc: "xs \<noteq> [] \<Longrightarrow> walk_in E (xs @ [y]) \<longleftrightarrow> walk_in E xs \<and> (last xs, y) \<in> E"
  by (induction E xs rule: walk_in.induct) auto

lemma walk_in_drop: "walk_in E xs \<Longrightarrow> walk_in E (drop i xs)"
  by (induction E xs arbitrary: i rule: walk_in.induct) (auto simp: drop_Cons split: nat.splits)

lemma walk_in_mono: "E \<subseteq> F \<Longrightarrow> walk_in E xs \<Longrightarrow> walk_in F xs"
  by (induction E xs rule: walk_in.induct) auto

lemma walk_in_trancl: "xs \<noteq> [] \<Longrightarrow> walk_in E (xs @ [y]) \<Longrightarrow> (hd xs, y) \<in> E\<^sup>+"
proof (induction xs)
  case (Cons x xs)
  show ?case
  proof (cases xs)
    case (Cons z zs)
    with Cons.IH Cons.prems have "(z, y) \<in> E\<^sup>+" "(x, z) \<in> E" by auto
    then show ?thesis by simp
  qed (use Cons.prems in auto)
qed simp

lemma is_cycle_cyclic: "is_cycle E c \<Longrightarrow> \<not> acyclic E"
proof -
  assume c: "is_cycle E c"
  then have "butlast c \<noteq> []" "c = butlast c @ [last c]" by (cases c; auto simp: is_cycle_def)+
  with c have "(hd (butlast c), last c) \<in> E\<^sup>+" unfolding is_cycle_def by (metis walk_in_trancl)
  moreover have "hd (butlast c) = last c" using c \<open>butlast c \<noteq> []\<close>
    by (metis \<open>c = butlast c @ [last c]\<close> hd_append2 is_cycle_def)
  ultimately show ?thesis by (auto simp: acyclic_def)
qed

lemma cycle_loop_finds:
  assumes inv: "bt_invar seen" "\<And>x i. map_of seen x = Some i \<longleftrightarrow> i < length path \<and> path ! i = x"
    and path: "path \<noteq> []" "last path = current" "distinct path" "walk_in (edges_of rem) path"
      "current \<in> fst ` set rem"
    and full: "\<And>d deps. map_of rem d = Some deps \<Longrightarrow> deps \<noteq> [] \<and> set deps \<subseteq> fst ` set rem"
  shows "\<exists>c. cycle_loop rem seen path current = Some c \<and> is_cycle (edges_of rem) c"
  using inv path full
proof (induction rem seen path current rule: cycle_loop.induct)
  case (1 rem seen path current)
  from 1(8) obtain deps where deps: "map_of rem current = Some deps"
    by (metis map_of_eq_None_iff not_None_eq)
  with 1(9) obtain n ns where n: "deps = n # ns" "n \<in> fst ` set rem" by (cases deps) fastforce+
  then have edge: "(current, n) \<in> edges_of rem" using deps by (simp add: edges_of_def deps_of_def)
  have walk: "walk_in (edges_of rem) (path @ [n])" using 1(4,5,7) edge by (simp add: walk_in_snoc)
  show ?case
  proof (cases "map_of seen n")
    case (Some i)
    with 1(3) have i: "i < length path" "path ! i = n" by simp_all
    have "is_cycle (edges_of rem) (drop i path @ [n])"
    proof -
      have "walk_in (edges_of rem) (drop i path @ [n])" using walk_in_drop [OF walk, of i] i(1) by simp
      moreover have "distinct (tl (drop i path @ [n]))"
      proof -
        have "n \<notin> set (tl (drop i path))"
          using 1(6) i distinct_drop [OF 1(6), of i] by (metis Cons_nth_drop_Suc distinct.simps(2) list.sel(3))
        with 1(6) i(1) show ?thesis by (simp add: distinct_tl)
      qed
      ultimately show ?thesis using i by (simp add: is_cycle_def hd_drop_conv_nth)
    qed
    with deps n Some show ?thesis by (simp add: cycle_loop.simps [of rem])
  next
    case None
    have fresh: "n \<notin> set path" using None 1(3) by (metis in_set_conv_nth option.distinct(1))
    have "\<exists>c. cycle_loop rem (bt_insert n (length path) seen) (path @ [n]) n = Some c \<and> is_cycle (edges_of rem) c"
    proof (rule 1(1) [OF deps n(1) None])
      show "map_of (bt_insert n (length path) seen) x = Some i \<longleftrightarrow> i < length (path @ [n]) \<and> (path @ [n]) ! i = x" for x i
        using 1(2,3) fresh by (auto simp: map_of_bt_insert nth_append less_Suc_eq)
    qed (use 1(2,6,9) walk n fresh in \<open>auto simp: bt_invar_insert\<close>)
    with deps n None show ?thesis by (simp add: cycle_loop.simps [of rem seen])
  qed
qed

lemma left_after_closed:
  assumes "closed_graph g" "left_after g S rem" "ready_nodes rem = []" "map_of rem d = Some deps"
  shows "deps \<noteq> [] \<and> set deps \<subseteq> fst ` set rem"
proof -
  from assms(2,4) obtain full where full: "map_of g d = Some full" "deps = filter (\<lambda>e. e \<notin> S) full"
    by (auto simp: left_after_def split: if_splits)
  with assms(1) have "set full \<subseteq> fst ` set g"
    by (force simp: closed_graph_def list_all_iff dest: map_of_SomeD)
  moreover have "deps \<noteq> []"
    using assms(3) map_of_SomeD [OF assms(4)] by (auto simp: ready_nodes_def filter_empty_conv)
  ultimately show ?thesis using left_after_keys [OF assms(2)] full(2) by auto
qed

lemma left_after_edges: "left_after g S rem \<Longrightarrow> edges_of rem \<subseteq> edges_of g"
  by (auto simp: left_after_def edges_of_def deps_of_def split: if_splits option.splits)

lemma find_cycle_finds:
  assumes "closed_graph g" "left_after g S rem" "rem \<noteq> []" "ready_nodes rem = []"
  shows "\<exists>c. find_cycle rem = Some c \<and> is_cycle (edges_of g) c"
proof -
  obtain start deps rest where rem: "rem = (start, deps) # rest" using assms(3) by (cases rem) auto
  have "\<exists>c. cycle_loop rem [(start, 0)] [start] start = Some c \<and> is_cycle (edges_of rem) c"
    by (rule cycle_loop_finds)
      (use left_after_closed [OF assms(1,2,4)] rem in \<open>auto simp: bt_invar_def\<close>)
  then show ?thesis using walk_in_mono [OF left_after_edges [OF assms(2)]]
    by (auto simp: find_cycle_def rem is_cycle_def)
qed

text \<open>What the loop gives on a closed graph.\<close>

lemma layers_loop_total:
  assumes "closed_graph g"
  shows "(\<exists>layers. layers_loop g [] = Ok layers \<and> good_layers g layers \<and>
        set (concat layers) = fst ` set g \<and> acyclic (edges_of g))
    \<or> (\<exists>c. layers_loop g [] = Err (Some c) \<and> is_cycle (edges_of g) c \<and> \<not> acyclic (edges_of g))"
proof -
  have "bt_invar g" using assms by (simp add: closed_graph_def)
  then have "left_after g (set (concat [])) g" by (simp add: left_after_start)
  from layers_loop_cases [OF this good_layers_Nil] show ?thesis
  proof (elim disjE exE conjE)
    fix out assume out: "layers_loop g [] = Ok out" "good_layers g out" "fst ` set g \<subseteq> set (concat out)"
    have "set l \<subseteq> fst ` set g" if "l \<in> set out" for l
    proof -
      from that obtain i where "i < length out" "l = out ! i" by (metis in_set_conv_nth)
      then have "set l = layer_of g (set (concat (take i out)))" using out(2) by (simp add: good_layers_def)
      then show ?thesis by (simp add: layer_of_def)
    qed
    then have "set (concat out) \<subseteq> fst ` set g" by (simp add: UN_least)
    with out good_layers_rank [OF out(2,3)] show ?thesis by blast
  next
    fix S rem assume "layers_loop g [] = Err (find_cycle rem)" "left_after g S rem" "rem \<noteq> []" "ready_nodes rem = []"
    with find_cycle_finds [OF assms] is_cycle_cyclic show ?thesis by metis
  qed
qed

text \<open>An edge leads to an earlier layer.\<close>

lemma good_layers_edge:
  assumes "good_layers g layers" "i < length layers" "d \<in> set (layers ! i)" "e \<in> deps_of g d"
  shows "\<exists>j < i. e \<in> set (layers ! j)"
proof -
  have "e \<in> set (concat (take i layers))" using assms by (auto simp: good_layers_def layer_of_def)
  then obtain l where "l \<in> set (take i layers)" "e \<in> set l" by auto
  then show ?thesis by (auto simp: in_set_conv_nth [of l] dest!: in_set_conv_nth [THEN iffD1])
qed

end
