(* ===== verification/Graph.thy ===== *)
theory Graph
  imports Criteria Placeholder Catalog Sets Toposort "HOL-Library.Option_ord"
begin

text \<open>
  Construction of the resource graph (\<open>crates/core/src/graph.rs\<close>): \<open>builder\<close> is the state that
  \<open>Builder\<close> mutates, and each method is a function on it. An error of the source is \<open>Fails\<close>, a
  panic is \<open>Panics\<close>. The two loops without a bound, over the queue and in \<open>match_dependents\<close>, are
  partial functions: \<open>None\<close> is a loop that does not end.
\<close>

section \<open>Data\<close>

record graph_input =
  gi_org :: string
  gi_app :: string
  gi_env :: string
  gi_env_type :: string
  gi_set :: deployment_set
  gi_definitions :: "resource_definition list"
  gi_types :: "resource_type list"
  gi_classes :: class_registry

datatype graph_error =
    UnknownType (ge_path: string) (ge_ty: string)
  | InvalidId (ge_path: string) id_error
  | MissingClass (ge_path: string) (ge_ty: string) string
  | NodeMatch (ge_path: string) match_error
  | NodePlaceholder string placeholder_error
  | Conflict descriptor string string
  | Cycle "descriptor list"

fun graph_error_string :: "graph_error \<Rightarrow> string" where
  "graph_error_string (UnknownType path ty) = path @ '': unknown resource type `'' @ ty @ ''`''"
| "graph_error_string (InvalidId path e) = path @ '': '' @ id_error_string e"
| "graph_error_string (MissingClass path ty class) =
     path @ '': class `'' @ class @ ''` is not defined for resource type `'' @ ty @ ''`''"
| "graph_error_string (NodeMatch path e) = path @ '': '' @ match_error_string e"
| "graph_error_string (NodePlaceholder def e) = ''definition `'' @ def @ ''`: '' @ placeholder_error_string e"
| "graph_error_string (Conflict d f s) =
     ''conflicting requests for `'' @ descriptor_string d @ ''`: `'' @ f @ ''` and `'' @ s @ ''` ask for different inputs''"
| "graph_error_string (Cycle ds) = ''dependency cycle: '' @ join '' -> '' (map descriptor_string ds)"

datatype fault = Fails graph_error | Panics string

datatype request = Request (rq_path: string) (rq_params: "string option")

definition request_le :: "request \<Rightarrow> request \<Rightarrow> bool" where
  "request_le a b \<longleftrightarrow> rq_path a < rq_path b \<or> (rq_path a = rq_path b \<and> rq_params a \<le> rq_params b)"

instantiation request :: linorder
begin

definition less_eq_request :: "request \<Rightarrow> request \<Rightarrow> bool" where
  "less_eq_request a b \<longleftrightarrow> request_le a b"

definition less_request :: "request \<Rightarrow> request \<Rightarrow> bool" where
  "less_request a b \<longleftrightarrow> a \<le> b \<and> \<not> b \<le> (a :: request)"

instance
proof
  fix x y z :: request
  show "(x < y) = (x \<le> y \<and> \<not> y \<le> x)" by (rule less_request_def)
  show "x \<le> x" by (simp add: less_eq_request_def request_le_def)
  show "x \<le> y \<Longrightarrow> y \<le> z \<Longrightarrow> x \<le> z" by (auto simp: less_eq_request_def request_le_def)
  show "x \<le> y \<Longrightarrow> y \<le> x \<Longrightarrow> x = y" by (cases x; cases y) (auto simp: less_eq_request_def request_le_def)
  show "x \<le> y \<or> y \<le> x" by (auto simp: less_eq_request_def request_le_def)
qed

end

record node =
  nd_descriptor :: descriptor
  nd_definition :: string
  nd_driver_type :: string
  nd_params :: "json option"
  nd_requests :: "request list"
  nd_depends_on :: "descriptor list"

type_synonym nodes = "(descriptor, node) btree_map"

record resource_graph =
  rg_nodes :: nodes
  rg_layers :: "descriptor list list"

definition ResourceGraph_edges :: "resource_graph \<Rightarrow> (descriptor \<times> descriptor) list" where
  "ResourceGraph_edges self =
     concat (map (\<lambda>(_, n). map (\<lambda>d. (nd_descriptor n, d)) (nd_depends_on n)) (rg_nodes self))"

definition ResourceGraph_order :: "resource_graph \<Rightarrow> descriptor list" where
  "ResourceGraph_order self = concat (rg_layers self)"

datatype co_provision = CoProvision (cp_source: descriptor) (cp_co: descriptor) (cp_match_dependents: bool)

definition co_provision_le :: "co_provision \<Rightarrow> co_provision \<Rightarrow> bool" where
  "co_provision_le a b \<longleftrightarrow> cp_source a < cp_source b \<or> (cp_source a = cp_source b \<and>
     (cp_co a < cp_co b \<or> (cp_co a = cp_co b \<and> cp_match_dependents a \<le> cp_match_dependents b)))"

instantiation co_provision :: linorder
begin

definition less_eq_co_provision :: "co_provision \<Rightarrow> co_provision \<Rightarrow> bool" where
  "less_eq_co_provision a b \<longleftrightarrow> co_provision_le a b"

definition less_co_provision :: "co_provision \<Rightarrow> co_provision \<Rightarrow> bool" where
  "less_co_provision a b \<longleftrightarrow> a \<le> b \<and> \<not> b \<le> (a :: co_provision)"

instance
proof
  fix x y z :: co_provision
  show "(x < y) = (x \<le> y \<and> \<not> y \<le> x)" by (rule less_co_provision_def)
  show "x \<le> x" by (simp add: less_eq_co_provision_def co_provision_le_def)
  show "x \<le> y \<Longrightarrow> y \<le> z \<Longrightarrow> x \<le> z" by (auto simp: less_eq_co_provision_def co_provision_le_def)
  show "x \<le> y \<Longrightarrow> y \<le> x \<Longrightarrow> x = y" by (cases x; cases y) (auto simp: less_eq_co_provision_def co_provision_le_def)
  show "x \<le> y \<or> y \<le> x" by (auto simp: less_eq_co_provision_def co_provision_le_def)
qed

end

record builder =
  b_nodes :: nodes
  b_explicit :: "(descriptor, string \<times> string) btree_map"
  b_queue :: "descriptor list"
  b_co :: "co_provision list"

section \<open>Requests and edges\<close>

definition find_type :: "graph_input \<Rightarrow> string \<Rightarrow> resource_type option" where
  "find_type inp ty = find (\<lambda>t. rt_id t = ty) (gi_types inp)"

definition is_implicit :: "graph_input \<Rightarrow> string \<Rightarrow> bool" where
  "is_implicit inp ty = (case find_type inp ty of None \<Rightarrow> False | Some t \<Rightarrow> rt_use t = Implicit)"

text \<open>\<open>params.filter(|p| !p.is_null())\<close>.\<close>

definition non_null :: "json option \<Rightarrow> json option" where
  "non_null params = (case params of Some JNull \<Rightarrow> None | p \<Rightarrow> p)"

definition node_context :: "graph_input \<Rightarrow> descriptor \<Rightarrow> resource_context" where
  "node_context inp d = \<lparr>rc_org = gi_org inp, rc_app = gi_app inp, rc_env = gi_env inp,
     rc_env_type = gi_env_type inp, rc_res = d\<rparr>"

text \<open>A request for a node that exists: its params must agree with those it has, or become them.\<close>

definition settle_params :: "descriptor \<Rightarrow> string \<Rightarrow> json option \<Rightarrow> builder \<Rightarrow> fault + builder" where
  "settle_params d path params b =
     (case params of
        None \<Rightarrow> Ok b
      | Some p \<Rightarrow>
          (case map_of (b_explicit b) d of
             Some (first, existing) \<Rightarrow>
               if existing \<noteq> to_canonical_string p
               then (let paths = sort [first, path] in Err (Fails (Conflict d (paths ! 0) (paths ! 1))))
               else Ok b
           | None \<Rightarrow>
               Ok (b\<lparr>b_nodes := bt_modify d (\<lambda>n. n\<lparr>nd_params := non_null (Some p)\<rparr>) (b_nodes b),
                     b_explicit := bt_insert d (path, to_canonical_string p) (b_explicit b)\<rparr>)))"

definition Builder_request ::
  "graph_input \<Rightarrow> descriptor \<Rightarrow> string \<Rightarrow> json option \<Rightarrow> builder \<Rightarrow> fault + builder" where
  "Builder_request inp d path params b =
     (if find_type inp (d_ty d) = None then Err (Fails (UnknownType path (d_ty d)))
      else if \<not> ClassRegistry_contains (gi_classes inp) (d_ty d) (d_class d)
      then Err (Fails (MissingClass path (d_ty d) (d_class d)))
      else
        let canonical = map_option to_canonical_string params in
        case map_of (b_nodes b) d of
          Some _ \<Rightarrow>
            rbind (settle_params d path params b) (\<lambda>b.
              Ok (b\<lparr>b_nodes := bt_modify d (\<lambda>n. n\<lparr>nd_requests :=
                insort_insert (Request path canonical) (nd_requests n)\<rparr>) (b_nodes b)\<rparr>))
        | None \<Rightarrow>
            rbind (map_err (\<lambda>e. Fails (NodeMatch path e)) (select_definition (gi_definitions inp) (node_context inp d)))
            (\<lambda>def. Ok (b\<lparr>
              b_explicit := (case canonical of None \<Rightarrow> b_explicit b | Some c \<Rightarrow> bt_insert d (path, c) (b_explicit b)),
              b_nodes := bt_insert d \<lparr>nd_descriptor = d, nd_definition = rd_id def, nd_driver_type = rd_driver_type def,
                nd_params = non_null params, nd_requests = [Request path canonical], nd_depends_on = []\<rparr> (b_nodes b),
              b_queue := b_queue b @ [d]\<rparr>)))"

definition Builder_edge :: "descriptor \<Rightarrow> descriptor \<Rightarrow> builder \<Rightarrow> fault + bool \<times> builder" where
  "Builder_edge src to b =
     (case map_of (b_nodes b) src of
        None \<Rightarrow> Err (Panics ''node exists'')
      | Some n \<Rightarrow> Ok (to \<notin> set (nd_depends_on n),
          b\<lparr>b_nodes := bt_modify src (\<lambda>n. n\<lparr>nd_depends_on := insort_insert to (nd_depends_on n)\<rparr>) (b_nodes b)\<rparr>))"

definition add_edge :: "descriptor \<Rightarrow> descriptor \<Rightarrow> builder \<Rightarrow> fault + builder" where
  "add_edge src to b = rbind (Builder_edge src to b) (\<lambda>(_, b). Ok b)"

section \<open>Expanding a node\<close>

definition resolve_ref :: "graph_input \<Rightarrow> resource_ref \<Rightarrow> descriptor \<Rightarrow> descriptor" where
  "resolve_ref inp target referrer = ResourceRef_resolve target referrer (is_implicit inp (rr_ty target))"

type_synonym found = "(string \<times> raw_placeholder \<times> expr) list"

definition perr :: "resource_definition \<Rightarrow> placeholder_error \<Rightarrow> fault" where
  "perr def e = Fails (NodePlaceholder (rd_id def) e)"

definition account_placeholders :: "resource_definition \<Rightarrow> placeholder_error + found" where
  "account_placeholders def =
     (case rd_driver_account def of
        None \<Rightarrow> Ok []
      | Some acct \<Rightarrow> collect_placeholders (JStr acct) DDriverAccount ''driver_account'')"

definition definition_placeholders :: "resource_definition \<Rightarrow> placeholder_error + found" where
  "definition_placeholders def =
     rbind (collect_placeholders (JObj (di_values (rd_driver_inputs def))) DDefinition ''driver_inputs.values'') (\<lambda>vals.
     rbind (collect_placeholders (JObj (di_secrets (rd_driver_inputs def))) DDefinition ''driver_inputs.secrets'') (\<lambda>secrets.
     rbind (account_placeholders def) (\<lambda>account.
       Ok (vals @ secrets @ account))))"

definition expand_path :: "resource_definition \<Rightarrow> descriptor \<Rightarrow> string \<Rightarrow> string" where
  "expand_path def d loc = ''definition `'' @ rd_id def @ ''` '' @ loc @ '' for `'' @ descriptor_string d @ ''`''"

definition expand_ref ::
  "graph_input \<Rightarrow> resource_definition \<Rightarrow> descriptor \<Rightarrow> string \<times> raw_placeholder \<times> expr \<Rightarrow> builder \<Rightarrow> fault + builder" where
  "expand_ref inp def d = (\<lambda>(loc, _, ex) b.
     case ex of
       EResource target _ \<Rightarrow>
         (let to = resolve_ref inp target d in
          rbind (Builder_request inp to (expand_path def d loc) None b) (add_edge d to))
     | _ \<Rightarrow> Ok b)"

definition expand_param_ref ::
  "graph_input \<Rightarrow> resource_definition \<Rightarrow> descriptor \<Rightarrow> descriptor \<Rightarrow> string \<times> raw_placeholder \<times> expr \<Rightarrow>
   builder \<Rightarrow> fault + builder" where
  "expand_param_ref inp def d co = (\<lambda>(ploc, _, ex) b.
     case ex of
       EResource target _ \<Rightarrow>
         (let to = resolve_ref inp target d in
          rbind (Builder_request inp to (expand_path def d ploc) None b) (\<lambda>b.
            if to \<noteq> co then add_edge co to b else Ok b))
     | _ \<Rightarrow> Ok b)"

definition provision_loc :: "string \<Rightarrow> string" where
  "provision_loc key = ''provision.'' @ key"

definition provision_params :: "provision \<Rightarrow> json" where
  "provision_params prov = case_option JNull id (pv_params prov)"

definition expand_provision ::
  "graph_input \<Rightarrow> resource_definition \<Rightarrow> descriptor \<Rightarrow> string \<times> provision \<Rightarrow> builder \<Rightarrow> fault + builder" where
  "expand_provision inp def d = (\<lambda>(key, prov) b.
     rbind (map_err (\<lambda>e. perr def \<lparr>pe_placeholder = key, pe_location = provision_loc key,
         pe_kind = Syntax (id_error_string e)\<rparr>) (ResourceRef_parse key)) (\<lambda>target.
     let co = resolve_ref inp target d; params = provision_params prov in
     rbind (Builder_request inp co (expand_path def d (provision_loc key)) (Some params) b) (\<lambda>b.
     rbind (if pv_is_dependent prov then add_edge d co b else add_edge co d b) (\<lambda>b.
     rbind (map_err (perr def) (collect_placeholders params DDefinition (provision_loc key @ ''.params''))) (\<lambda>found.
     rbind (try_fold (expand_param_ref inp def d co) found b) (\<lambda>b.
       Ok (b\<lparr>b_co := insort_insert (CoProvision d co (pv_match_dependents prov)) (b_co b)\<rparr>)))))))"

definition expand :: "graph_input \<Rightarrow> descriptor \<Rightarrow> builder \<Rightarrow> fault + builder" where
  "expand inp d b =
     (case map_of (b_nodes b) d of
        None \<Rightarrow> Err (Panics ''no entry found for key'')
      | Some n \<Rightarrow>
          (case find (\<lambda>x. rd_id x = nd_definition n) (gi_definitions inp) of
             None \<Rightarrow> Err (Panics ''matched definition exists'')
           | Some def \<Rightarrow>
               rbind (map_err (perr def) (definition_placeholders def)) (\<lambda>found.
               rbind (try_fold (expand_ref inp def d) found b) (\<lambda>b.
                 try_fold (expand_provision inp def d) (rd_provision def) b))))"

section \<open>Loops and the whole construction\<close>

partial_function (option) expand_all :: "graph_input \<Rightarrow> builder \<Rightarrow> (fault + builder) option" where
  "expand_all inp b =
     (case b_queue b of
        [] \<Rightarrow> Some (Ok b)
      | d # q \<Rightarrow>
          (case expand inp d (b\<lparr>b_queue := q\<rparr>) of
             Inl e \<Rightarrow> Some (Err e)
           | Inr b \<Rightarrow> expand_all inp b))"

definition consumers :: "builder \<Rightarrow> co_provision \<Rightarrow> descriptor list" where
  "consumers b c = map nd_descriptor (filter (\<lambda>n. cp_source c \<in> set (nd_depends_on n) \<and>
     nd_descriptor n \<noteq> cp_co c \<and> nd_descriptor n \<noteq> cp_source c) (map snd (b_nodes b)))"

definition match_consumer :: "co_provision \<Rightarrow> descriptor \<Rightarrow> bool \<times> builder \<Rightarrow> fault + bool \<times> builder" where
  "match_consumer c consumer = (\<lambda>(added, b).
     rbind (Builder_edge consumer (cp_co c) b) (\<lambda>(new, b). Ok (added \<or> new, b)))"

definition match_co :: "co_provision \<Rightarrow> bool \<times> builder \<Rightarrow> fault + bool \<times> builder" where
  "match_co c s = try_fold (match_consumer c) (consumers (snd s) c) s"

definition match_round :: "builder \<Rightarrow> fault + bool \<times> builder" where
  "match_round b = try_fold match_co (filter cp_match_dependents (b_co b)) (False, b)"

partial_function (option) match_dependents :: "builder \<Rightarrow> (fault + builder) option" where
  "match_dependents b =
     (case match_round b of
        Inl e \<Rightarrow> Some (Err e)
      | Inr r \<Rightarrow> if \<not> fst r then Some (Ok (snd r)) else match_dependents (snd r))"

declare expand_all.simps [code] match_dependents.simps [code]

definition dependency_map :: "nodes \<Rightarrow> descriptor remaining" where
  "dependency_map nodes = map (\<lambda>(d, n). (d, nd_depends_on n)) nodes"

definition topological_layers :: "nodes \<Rightarrow> fault + descriptor list list" where
  "topological_layers nodes =
     map_err (\<lambda>c. case c of Some ds \<Rightarrow> Fails (Cycle ds) | None \<Rightarrow> Panics ''find_cycle'')
       (layers_loop (dependency_map nodes) [])"

text \<open>The requests of the deployment set.\<close>

definition workload_descriptor :: "string \<Rightarrow> module \<Rightarrow> descriptor" where
  "workload_descriptor wid m = Descriptor ''workload'' (mo_class m) (ResId_workload wid)"

definition workload_params :: "string \<Rightarrow> module \<Rightarrow> json" where
  "workload_params wid m = JObj [(''id'', JStr wid), (''class'', JStr (mo_class m)), (''spec'', JObj (mo_spec m))]"

definition module_path :: "string \<Rightarrow> string" where
  "module_path wid = ''modules.'' @ wid"

definition external_path :: "string \<Rightarrow> string \<Rightarrow> string" where
  "external_path wid key = module_path wid @ ''.externals.'' @ key"

definition external_res_id :: "string \<Rightarrow> string \<Rightarrow> external \<Rightarrow> id_error + string" where
  "external_res_id wid key ext =
     (case ex_id ext of Some i \<Rightarrow> ResId_shared i | None \<Rightarrow> ResId_private wid key)"

definition request_external ::
  "graph_input \<Rightarrow> string \<Rightarrow> module \<Rightarrow> string \<times> external \<Rightarrow> builder \<Rightarrow> fault + builder" where
  "request_external inp wid m = (\<lambda>(key, ext) b.
     rbind (map_err (\<lambda>e. Fails (InvalidId (external_path wid key) e)) (external_res_id wid key ext)) (\<lambda>rid.
     let dep = Descriptor (ex_ty ext) (ex_class ext) rid in
     rbind (Builder_request inp dep (external_path wid key) (Some (case_option JNull id (ex_params ext))) b)
       (add_edge (workload_descriptor wid m) dep)))"

definition request_module :: "graph_input \<Rightarrow> string \<times> module \<Rightarrow> builder \<Rightarrow> fault + builder" where
  "request_module inp = (\<lambda>(wid, m) b.
     rbind (Builder_request inp (workload_descriptor wid m) (module_path wid) (Some (workload_params wid m)) b)
       (try_fold (request_external inp wid m) (mo_externals m)))"

definition request_shared :: "graph_input \<Rightarrow> string \<times> shared_resource \<Rightarrow> builder \<Rightarrow> fault + builder" where
  "request_shared inp = (\<lambda>(i, s) b.
     rbind (map_err (\<lambda>e. Fails (InvalidId (''shared.'' @ i) e)) (ResId_shared i)) (\<lambda>rid.
       Builder_request inp (Descriptor (sh_ty s) (sh_class s) rid) (''shared.'' @ i)
         (Some (case_option JNull id (sh_params s))) b))"

definition shared_edge :: "graph_input \<Rightarrow> descriptor \<Rightarrow> string \<times> raw_placeholder \<times> expr \<Rightarrow> builder \<Rightarrow> fault + builder" where
  "shared_edge inp w = (\<lambda>(_, _, ex) b.
     case ex of
       EShared i _ \<Rightarrow>
         (case map_of (ds_shared (gi_set inp)) i of
            None \<Rightarrow> Ok b
          | Some s \<Rightarrow>
              (case ResId_shared i of
                 Inl _ \<Rightarrow> Ok b
               | Inr rid \<Rightarrow> add_edge w (Descriptor (sh_ty s) (sh_class s) rid) b))
     | _ \<Rightarrow> Ok b)"

definition shared_edges :: "graph_input \<Rightarrow> string \<times> module \<Rightarrow> builder \<Rightarrow> fault + builder" where
  "shared_edges inp = (\<lambda>(wid, m) b.
     try_fold (shared_edge inp (workload_descriptor wid m))
       (case collect_placeholders (JObj (mo_spec m)) DSet ''spec'' of Inl _ \<Rightarrow> [] | Inr found \<Rightarrow> found) b)"

definition base_env :: descriptor where
  "base_env = Descriptor ''base-env'' default_class ''base-env''"

definition seed :: "graph_input \<Rightarrow> fault + builder" where
  "seed inp =
     rbind (Builder_request inp base_env ''base-env'' None \<lparr>b_nodes = [], b_explicit = [], b_queue = [], b_co = []\<rparr>) (\<lambda>b.
     rbind (try_fold (request_module inp) (ds_modules (gi_set inp)) b) (\<lambda>b.
     rbind (try_fold (request_shared inp) (ds_shared (gi_set inp)) b) (\<lambda>b.
       try_fold (shared_edges inp) (ds_modules (gi_set inp)) b)))"

definition build_graph :: "graph_input \<Rightarrow> (fault + resource_graph) option" where
  "build_graph inp =
     (case seed inp of
        Inl e \<Rightarrow> Some (Err e)
      | Inr b \<Rightarrow>
          Option.bind (expand_all inp b) (\<lambda>r. case r of
            Inl e \<Rightarrow> Some (Err e)
          | Inr b \<Rightarrow>
              map_option (\<lambda>r. rbind r (\<lambda>b. rbind (topological_layers (b_nodes b)) (\<lambda>layers.
                Ok \<lparr>rg_nodes = b_nodes b, rg_layers = layers\<rparr>))) (match_dependents b)))"

end
