(* ===== verification/Graph_Inv.thy ===== *)
theory Graph_Inv
  imports Graph
begin

text \<open>
  The invariant of the graph builder of \<open>Graph\<close> and that its requests and edges keep it:
  \<open>ok_builder\<close> is the invariant, \<open>extends\<close> how the operations grow the builder, and \<open>universe\<close> the
  finite set of descriptors that can ever be requested.
\<close>


section \<open>The invariant of the builder\<close>

abbreviation node_keys :: "builder \<Rightarrow> descriptor set" where
  "node_keys b \<equiv> fst ` set (b_nodes b)"

definition is_panic :: "fault \<Rightarrow> bool" where
  "is_panic f = (case f of Panics _ \<Rightarrow> True | Fails _ \<Rightarrow> False)"

lemma is_panic_simps [simp]: "is_panic (Panics s)" "\<not> is_panic (Fails e)"
  by (simp_all add: is_panic_def)

text \<open>A node carries the definition that matches it, its requests once each in order, and params on
  which all requests that supply some agree: \<open>e\<close> is the entry of \<open>explicit\<close> for the node.\<close>

definition node_ok :: "graph_input \<Rightarrow> (string \<times> string) option \<Rightarrow> descriptor \<Rightarrow> node \<Rightarrow> bool" where
  "node_ok inp e d n \<longleftrightarrow> nd_descriptor n = d
     \<and> (\<exists>def. select_definition (gi_definitions inp) (node_context inp d) = Ok def \<and>
          nd_definition n = rd_id def \<and> nd_driver_type n = rd_driver_type def)
     \<and> sorted_wrt (<) (nd_depends_on n) \<and> sorted_wrt (<) (nd_requests n) \<and> nd_requests n \<noteq> []
     \<and> nd_params n \<noteq> Some JNull
     \<and> (\<forall>r \<in> set (nd_requests n). rq_params r = None \<or> rq_params r = map_option snd e)
     \<and> (e = None \<longrightarrow> nd_params n = None)
     \<and> (\<forall>p c. e = Some (p, c) \<longrightarrow> Request p (Some c) \<in> set (nd_requests n) \<and>
          to_canonical_string (case_option JNull id (nd_params n)) = c)"

definition ok_builder :: "graph_input \<Rightarrow> descriptor set \<Rightarrow> builder \<Rightarrow> bool" where
  "ok_builder inp U b \<longleftrightarrow> bt_invar (b_nodes b) \<and> bt_invar (b_explicit b)
     \<and> (\<forall>d n. map_of (b_nodes b) d = Some n \<longrightarrow>
          node_ok inp (map_of (b_explicit b) d) d n \<and> set (nd_depends_on n) \<subseteq> node_keys b)
     \<and> fst ` set (b_explicit b) \<subseteq> node_keys b \<and> set (b_queue b) \<subseteq> node_keys b \<and> node_keys b \<subseteq> U
     \<and> (\<forall>c \<in> set (b_co b). cp_source c \<in> node_keys b \<and> cp_co c \<in> node_keys b)"

definition has_edge :: "builder \<Rightarrow> descriptor \<Rightarrow> descriptor \<Rightarrow> bool" where
  "has_edge b x y = (case map_of (b_nodes b) x of None \<Rightarrow> False | Some n \<Rightarrow> y \<in> set (nd_depends_on n))"

text \<open>Growth: nodes keep their definition and gain edges, new nodes are queued, and what is left of
  the universe \<open>U\<close> and the queue together do not change.\<close>

definition node_grows :: "node \<Rightarrow> node \<Rightarrow> bool" where
  "node_grows n n' \<longleftrightarrow> nd_definition n' = nd_definition n \<and> set (nd_depends_on n) \<subseteq> set (nd_depends_on n') \<and>
     set (nd_requests n) \<subseteq> set (nd_requests n')"

definition nodes_grow :: "nodes \<Rightarrow> nodes \<Rightarrow> bool" where
  "nodes_grow m m' \<longleftrightarrow> (\<forall>d n. map_of m d = Some n \<longrightarrow> (\<exists>n'. map_of m' d = Some n' \<and> node_grows n n'))"

definition extends :: "descriptor set \<Rightarrow> builder \<Rightarrow> builder \<Rightarrow> bool" where
  "extends U b b' \<longleftrightarrow> nodes_grow (b_nodes b) (b_nodes b')
     \<and> set (b_co b) \<subseteq> set (b_co b') \<and> set (b_queue b) \<subseteq> set (b_queue b')
     \<and> node_keys b' \<subseteq> node_keys b \<union> set (b_queue b')
     \<and> card (U - node_keys b') + length (b_queue b') = card (U - node_keys b) + length (b_queue b)"

lemma node_grows_refl [simp]: "node_grows n n"
  by (simp add: node_grows_def)

lemma node_grows_trans: "node_grows a b \<Longrightarrow> node_grows b c \<Longrightarrow> node_grows a c"
  unfolding node_grows_def by auto

lemma nodes_grow_refl [simp]: "nodes_grow m m"
  by (simp add: nodes_grow_def)

lemma nodes_grow_trans: "nodes_grow a b \<Longrightarrow> nodes_grow b c \<Longrightarrow> nodes_grow a c"
  unfolding nodes_grow_def using node_grows_trans by metis

lemma extends_refl: "extends U b b"
  by (auto simp: extends_def)

lemma extends_trans:
  assumes "extends U a b" "extends U b c" shows "extends U a c"
proof -
  have 1: "nodes_grow (b_nodes a) (b_nodes b)" "nodes_grow (b_nodes b) (b_nodes c)"
    using assms by (simp_all add: extends_def)
  have 2: "set (b_co a) \<subseteq> set (b_co b)" "set (b_co b) \<subseteq> set (b_co c)"
    "set (b_queue a) \<subseteq> set (b_queue b)" "set (b_queue b) \<subseteq> set (b_queue c)"
    using assms by (simp_all add: extends_def)
  have 3: "node_keys b \<subseteq> node_keys a \<union> set (b_queue b)" "node_keys c \<subseteq> node_keys b \<union> set (b_queue c)"
    using assms by (simp_all add: extends_def)
  have 4: "card (U - node_keys c) + length (b_queue c) = card (U - node_keys a) + length (b_queue a)"
    using assms by (simp add: extends_def)
  from 3 2(4) have "node_keys c \<subseteq> node_keys a \<union> set (b_queue c)" by blast
  with nodes_grow_trans [OF 1] 2 4 show ?thesis unfolding extends_def by (auto intro: subset_trans)
qed

interpretation gb: growing "ok_builder inp U" "extends U" is_panic for inp U
  by unfold_locales (rule extends_refl, erule (1) extends_trans)

abbreviation b_step :: "graph_input \<Rightarrow> descriptor set \<Rightarrow> builder \<Rightarrow> fault + builder \<Rightarrow> bool" where
  "b_step inp U \<equiv> step_ok (ok_builder inp U) (extends U) is_panic"

lemma node_key_iff: "d \<in> node_keys b \<longleftrightarrow> (\<exists>n. map_of (b_nodes b) d = Some n)"
  by (metis map_of_eq_None_iff not_None_eq)

lemma extends_node:
  assumes "extends U b b'" "map_of (b_nodes b) d = Some n"
  obtains n' where "map_of (b_nodes b') d = Some n'" "node_grows n n'"
proof -
  have "nodes_grow (b_nodes b) (b_nodes b')" using assms(1) by (simp add: extends_def)
  then show ?thesis using assms(2) that unfolding nodes_grow_def by meson
qed

lemma extends_keys:
  assumes "extends U b b'" shows "node_keys b \<subseteq> node_keys b'"
proof
  fix d assume "d \<in> node_keys b"
  then obtain n where "map_of (b_nodes b) d = Some n" unfolding node_key_iff ..
  with assms obtain n' where "map_of (b_nodes b') d = Some n'" by (rule extends_node)
  then show "d \<in> node_keys b'" unfolding node_key_iff by (rule exI)
qed

lemma has_edge_iff: "has_edge b x y \<longleftrightarrow> (\<exists>n. map_of (b_nodes b) x = Some n \<and> y \<in> set (nd_depends_on n))"
  by (simp add: has_edge_def split: option.split)

lemma extends_edge:
  assumes "has_edge b x y" "extends U b b'" shows "has_edge b' x y"
proof -
  from assms(1) obtain n where n: "map_of (b_nodes b) x = Some n" "y \<in> set (nd_depends_on n)"
    unfolding has_edge_iff by (elim exE conjE)
  from assms(2) n(1) obtain n' where "map_of (b_nodes b') x = Some n'" "node_grows n n'" by (rule extends_node)
  with n(2) show ?thesis unfolding has_edge_iff node_grows_def by (intro exI [of _ n']) auto
qed

lemma keys_modify [simp]: "fst ` set (bt_modify d f m) = fst ` set m"
  by (metis keys_bt_modify set_map)

lemma modify_ok:
  assumes ok: "ok_builder inp U b" and n: "map_of (b_nodes b) d = Some n"
    and f: "node_ok inp (map_of ex d) d (f n)" "set (nd_depends_on (f n)) \<subseteq> node_keys b" "node_grows n (f n)"
    and ex: "bt_invar ex" "\<And>k. k \<noteq> d \<Longrightarrow> map_of ex k = map_of (b_explicit b) k" "fst ` set ex \<subseteq> node_keys b"
  shows "ok_builder inp U (b\<lparr>b_nodes := bt_modify d f (b_nodes b), b_explicit := ex\<rparr>) \<and>
    extends U b (b\<lparr>b_nodes := bt_modify d f (b_nodes b), b_explicit := ex\<rparr>)"
proof
  have look: "map_of (bt_modify d f (b_nodes b)) k = (if k = d then Some (f n) else map_of (b_nodes b) k)" for k
    using n by (simp add: map_of_bt_modify)
  have nodes: "map_of (b_nodes b) k = Some m \<Longrightarrow>
      node_ok inp (map_of (b_explicit b) k) k m \<and> set (nd_depends_on m) \<subseteq> node_keys b" for k m
    using ok by (simp add: ok_builder_def)
  have "node_ok inp (map_of ex k) k m \<and> set (nd_depends_on m) \<subseteq> node_keys b"
    if "map_of (bt_modify d f (b_nodes b)) k = Some m" for k m
    using that nodes [of k m] f ex(2) [of k] by (simp add: look split: if_splits)
  with ok ex show "ok_builder inp U (b\<lparr>b_nodes := bt_modify d f (b_nodes b), b_explicit := ex\<rparr>)"
    by (simp add: ok_builder_def)
  have "nodes_grow (b_nodes b) (bt_modify d f (b_nodes b))"
    unfolding nodes_grow_def look using f(3) n by simp
  then show "extends U b (b\<lparr>b_nodes := bt_modify d f (b_nodes b), b_explicit := ex\<rparr>)"
    by (simp add: extends_def)
qed

lemma insert_ok:
  assumes ok: "ok_builder inp U b" and n: "map_of (b_nodes b) d = None" and U: "finite U" "d \<in> U"
    and m: "node_ok inp (map_of ex d) d m" "nd_depends_on m = []"
    and ex: "bt_invar ex" "\<And>k. k \<noteq> d \<Longrightarrow> map_of ex k = map_of (b_explicit b) k"
      "fst ` set ex \<subseteq> insert d (node_keys b)"
  shows "ok_builder inp U (b\<lparr>b_explicit := ex, b_nodes := bt_insert d m (b_nodes b), b_queue := b_queue b @ [d]\<rparr>) \<and>
    extends U b (b\<lparr>b_explicit := ex, b_nodes := bt_insert d m (b_nodes b), b_queue := b_queue b @ [d]\<rparr>)"
proof
  have inv: "bt_invar (b_nodes b)" using ok by (simp add: ok_builder_def)
  have look: "map_of (bt_insert d m (b_nodes b)) k = (if k = d then Some m else map_of (b_nodes b) k)" for k
    using inv by (simp add: map_of_bt_insert)
  have nodes: "map_of (b_nodes b) k = Some v \<Longrightarrow>
      node_ok inp (map_of (b_explicit b) k) k v \<and> set (nd_depends_on v) \<subseteq> node_keys b" for k v
    using ok by (simp add: ok_builder_def)
  have "node_ok inp (map_of ex k) k v \<and> set (nd_depends_on v) \<subseteq> insert d (node_keys b)"
    if "map_of (bt_insert d m (b_nodes b)) k = Some v" for k v
    using that nodes [of k v] m ex(2) [of k] by (auto simp: look split: if_splits)
  with ok ex inv U show "ok_builder inp U (b\<lparr>b_explicit := ex, b_nodes := bt_insert d m (b_nodes b), b_queue := b_queue b @ [d]\<rparr>)"
    by (auto simp: ok_builder_def keys_bt_insert bt_invar_insert)
  have new: "d \<in> U - node_keys b" using n U by (simp add: map_of_eq_None_iff)
  have "card (U - insert d (node_keys b)) + 1 = card (U - node_keys b)"
  proof -
    have "U - insert d (node_keys b) = (U - node_keys b) - {d}" by auto
    then show ?thesis using new U card_Suc_Diff1 [of "U - node_keys b" d] by simp
  qed
  moreover have "nodes_grow (b_nodes b) (bt_insert d m (b_nodes b))"
    unfolding nodes_grow_def look using n by simp
  ultimately show "extends U b (b\<lparr>b_explicit := ex, b_nodes := bt_insert d m (b_nodes b), b_queue := b_queue b @ [d]\<rparr>)"
    by (auto simp: extends_def keys_bt_insert)
qed

section \<open>Requests and edges keep it\<close>

lemma strict_insort_insert [simp]: "sorted_wrt (<) xs \<Longrightarrow> sorted_wrt (<) (insort_insert x xs)"
  for xs :: "'a::linorder list"
  by (simp add: strict_sorted_iff sorted_insort_insert distinct_insort_insert)

lemma insort_insert_nonempty [simp]: "insort_insert x xs \<noteq> []"
  by (metis empty_iff insert_iff list.set(1) set_insort_insert)

lemma non_null_simps [simp]:
  "to_canonical_string (case_option JNull id (non_null (Some p))) = to_canonical_string p"
  "non_null params \<noteq> Some JNull" "non_null None = None"
  by (auto simp: non_null_def split: json.splits option.splits)

lemma bt_modify_modify: "bt_modify d f (bt_modify d g m) = bt_modify d (\<lambda>n. f (g n)) m"
  by (simp add: bt_modify_def)

lemma builder_commute: "b\<lparr>b_explicit := e, b_nodes := m\<rparr> = b\<lparr>b_nodes := m, b_explicit := e\<rparr>"
  by (cases b) simp

lemma node_ok_request:
  assumes "node_ok inp e d n" "c = None \<or> c = map_option snd e"
  shows "node_ok inp e d (n\<lparr>nd_requests := insort_insert (Request path c) (nd_requests n)\<rparr>)"
  using assms by (simp add: node_ok_def set_insort_insert)

lemma node_ok_params:
  assumes "node_ok inp None d n"
  shows "node_ok inp (Some (path, to_canonical_string p)) d
    (n\<lparr>nd_params := non_null (Some p), nd_requests :=
       insort_insert (Request path (Some (to_canonical_string p))) (nd_requests n)\<rparr>)"
  using assms by (simp add: node_ok_def set_insort_insert)

lemma node_ok_edge:
  "node_ok inp e d n \<Longrightarrow> node_ok inp e d (n\<lparr>nd_depends_on := insort_insert to (nd_depends_on n)\<rparr>)"
  by (simp add: node_ok_def)

lemma node_ok_new:
  assumes "select_definition (gi_definitions inp) (node_context inp d) = Ok def"
    and "e = map_option (\<lambda>p. (path, to_canonical_string p)) params"
  shows "node_ok inp e d \<lparr>nd_descriptor = d, nd_definition = rd_id def, nd_driver_type = rd_driver_type def,
    nd_params = non_null params, nd_requests = [Request path (map_option to_canonical_string params)], nd_depends_on = []\<rparr>"
  using assms by (cases params) (simp_all add: node_ok_def)

lemma ok_node:
  "ok_builder inp U b \<Longrightarrow> map_of (b_nodes b) d = Some n \<Longrightarrow>
   node_ok inp (map_of (b_explicit b) d) d n \<and> set (nd_depends_on n) \<subseteq> node_keys b"
  by (simp add: ok_builder_def)

lemma ok_explicit:
  "ok_builder inp U b \<Longrightarrow> bt_invar (b_explicit b) \<and> fst ` set (b_explicit b) \<subseteq> node_keys b"
  by (simp add: ok_builder_def)

lemma request_existing:
  assumes ok: "ok_builder inp U b" and n: "map_of (b_nodes b) d = Some n"
  shows "b_step inp U b (rbind (settle_params d path params b) (\<lambda>b.
     Ok (b\<lparr>b_nodes := bt_modify d (\<lambda>n. n\<lparr>nd_requests :=
       insort_insert (Request path (map_option to_canonical_string params)) (nd_requests n)\<rparr>) (b_nodes b)\<rparr>)))"
proof -
  note nd = ok_node [OF ok n] and ex = ok_explicit [OF ok]
  let ?f = "\<lambda>n. n\<lparr>nd_requests := insort_insert (Request path (map_option to_canonical_string params)) (nd_requests n)\<rparr>"
  have keep: "b_step inp U b (Ok (b\<lparr>b_nodes := bt_modify d ?f (b_nodes b)\<rparr>))"
    if "map_option to_canonical_string params = None \<or>
        map_option to_canonical_string params = map_option snd (map_of (b_explicit b) d)"
  proof -
    have f: "node_ok inp (map_of (b_explicit b) d) d (?f n)" "set (nd_depends_on (?f n)) \<subseteq> node_keys b"
        "node_grows n (?f n)"
      using nd that by (auto simp: node_ok_request node_grows_def set_insort_insert)
    show ?thesis using modify_ok [where f = ?f and ex = "b_explicit b", OF ok n f] ex by simp
  qed
  show ?thesis
  proof (cases params)
    case None
    then show ?thesis using keep by (simp add: settle_params_def)
  next
    case (Some p)
    show ?thesis
    proof (cases "map_of (b_explicit b) d")
      case e: None
      let ?g = "\<lambda>n. n\<lparr>nd_params := non_null (Some p), nd_requests :=
         insort_insert (Request path (Some (to_canonical_string p))) (nd_requests n)\<rparr>"
      let ?ex = "bt_insert d (path, to_canonical_string p) (b_explicit b)"
      have look: "map_of ?ex = (map_of (b_explicit b))(d \<mapsto> (path, to_canonical_string p))"
        using ex by (simp add: map_of_bt_insert)
      have g: "node_ok inp (map_of ?ex d) d (?g n)" "set (nd_depends_on (?g n)) \<subseteq> node_keys b" "node_grows n (?g n)"
        using nd e by (auto simp: look node_ok_params node_grows_def set_insort_insert)
      have keys: "fst ` set ?ex \<subseteq> node_keys b"
        using ex n by (auto simp: keys_bt_insert node_key_iff)
      have "b_step inp U b (Ok (b\<lparr>b_nodes := bt_modify d ?g (b_nodes b), b_explicit := ?ex\<rparr>))"
        using modify_ok [where f = ?g and ex = ?ex, OF ok n g] ex keys by (simp add: look bt_invar_insert)
      then show ?thesis by (simp add: settle_params_def Some e bt_modify_modify builder_commute)
    next
      case e: (Some q)
      show ?thesis
      proof (cases "snd q = to_canonical_string p")
        case True
        then show ?thesis using keep Some e by (cases q) (simp add: settle_params_def)
      next
        case False
        then show ?thesis using Some e by (cases q) (simp add: settle_params_def Let_def)
      qed
    qed
  qed
qed

lemma request_ok:
  assumes "ok_builder inp U b" "finite U" "d \<in> U"
  shows "b_step inp U b (Builder_request inp d path params b)"
proof (cases "find_type inp (d_ty d) = None \<or> \<not> ClassRegistry_contains (gi_classes inp) (d_ty d) (d_class d)")
  case False
  then have ok: "find_type inp (d_ty d) \<noteq> None" "ClassRegistry_contains (gi_classes inp) (d_ty d) (d_class d)"
    by simp_all
  show ?thesis
  proof (cases "map_of (b_nodes b) d")
    case (Some n)
    from request_existing [OF assms(1) Some, of path params] ok Some show ?thesis
      by (simp add: Builder_request_def Let_def)
  next
    case None
    show ?thesis
    proof (cases "select_definition (gi_definitions inp) (node_context inp d)")
      case (Inl e)
      then show ?thesis using ok None by (simp add: Builder_request_def Let_def)
    next
      case (Inr def)
      let ?n = "\<lparr>nd_descriptor = d, nd_definition = rd_id def, nd_driver_type = rd_driver_type def,
        nd_params = non_null params, nd_requests = [Request path (map_option to_canonical_string params)], nd_depends_on = []\<rparr>"
      define ex where "ex = (case map_option to_canonical_string params of None \<Rightarrow> b_explicit b
        | Some c \<Rightarrow> bt_insert d (path, c) (b_explicit b))"
      note expl = ok_explicit [OF assms(1)]
      have "map_of (b_explicit b) d = None"
        using expl None by (metis map_of_eq_None_iff subsetD)
      then have look: "map_of ex = (map_of (b_explicit b))(d := map_option (\<lambda>p. (path, to_canonical_string p)) params)"
        using expl by (cases params) (auto simp: ex_def map_of_bt_insert fun_eq_iff)
      have inv: "bt_invar ex" "fst ` set ex \<subseteq> insert d (node_keys b)"
        using expl by (cases params; auto simp: ex_def bt_invar_insert keys_bt_insert)+
      have n: "node_ok inp (map_of ex d) d ?n" by (rule node_ok_new [OF Inr]) (simp only: look fun_upd_same)
      have "b_step inp U b (Ok (b\<lparr>b_explicit := ex, b_nodes := bt_insert d ?n (b_nodes b), b_queue := b_queue b @ [d]\<rparr>))"
        unfolding step_ok_simps
        by (rule insert_ok [OF assms(1) None assms(2,3) n _ inv(1) _ inv(2)]) (simp_all add: look)
      then show ?thesis using ok None Inr by (simp add: Builder_request_def Let_def ex_def)
    qed
  qed
qed (auto simp: Builder_request_def)

lemma request_keys: "Builder_request inp d path params b = Ok b' \<Longrightarrow> d \<in> node_keys b'"
proof -
  assume r: "Builder_request inp d path params b = Ok b'"
  have "settle_params d path params b = Ok c \<Longrightarrow> map fst (b_nodes c) = map fst (b_nodes b)" for c
    by (auto simp: settle_params_def Let_def split: option.splits if_splits prod.splits)
  then have settle: "settle_params d path params b = Ok c \<Longrightarrow> node_keys c = node_keys b" for c
    by (metis set_map)
  from r show ?thesis
  proof (cases "map_of (b_nodes b) d")
    case None
    with r show ?thesis
      by (auto simp: Builder_request_def Let_def rbind_eq_Inr keys_bt_insert split: if_splits)
  next
    case (Some n)
    with r obtain c where c: "settle_params d path params b = Ok c" "node_keys b' = node_keys c"
      by (auto simp: Builder_request_def Let_def rbind_eq_Inr split: if_splits)
    from Some have "d \<in> node_keys b" unfolding node_key_iff by (rule exI)
    with c settle [OF c(1)] show ?thesis by simp
  qed
qed

lemma add_edge_eq:
  "map_of (b_nodes b) x = Some n \<Longrightarrow> add_edge x y b =
     Ok (b\<lparr>b_nodes := bt_modify x (\<lambda>n. n\<lparr>nd_depends_on := insort_insert y (nd_depends_on n)\<rparr>) (b_nodes b)\<rparr>)"
  by (simp add: add_edge_def Builder_edge_def)

lemma add_edge_ok:
  assumes ok: "ok_builder inp U b" and x: "x \<in> node_keys b" and y: "y \<in> node_keys b"
  shows "b_step inp U b (add_edge x y b)"
proof -
  let ?f = "\<lambda>n. n\<lparr>nd_depends_on := insort_insert y (nd_depends_on n)\<rparr>"
  from x obtain n where n: "map_of (b_nodes b) x = Some n" unfolding node_key_iff ..
  have f: "node_ok inp (map_of (b_explicit b) x) x (?f n)" "set (nd_depends_on (?f n)) \<subseteq> node_keys b" "node_grows n (?f n)"
    using ok_node [OF ok n] y by (auto simp: node_ok_edge node_grows_def set_insort_insert)
  show ?thesis unfolding add_edge_eq [OF n]
    using modify_ok [where f = ?f and ex = "b_explicit b", OF ok n f] ok_explicit [OF ok] by simp
qed

lemma add_edge_edge: "add_edge x y b = Ok b' \<Longrightarrow> has_edge b' x y"
  by (cases "map_of (b_nodes b) x")
    (auto simp: add_edge_def Builder_edge_def has_edge_def map_of_bt_modify set_insort_insert)

text \<open>A request followed by an edge.\<close>

lemma request_edge_ok:
  assumes "ok_builder inp U b" "finite U" "d \<in> U" "x \<in> node_keys b"
  shows "b_step inp U b (rbind (Builder_request inp d path params b) (add_edge x d))"
proof (rule gb.step_bind [OF request_ok [OF assms(1-3)]])
  fix b' assume r: "Builder_request inp d path params b = Ok b'" "ok_builder inp U b'" "extends U b b'"
  show "b_step inp U b' (add_edge x d b')"
    using r(2) by (rule add_edge_ok) (use request_keys [OF r(1)] extends_keys [OF r(3)] assms(4) in auto)
qed

section \<open>Everything that can be requested\<close>

definition refs_in :: "found \<Rightarrow> resource_ref set" where
  "refs_in found = {t. \<exists>l r f. (l, r, EResource t f) \<in> set found}"

definition provision_targets :: "string \<times> provision \<Rightarrow> resource_ref set" where
  "provision_targets = (\<lambda>(key, prov). (case ResourceRef_parse key of Inl _ \<Rightarrow> {} | Inr t \<Rightarrow> {t}) \<union>
     (case collect_placeholders (provision_params prov) DDefinition (provision_loc key @ ''.params'') of
        Inl _ \<Rightarrow> {} | Inr found \<Rightarrow> refs_in found))"

definition targets :: "graph_input \<Rightarrow> resource_ref set" where
  "targets inp = (\<Union>def \<in> set (gi_definitions inp).
     (case definition_placeholders def of Inl _ \<Rightarrow> {} | Inr found \<Rightarrow> refs_in found) \<union>
     \<Union> (provision_targets ` set (rd_provision def)))"

definition external_descriptors :: "string \<Rightarrow> module \<Rightarrow> descriptor set" where
  "external_descriptors wid m = (\<Union>(key, ext) \<in> set (mo_externals m).
     case external_res_id wid key ext of Inl _ \<Rightarrow> {} | Inr rid \<Rightarrow> {Descriptor (ex_ty ext) (ex_class ext) rid})"

definition shared_descriptors :: "graph_input \<Rightarrow> descriptor set" where
  "shared_descriptors inp = (\<Union>(i, s) \<in> set (ds_shared (gi_set inp)).
     case ResId_shared i of Inl _ \<Rightarrow> {} | Inr rid \<Rightarrow> {Descriptor (sh_ty s) (sh_class s) rid})"

definition roots :: "graph_input \<Rightarrow> descriptor set" where
  "roots inp = insert base_env ((\<Union>(wid, m) \<in> set (ds_modules (gi_set inp)).
     insert (workload_descriptor wid m) (external_descriptors wid m)) \<union> shared_descriptors inp)"

text \<open>References resolve within the types, classes and IDs at hand, so finitely many descriptors can
  ever be requested.\<close>

definition universe_types :: "graph_input \<Rightarrow> string set" where
  "universe_types inp = d_ty ` roots inp \<union> rr_ty ` targets inp"

definition universe_classes :: "graph_input \<Rightarrow> string set" where
  "universe_classes inp = insert default_class (d_class ` roots inp \<union> (\<lambda>t. the (rr_class t)) ` targets inp)"

definition universe_ids :: "graph_input \<Rightarrow> string set" where
  "universe_ids inp = d_id ` roots inp \<union> (\<lambda>t. the (rr_id t)) ` targets inp \<union>
     (\<lambda>t. projr (ResId_new (replace_str ''/'' ''-'' (rr_ty t)))) ` targets inp"

definition universe :: "graph_input \<Rightarrow> descriptor set" where
  "universe inp = (\<lambda>(t, c, i). Descriptor t c i) ` (universe_types inp \<times> universe_classes inp \<times> universe_ids inp)"

lemma finite_refs_in: "finite (refs_in found)"
proof -
  have "refs_in found \<subseteq> (\<lambda>(_, _, e). e_target e) ` set found" by (force simp: refs_in_def)
  then show ?thesis by (rule finite_subset) simp
qed

lemma finite_targets: "finite (targets inp)"
  by (auto simp: targets_def provision_targets_def finite_refs_in split: sum.splits)

lemma finite_roots: "finite (roots inp)"
  by (auto simp: roots_def external_descriptors_def shared_descriptors_def split: sum.splits)

lemma finite_universe: "finite (universe inp)"
  by (simp add: universe_def universe_types_def universe_classes_def universe_ids_def finite_targets finite_roots)

lemma universe_iff:
  "d \<in> universe inp \<longleftrightarrow> d_ty d \<in> universe_types inp \<and> d_class d \<in> universe_classes inp \<and> d_id d \<in> universe_ids inp"
  by (cases d) (force simp: universe_def)

lemma roots_universe: "d \<in> roots inp \<Longrightarrow> d \<in> universe inp"
  by (simp add: universe_iff universe_types_def universe_classes_def universe_ids_def)

lemma target_universe:
  assumes "t \<in> targets inp"
  shows "rr_ty t \<in> universe_types inp" "rr_class t = Some c \<Longrightarrow> c \<in> universe_classes inp"
    "rr_id t = Some i \<Longrightarrow> i \<in> universe_ids inp" "default_class \<in> universe_classes inp"
    "projr (ResId_new (replace_str ''/'' ''-'' (rr_ty t))) \<in> universe_ids inp"
  using assms imageI [OF assms, of "\<lambda>t. the (rr_class t)"] imageI [OF assms, of "\<lambda>t. the (rr_id t)"]
  by (simp_all add: universe_types_def universe_classes_def universe_ids_def)

lemma resolve_universe:
  assumes "d \<in> universe inp" "t \<in> targets inp" shows "resolve_ref inp t d \<in> universe inp"
  using assms(1) target_universe [OF assms(2)] unfolding universe_iff resolve_ref_def ResourceRef_resolve_def Let_def
  by (cases "rr_class t"; cases "rr_id t") simp_all

end
