(* ===== verification/Graph_Correct.thy ===== *)
theory Graph_Correct
  imports Graph_Inv
begin

text \<open>
  Correctness of the graph construction: both loops end, no \<open>expect\<close> fails, and the graph has what
  the set, the definitions and co-provisioning ask for, in an order that respects the dependencies.
\<close>

section \<open>Expanding a node\<close>

definition provision_done :: "graph_input \<Rightarrow> builder \<Rightarrow> descriptor \<Rightarrow> string \<times> provision \<Rightarrow> bool" where
  "provision_done inp b d p \<longleftrightarrow> (\<exists>t found. ResourceRef_parse (fst p) = Ok t \<and>
     collect_placeholders (provision_params (snd p)) DDefinition (provision_loc (fst p) @ ''.params'') = Ok found \<and>
     (if pv_is_dependent (snd p) then has_edge b d (resolve_ref inp t d) else has_edge b (resolve_ref inp t d) d) \<and>
     (\<forall>u \<in> refs_in found. resolve_ref inp u d \<noteq> resolve_ref inp t d \<longrightarrow>
        has_edge b (resolve_ref inp t d) (resolve_ref inp u d)) \<and>
     CoProvision d (resolve_ref inp t d) (pv_match_dependents (snd p)) \<in> set (b_co b))"

definition refs_done :: "graph_input \<Rightarrow> builder \<Rightarrow> descriptor \<Rightarrow> resource_definition \<Rightarrow> bool" where
  "refs_done inp b d def \<longleftrightarrow> (\<exists>found. definition_placeholders def = Ok found \<and>
     (\<forall>t \<in> refs_in found. has_edge b d (resolve_ref inp t d)))"

definition expanded :: "graph_input \<Rightarrow> builder \<Rightarrow> descriptor \<Rightarrow> bool" where
  "expanded inp b d \<longleftrightarrow> (\<exists>n def. map_of (b_nodes b) d = Some n \<and>
     find (\<lambda>x. rd_id x = nd_definition n) (gi_definitions inp) = Some def \<and>
     refs_done inp b d def \<and> (\<forall>p \<in> set (rd_provision def). provision_done inp b d p))"

lemma extends_co: "extends U b b' \<Longrightarrow> set (b_co b) \<subseteq> set (b_co b')"
  by (simp add: extends_def)

lemma provision_done_mono: "provision_done inp b d p \<Longrightarrow> extends U b b' \<Longrightarrow> provision_done inp b' d p"
  unfolding provision_done_def using extends_edge [of b _ _ U b'] extends_co [of U b b'] by (metis subsetD)

lemma refs_done_mono: "refs_done inp b d def \<Longrightarrow> extends U b b' \<Longrightarrow> refs_done inp b' d def"
  unfolding refs_done_def using extends_edge [of b _ _ U b'] by metis

lemma expanded_mono:
  assumes "expanded inp b d" "extends U b b'" shows "expanded inp b' d"
proof -
  from assms(1) obtain n def where n: "map_of (b_nodes b) d = Some n"
    "find (\<lambda>x. rd_id x = nd_definition n) (gi_definitions inp) = Some def"
    "refs_done inp b d def" "\<forall>p \<in> set (rd_provision def). provision_done inp b d p"
    unfolding expanded_def by (elim exE conjE)
  from assms(2) n(1) obtain n' where "map_of (b_nodes b') d = Some n'" "node_grows n n'" by (rule extends_node)
  then show ?thesis unfolding expanded_def
    using n(2) refs_done_mono [OF n(3) assms(2)] n(4) provision_done_mono [OF _ assms(2)]
    by (intro exI [of _ n'] exI [of _ def]) (simp add: node_grows_def)
qed

lemma select_in_definitions: "select_definition defs ctx = Ok def \<Longrightarrow> def \<in> set defs"
proof -
  assume "select_definition defs ctx = Ok def"
  then have "heaviest ctx defs = [def]" by (simp add: select_definition_cases split: list.splits)
  then have "def \<in> set (heaviest ctx defs)" by simp
  then show ?thesis by (simp add: heaviest_def)
qed

lemma find_matched:
  assumes "ok_builder inp U b" "map_of (b_nodes b) d = Some n"
  obtains def where "find (\<lambda>x. rd_id x = nd_definition n) (gi_definitions inp) = Some def"
proof -
  have "node_ok inp (map_of (b_explicit b) d) d n" using ok_node [OF assms] by simp
  then obtain def where "select_definition (gi_definitions inp) (node_context inp d) = Ok def" "nd_definition n = rd_id def"
    unfolding node_ok_def by (elim conjE exE)
  then have "def \<in> set (gi_definitions inp)" "rd_id def = nd_definition n" by (simp_all add: select_in_definitions)
  then have "find (\<lambda>x. rd_id x = nd_definition n) (gi_definitions inp) \<noteq> None"
    by (metis (mono_tags, lifting) find_None_iff)
  then show ?thesis using that by (cases "find (\<lambda>x. rd_id x = nd_definition n) (gi_definitions inp)") simp_all
qed

lemma refs_targets:
  assumes "def \<in> set (gi_definitions inp)" "definition_placeholders def = Ok found" "t \<in> refs_in found"
  shows "t \<in> targets inp"
  using assms unfolding targets_def by (intro UN_I [of def]) simp_all

lemma provision_targetsI:
  assumes "def \<in> set (gi_definitions inp)" "p \<in> set (rd_provision def)" "t \<in> provision_targets p"
  shows "t \<in> targets inp"
  using assms unfolding targets_def by (intro UN_I [of def]) auto

lemma provision_targets_cases:
  "ResourceRef_parse key = Ok t \<Longrightarrow> t \<in> provision_targets (key, prov)"
  "collect_placeholders (provision_params prov) DDefinition (provision_loc key @ ''.params'') = Ok found \<Longrightarrow>
     u \<in> refs_in found \<Longrightarrow> u \<in> provision_targets (key, prov)"
  by (simp_all add: provision_targets_def)

lemma expand_ref_cases:
  "(\<exists>t f. ex = EResource t f \<and> expand_ref inp def d (loc, raw, ex) b =
      rbind (Builder_request inp (resolve_ref inp t d) (expand_path def d loc) None b) (add_edge d (resolve_ref inp t d)))
   \<or> (\<nexists>t f. ex = EResource t f) \<and> expand_ref inp def d (loc, raw, ex) b = Ok b"
  by (cases ex) (simp_all add: expand_ref_def Let_def)

lemma expand_ref_ok:
  assumes "ok_builder inp (universe inp) b" "d \<in> node_keys b" "(loc, raw, ex) \<in> set found" "refs_in found \<subseteq> targets inp"
  shows "b_step inp (universe inp) b (expand_ref inp def d (loc, raw, ex) b)"
  using expand_ref_cases [of ex inp def d loc raw b]
proof (elim disjE exE conjE)
  fix t f assume ex: "ex = EResource t f"
    and eq: "expand_ref inp def d (loc, raw, ex) b =
      rbind (Builder_request inp (resolve_ref inp t d) (expand_path def d loc) None b) (add_edge d (resolve_ref inp t d))"
  have "t \<in> targets inp" using assms(3,4) ex unfolding refs_in_def by blast
  moreover have "d \<in> universe inp" using assms(1,2) by (auto simp: ok_builder_def)
  ultimately have "resolve_ref inp t d \<in> universe inp" by (rule resolve_universe [rotated])
  then show ?thesis unfolding eq by (rule request_edge_ok [OF assms(1) finite_universe _ assms(2)])
next
  assume "expand_ref inp def d (loc, raw, ex) b = Ok b"
  then show ?thesis using assms(1) extends_refl by simp
qed

lemma expand_ref_post:
  assumes "expand_ref inp def d (loc, raw, EResource t f) b = Ok b'" shows "has_edge b' d (resolve_ref inp t d)"
  using assms by (auto simp: expand_ref_def Let_def rbind_eq_Inr intro: add_edge_edge)

lemma expand_param_ref_ok:
  assumes "ok_builder inp (universe inp) b" "d \<in> node_keys b" "co \<in> node_keys b"
    and "(loc, raw, ex) \<in> set found" "refs_in found \<subseteq> targets inp"
  shows "b_step inp (universe inp) b (expand_param_ref inp def d co (loc, raw, ex) b)"
proof (cases ex)
  case (EResource t f)
  have "t \<in> targets inp" using assms(4,5) EResource unfolding refs_in_def by blast
  moreover have "d \<in> universe inp" using assms(1,2) by (auto simp: ok_builder_def)
  ultimately have u: "resolve_ref inp t d \<in> universe inp" by (rule resolve_universe [rotated])
  have "b_step inp (universe inp) b
      (rbind (Builder_request inp (resolve_ref inp t d) (expand_path def d loc) None b) (\<lambda>b.
         if resolve_ref inp t d \<noteq> co then add_edge co (resolve_ref inp t d) b else Ok b))"
  proof (rule gb.step_bind [OF request_ok [OF assms(1) finite_universe u]])
    fix b' assume b': "Builder_request inp (resolve_ref inp t d) (expand_path def d loc) None b = Ok b'"
      "ok_builder inp (universe inp) b'" "extends (universe inp) b b'"
    have "b_step inp (universe inp) b' (add_edge co (resolve_ref inp t d) b')"
      using b'(2) by (rule add_edge_ok) (use request_keys [OF b'(1)] extends_keys [OF b'(3)] assms(3) in auto)
    then show "b_step inp (universe inp) b'
        (if resolve_ref inp t d \<noteq> co then add_edge co (resolve_ref inp t d) b' else Ok b')"
      using b'(2) extends_refl by simp
  qed
  then show ?thesis by (simp add: expand_param_ref_def EResource Let_def)
qed (use assms(1) extends_refl in \<open>simp_all add: expand_param_ref_def\<close>)

lemma expand_param_ref_post:
  assumes "expand_param_ref inp def d co (loc, raw, EResource t f) b = Ok b'" "resolve_ref inp t d \<noteq> co"
  shows "has_edge b' co (resolve_ref inp t d)"
  using assms by (auto simp: expand_param_ref_def Let_def rbind_eq_Inr intro: add_edge_edge)

lemma co_insert_ok:
  assumes "ok_builder inp U b" "d \<in> node_keys b" "co \<in> node_keys b"
  shows "b_step inp U b (Ok (b\<lparr>b_co := insort_insert (CoProvision d co m) (b_co b)\<rparr>))"
  using assms by (auto simp: ok_builder_def extends_def set_insort_insert)

text \<open>The parts of one provision, once its target is known.\<close>

definition provision_rest ::
  "graph_input \<Rightarrow> resource_definition \<Rightarrow> descriptor \<Rightarrow> descriptor \<Rightarrow> provision \<Rightarrow> found \<Rightarrow> builder \<Rightarrow> fault + builder" where
  "provision_rest inp def d co prov found b =
     rbind (try_fold (expand_param_ref inp def d co) found b) (\<lambda>b.
       Ok (b\<lparr>b_co := insort_insert (CoProvision d co (pv_match_dependents prov)) (b_co b)\<rparr>))"

lemma provision_rest_ok:
  assumes ok: "ok_builder inp (universe inp) b" and d: "d \<in> node_keys b" and co: "co \<in> node_keys b"
    and refs: "refs_in found \<subseteq> targets inp"
  shows "b_step inp (universe inp) b (provision_rest inp def d co prov found b)"
    and "provision_rest inp def d co prov found b = Ok b' \<Longrightarrow>
      (\<forall>u \<in> refs_in found. resolve_ref inp u d \<noteq> co \<longrightarrow> has_edge b' co (resolve_ref inp u d)) \<and>
      CoProvision d co (pv_match_dependents prov) \<in> set (b_co b')"
proof -
  have each: "b_step inp (universe inp) t (expand_param_ref inp def d co x t)"
    if "x \<in> set found" "ok_builder inp (universe inp) t" "extends (universe inp) b t" for x t
  proof -
    note k = subsetD [OF extends_keys [OF that(3)]]
    show ?thesis using expand_param_ref_ok [OF that(2) k [OF d] k [OF co] _ refs] that(1)
      by (cases x) simp
  qed
  have fold: "b_step inp (universe inp) b (try_fold (expand_param_ref inp def d co) found b)"
    by (rule gb.step_fold [OF ok each])
  show "b_step inp (universe inp) b (provision_rest inp def d co prov found b)"
    unfolding provision_rest_def
  proof (rule gb.step_bind [OF fold])
    fix t assume t: "ok_builder inp (universe inp) t" "extends (universe inp) b t"
    show "b_step inp (universe inp) t (Ok (t\<lparr>b_co := insort_insert (CoProvision d co (pv_match_dependents prov)) (b_co t)\<rparr>))"
      using t(1) by (rule co_insert_ok) (use extends_keys [OF t(2)] d co in auto)
  qed
  assume "provision_rest inp def d co prov found b = Ok b'"
  then obtain t where t: "try_fold (expand_param_ref inp def d co) found b = Ok t"
    "b' = t\<lparr>b_co := insort_insert (CoProvision d co (pv_match_dependents prov)) (b_co t)\<rparr>"
    by (auto simp: provision_rest_def rbind_eq_Inr)
  have "\<forall>x \<in> set found. \<forall>u f. snd (snd x) = EResource u f \<longrightarrow> resolve_ref inp u d \<noteq> co \<longrightarrow>
      has_edge t co (resolve_ref inp u d)"
  proof (rule gb.fold_post [OF ok t(1) each], assumption+)
    fix x t t' assume "expand_param_ref inp def d co x t = Ok t'"
    then show "\<forall>u f. snd (snd x) = EResource u f \<longrightarrow> resolve_ref inp u d \<noteq> co \<longrightarrow> has_edge t' co (resolve_ref inp u d)"
      using expand_param_ref_post [of inp def d co "fst x" "fst (snd x)"] by (metis prod.collapse)
  qed (use extends_edge in blast)
  then have "\<forall>u \<in> refs_in found. resolve_ref inp u d \<noteq> co \<longrightarrow> has_edge t co (resolve_ref inp u d)"
    unfolding refs_in_def by force
  then show "(\<forall>u \<in> refs_in found. resolve_ref inp u d \<noteq> co \<longrightarrow> has_edge b' co (resolve_ref inp u d)) \<and>
      CoProvision d co (pv_match_dependents prov) \<in> set (b_co b')"
    by (simp add: t(2) has_edge_def set_insort_insert)
qed

lemma expand_provision_eq:
  "expand_provision inp def d (key, prov) b =
     rbind (map_err (\<lambda>e. perr def \<lparr>pe_placeholder = key, pe_location = provision_loc key,
         pe_kind = Syntax (id_error_string e)\<rparr>) (ResourceRef_parse key)) (\<lambda>target.
     rbind (Builder_request inp (resolve_ref inp target d) (expand_path def d (provision_loc key))
       (Some (provision_params prov)) b) (\<lambda>b.
     rbind (if pv_is_dependent prov then add_edge d (resolve_ref inp target d) b
            else add_edge (resolve_ref inp target d) d b) (\<lambda>b.
     rbind (map_err (perr def) (collect_placeholders (provision_params prov) DDefinition (provision_loc key @ ''.params'')))
       (\<lambda>found. provision_rest inp def d (resolve_ref inp target d) prov found b))))"
  by (simp add: expand_provision_def provision_rest_def Let_def)

lemma expand_provision_ok:
  assumes ok: "ok_builder inp (universe inp) b" and d: "d \<in> node_keys b"
    and def: "def \<in> set (gi_definitions inp)" "(key, prov) \<in> set (rd_provision def)"
  shows "b_step inp (universe inp) b (expand_provision inp def d (key, prov) b)"
  unfolding expand_provision_eq
proof (rule gb.step_pure, goal_cases)
  case (2 t)
  then have t: "ResourceRef_parse key = Ok t" by simp
  let ?co = "resolve_ref inp t d"
  have "t \<in> targets inp" using def provision_targets_cases(1) [OF t] by (rule provision_targetsI)
  moreover have "d \<in> universe inp" using ok d by (auto simp: ok_builder_def)
  ultimately have u: "?co \<in> universe inp" by (rule resolve_universe [rotated])
  show ?case
  proof (rule gb.step_bind [OF request_ok [OF ok finite_universe u]])
    fix b1 assume b1: "Builder_request inp ?co (expand_path def d (provision_loc key)) (Some (provision_params prov)) b = Ok b1"
      "ok_builder inp (universe inp) b1" "extends (universe inp) b b1"
    have keys: "?co \<in> node_keys b1" "d \<in> node_keys b1"
      using request_keys [OF b1(1)] subsetD [OF extends_keys [OF b1(3)] d] by simp_all
    have edge: "b_step inp (universe inp) b1 (if pv_is_dependent prov then add_edge d ?co b1 else add_edge ?co d b1)"
      using add_edge_ok [OF b1(2)] keys by simp
    show "b_step inp (universe inp) b1 (rbind (if pv_is_dependent prov then add_edge d ?co b1 else add_edge ?co d b1) (\<lambda>b.
       rbind (map_err (perr def) (collect_placeholders (provision_params prov) DDefinition (provision_loc key @ ''.params'')))
       (\<lambda>found. provision_rest inp def d ?co prov found b)))"
    proof (rule gb.step_bind [OF edge], rule gb.step_pure, goal_cases)
      case (2 b2 found)
      then have found: "collect_placeholders (provision_params prov) DDefinition (provision_loc key @ ''.params'') = Ok found"
        by simp
      have "refs_in found \<subseteq> targets inp"
        using provision_targetsI [OF def provision_targets_cases(2) [OF found]] by blast
      with 2(2) show ?case
        using keys subsetD [OF extends_keys [OF 2(3)]] by (intro provision_rest_ok(1)) simp_all
    qed (auto simp: perr_def map_err_eq_Inl)
  qed
qed (auto simp: perr_def map_err_eq_Inl)

lemma expand_provision_post:
  assumes ok: "ok_builder inp (universe inp) b" and d: "d \<in> node_keys b"
    and def: "def \<in> set (gi_definitions inp)" "(key, prov) \<in> set (rd_provision def)"
    and "expand_provision inp def d (key, prov) b = Ok b'"
  shows "provision_done inp b' d (key, prov)"
proof -
  from assms(5) obtain t b1 b2 found where t: "ResourceRef_parse key = Ok t"
    and b1: "Builder_request inp (resolve_ref inp t d) (expand_path def d (provision_loc key)) (Some (provision_params prov)) b = Ok b1"
    and b2: "(if pv_is_dependent prov then add_edge d (resolve_ref inp t d) b1 else add_edge (resolve_ref inp t d) d b1) = Ok b2"
    and found: "collect_placeholders (provision_params prov) DDefinition (provision_loc key @ ''.params'') = Ok found"
    and rest: "provision_rest inp def d (resolve_ref inp t d) prov found b2 = Ok b'"
    unfolding expand_provision_eq by (auto simp: rbind_eq_Inr)
  let ?co = "resolve_ref inp t d"
  have "t \<in> targets inp" using def provision_targets_cases(1) [OF t] by (rule provision_targetsI)
  moreover have "d \<in> universe inp" using ok d by (auto simp: ok_builder_def)
  ultimately have u: "?co \<in> universe inp" by (rule resolve_universe [rotated])
  have ok1: "ok_builder inp (universe inp) b1 \<and> extends (universe inp) b b1"
    using request_ok [OF ok finite_universe u, of "expand_path def d (provision_loc key)" "Some (provision_params prov)"]
    by (simp add: b1)
  have keys: "?co \<in> node_keys b1" "d \<in> node_keys b1"
    using request_keys [OF b1] subsetD [OF extends_keys [OF conjunct2 [OF ok1]] d] by simp_all
  have ok2: "ok_builder inp (universe inp) b2 \<and> extends (universe inp) b1 b2"
    using add_edge_ok [of inp "universe inp" b1] ok1 keys b2 by (cases "pv_is_dependent prov") fastforce+
  have edge: "if pv_is_dependent prov then has_edge b2 d ?co else has_edge b2 ?co d"
    using b2 by (simp add: add_edge_edge split: if_splits)
  have refs: "refs_in found \<subseteq> targets inp"
    using provision_targetsI [OF def provision_targets_cases(2) [OF found]] by blast
  note k = subsetD [OF extends_keys [OF conjunct2 [OF ok2]]]
  note pr = provision_rest_ok [OF conjunct1 [OF ok2] k [OF keys(2)] k [OF keys(1)] refs]
  have "extends (universe inp) b2 b'" using pr(1) [of def prov] rest by simp
  then have "if pv_is_dependent prov then has_edge b' d ?co else has_edge b' ?co d"
    using edge extends_edge by (metis (full_types))
  then show ?thesis unfolding provision_done_def fst_conv snd_conv
    using t found pr(2) [OF rest] by blast
qed

lemma expand_refs_ok:
  assumes ok: "ok_builder inp (universe inp) b" and d: "d \<in> node_keys b"
    and def: "def \<in> set (gi_definitions inp)" "definition_placeholders def = Ok found"
  shows "b_step inp (universe inp) b (try_fold (expand_ref inp def d) found b)"
    and "try_fold (expand_ref inp def d) found b = Ok b' \<Longrightarrow> refs_done inp b' d def"
proof -
  have each: "b_step inp (universe inp) t (expand_ref inp def d x t)"
    if "x \<in> set found" "ok_builder inp (universe inp) t" "extends (universe inp) b t" for x t
    using expand_ref_ok [OF that(2) subsetD [OF extends_keys [OF that(3)] d], of "fst x" "fst (snd x)" "snd (snd x)" found]
      that(1) refs_targets [OF def] by auto
  show "b_step inp (universe inp) b (try_fold (expand_ref inp def d) found b)"
    using ok each by (rule gb.step_fold)
  assume b': "try_fold (expand_ref inp def d) found b = Ok b'"
  have "\<forall>x \<in> set found. \<forall>u f. snd (snd x) = EResource u f \<longrightarrow> has_edge b' d (resolve_ref inp u d)"
  proof (rule gb.fold_post [OF ok b' each], assumption+)
    fix x s s' assume "expand_ref inp def d x s = Ok s'"
    then show "\<forall>u f. snd (snd x) = EResource u f \<longrightarrow> has_edge s' d (resolve_ref inp u d)"
      using expand_ref_post [of inp def d "fst x" "fst (snd x)"] by (metis prod.collapse)
  qed (use extends_edge in blast)
  then have "\<forall>u \<in> refs_in found. has_edge b' d (resolve_ref inp u d)" unfolding refs_in_def by force
  then show "refs_done inp b' d def" unfolding refs_done_def using def(2) by blast
qed

lemma expand_provisions_ok:
  assumes ok: "ok_builder inp (universe inp) b" and d: "d \<in> node_keys b" and def: "def \<in> set (gi_definitions inp)"
  shows "b_step inp (universe inp) b (try_fold (expand_provision inp def d) (rd_provision def) b)"
    and "try_fold (expand_provision inp def d) (rd_provision def) b = Ok b' \<Longrightarrow>
      \<forall>p \<in> set (rd_provision def). provision_done inp b' d p"
proof -
  have each: "b_step inp (universe inp) t (expand_provision inp def d x t)"
    if "x \<in> set (rd_provision def)" "ok_builder inp (universe inp) t" "extends (universe inp) b t" for x t
    using expand_provision_ok [OF that(2) subsetD [OF extends_keys [OF that(3)] d] def, of "fst x" "snd x"] that(1) by simp
  show "b_step inp (universe inp) b (try_fold (expand_provision inp def d) (rd_provision def) b)"
    using ok each by (rule gb.step_fold)
  assume b': "try_fold (expand_provision inp def d) (rd_provision def) b = Ok b'"
  show "\<forall>p \<in> set (rd_provision def). provision_done inp b' d p"
  proof (rule gb.fold_post [OF ok b' each], assumption+)
    fix x s s' assume x: "x \<in> set (rd_provision def)" "ok_builder inp (universe inp) s" "extends (universe inp) b s"
      "expand_provision inp def d x s = Ok s'"
    show "provision_done inp s' d x"
      using expand_provision_post [OF x(2) subsetD [OF extends_keys [OF x(3)] d] def, of "fst x" "snd x"] x(1,4) by simp
  qed (rule provision_done_mono)
qed

lemma expand_ok:
  assumes ok: "ok_builder inp (universe inp) b" and d: "d \<in> node_keys b"
  shows "b_step inp (universe inp) b (expand inp d b)"
    and "expand inp d b = Ok b' \<Longrightarrow> expanded inp b' d"
proof -
  from d obtain n where n: "map_of (b_nodes b) d = Some n" unfolding node_key_iff ..
  from ok n obtain def where find: "find (\<lambda>x. rd_id x = nd_definition n) (gi_definitions inp) = Some def"
    by (rule find_matched)
  then have def: "def \<in> set (gi_definitions inp)" by (auto simp: find_Some_iff)
  have eq: "expand inp d b = rbind (map_err (perr def) (definition_placeholders def)) (\<lambda>found.
      rbind (try_fold (expand_ref inp def d) found b) (try_fold (expand_provision inp def d) (rd_provision def)))"
    by (simp add: expand_def n find)
  show "b_step inp (universe inp) b (expand inp d b)" unfolding eq
  proof (rule gb.step_pure, goal_cases)
    case (2 found)
    then have found: "definition_placeholders def = Ok found" by simp
    show ?case
    proof (rule gb.step_bind [OF expand_refs_ok(1) [OF ok d def found]])
      fix t assume t: "ok_builder inp (universe inp) t" "extends (universe inp) b t"
      show "b_step inp (universe inp) t (try_fold (expand_provision inp def d) (rd_provision def) t)"
        using t(1) subsetD [OF extends_keys [OF t(2)] d] def by (rule expand_provisions_ok)
    qed
  qed (auto simp: perr_def map_err_eq_Inl)
  assume "expand inp d b = Ok b'"
  then obtain found t where found: "definition_placeholders def = Ok found"
    and t: "try_fold (expand_ref inp def d) found b = Ok t"
    and b': "try_fold (expand_provision inp def d) (rd_provision def) t = Ok b'"
    unfolding eq by (auto simp: rbind_eq_Inr)
  have okt: "ok_builder inp (universe inp) t" "extends (universe inp) b t"
    using expand_refs_ok(1) [OF ok d def found] t by simp_all
  note prov = expand_provisions_ok [OF okt(1) subsetD [OF extends_keys [OF okt(2)] d] def]
  have ext: "extends (universe inp) t b'" using prov(1) b' by simp
  obtain n' where n': "map_of (b_nodes b') d = Some n'" "node_grows n n'"
    using extends_node [OF extends_trans [OF okt(2) ext] n] .
  then show "expanded inp b' d" unfolding expanded_def
    using find refs_done_mono [OF expand_refs_ok(2) [OF ok d def found t] ext] prov(2) [OF b']
    by (intro exI [of _ n'] exI [of _ def]) (simp add: node_grows_def)
qed

section \<open>The queue runs empty\<close>

text \<open>Every node is queued or expanded.\<close>

definition queue_ok :: "graph_input \<Rightarrow> builder \<Rightarrow> bool" where
  "queue_ok inp b \<longleftrightarrow> (\<forall>d \<in> node_keys b. d \<in> set (b_queue b) \<or> expanded inp b d)"

lemma ok_queue: "ok_builder inp U (b\<lparr>b_queue := q\<rparr>) \<longleftrightarrow> ok_builder inp U (b\<lparr>b_queue := []\<rparr>) \<and> set q \<subseteq> node_keys b"
  by (auto simp: ok_builder_def)

lemma expanded_queue: "expanded inp (b\<lparr>b_queue := q\<rparr>) d = expanded inp b d"
  by (simp add: expanded_def refs_done_def provision_done_def has_edge_def)

lemma expand_all_ends:
  assumes "ok_builder inp (universe inp) b" "queue_ok inp b"
  shows "(\<exists>e. expand_all inp b = Some (Err (Fails e))) \<or>
    (\<exists>b'. expand_all inp b = Some (Ok b') \<and> ok_builder inp (universe inp) b' \<and>
       nodes_grow (b_nodes b) (b_nodes b') \<and> (\<forall>d \<in> node_keys b'. expanded inp b' d))"
  using assms
proof (induction "card (universe inp - node_keys b) + length (b_queue b)" arbitrary: b rule: less_induct)
  case less
  show ?case
  proof (cases "b_queue b")
    case Nil
    with less.prems show ?thesis by (subst (1 2) expand_all.simps) (simp add: queue_ok_def)
  next
    case (Cons d q)
    let ?b = "b\<lparr>b_queue := q\<rparr>"
    have ok: "ok_builder inp (universe inp) ?b" "d \<in> node_keys ?b"
      using less.prems(1) Cons by (auto simp: ok_builder_def)
    note step = expand_ok [OF ok]
    show ?thesis
    proof (cases "expand inp d ?b")
      case (Inl e)
      with step(1) obtain g where "e = Fails g" by (cases e) auto
      with Inl Cons show ?thesis by (subst expand_all.simps) simp
    next
      case (Inr b1)
      have b1: "ok_builder inp (universe inp) b1" "extends (universe inp) ?b b1" using step(1) Inr by simp_all
      have "queue_ok inp b1" unfolding queue_ok_def
      proof
        fix x assume "x \<in> node_keys b1"
        then have "x \<in> node_keys b \<or> x \<in> set (b_queue b1)" using b1(2) by (auto simp: extends_def)
        moreover have "x \<in> set (b_queue b1) \<or> expanded inp b1 x" if "x \<in> node_keys b"
        proof -
          have "x = d \<or> x \<in> set q \<or> expanded inp ?b x"
            using less.prems(2) that Cons by (auto simp: queue_ok_def expanded_queue)
          then show ?thesis using step(2) [OF Inr] b1(2) expanded_mono [OF _ b1(2)] by (auto simp: extends_def)
        qed
        ultimately show "x \<in> set (b_queue b1) \<or> expanded inp b1 x" by blast
      qed
      moreover have "card (universe inp - node_keys b1) + length (b_queue b1) <
          card (universe inp - node_keys b) + length (b_queue b)"
        using b1(2) Cons by (simp add: extends_def)
      moreover have "nodes_grow (b_nodes b) (b_nodes b1)" using b1(2) by (simp add: extends_def)
      moreover have "expand_all inp b = expand_all inp b1" using Cons Inr by (subst expand_all.simps) simp
      ultimately show ?thesis using less.hyps [of b1] b1(1) nodes_grow_trans by metis
    qed
  qed
qed

section \<open>Matching dependents\<close>

definition b_edges :: "builder \<Rightarrow> (descriptor \<times> descriptor) set" where
  "b_edges b = {(x, y). has_edge b x y}"

text \<open>How a round grows the builder: only edges, and none exactly when it reports none.\<close>

definition match_ext :: "descriptor set \<Rightarrow> bool \<times> builder \<Rightarrow> bool \<times> builder \<Rightarrow> bool" where
  "match_ext U s t \<longleftrightarrow> extends U (snd s) (snd t) \<and> b_co (snd t) = b_co (snd s) \<and> node_keys (snd t) = node_keys (snd s)
     \<and> (fst s \<longrightarrow> fst t) \<and> (\<not> fst t \<longrightarrow> snd t = snd s) \<and> (\<not> fst s \<longrightarrow> fst t \<longrightarrow> b_edges (snd s) \<subset> b_edges (snd t))"

lemma extends_edges: "extends U b b' \<Longrightarrow> b_edges b \<subseteq> b_edges b'"
  by (auto simp: b_edges_def intro: extends_edge)

lemma match_ext_trans:
  assumes "match_ext U s t" "match_ext U t u" shows "match_ext U s u"
proof -
  have "extends U (snd s) (snd u)" using assms extends_trans by (auto simp: match_ext_def)
  moreover have "b_edges (snd s) \<subset> b_edges (snd u)" if "\<not> fst s" "fst u"
  proof (cases "fst t")
    case True
    with assms that have "b_edges (snd s) \<subset> b_edges (snd t)" "extends U (snd t) (snd u)"
      by (simp_all add: match_ext_def)
    then show ?thesis using extends_edges psubset_subset_trans by blast
  next
    case False
    with assms that show ?thesis by (simp add: match_ext_def)
  qed
  moreover have "b_co (snd u) = b_co (snd s)" "node_keys (snd u) = node_keys (snd s)" "fst s \<longrightarrow> fst u"
    "\<not> fst u \<longrightarrow> snd u = snd s"
    using assms by (simp_all add: match_ext_def) metis+
  ultimately show ?thesis by (simp add: match_ext_def)
qed

interpretation gm: growing "\<lambda>s. ok_builder inp U (snd s)" "match_ext U" "\<lambda>_ :: fault. True" for inp U
  by unfold_locales (simp add: match_ext_def extends_refl, erule (1) match_ext_trans)

abbreviation m_step :: "graph_input \<Rightarrow> descriptor set \<Rightarrow> bool \<times> builder \<Rightarrow> fault + bool \<times> builder \<Rightarrow> bool" where
  "m_step inp U \<equiv> step_ok (\<lambda>s. ok_builder inp U (snd s)) (match_ext U) (\<lambda>_. True)"

lemma bt_modify_same: "bt_invar m \<Longrightarrow> map_of m x = Some n \<Longrightarrow> f n = n \<Longrightarrow> bt_modify x f m = m"
  unfolding bt_modify_def by (rule map_idI) (metis bt_map_of_iff option.inject prod.collapse)

lemma match_consumer_ok:
  assumes ok: "ok_builder inp U b" and x: "x \<in> node_keys b" and y: "cp_co c \<in> node_keys b"
  shows "m_step inp U (a, b) (match_consumer c x (a, b))"
    and "match_consumer c x (a, b) = Ok s \<Longrightarrow> has_edge (snd s) x (cp_co c)"
proof -
  let ?f = "\<lambda>n. n\<lparr>nd_depends_on := insort_insert (cp_co c) (nd_depends_on n)\<rparr>"
  from x obtain n where n: "map_of (b_nodes b) x = Some n" unfolding node_key_iff ..
  define b' where "b' = b\<lparr>b_nodes := bt_modify x ?f (b_nodes b)\<rparr>"
  have r: "match_consumer c x (a, b) = Ok (a \<or> cp_co c \<notin> set (nd_depends_on n), b')"
    by (simp add: match_consumer_def Builder_edge_def n b'_def)
  have ae: "add_edge x (cp_co c) b = Ok b'" using n by (simp add: add_edge_eq b'_def)
  with add_edge_ok [OF ok x y] have b': "ok_builder inp U b'" "extends U b b'" by simp_all
  have edge: "has_edge b' x (cp_co c)" using ae by (rule add_edge_edge)
  then show "match_consumer c x (a, b) = Ok s \<Longrightarrow> has_edge (snd s) x (cp_co c)" by (auto simp: r)
  have same: "b' = b" if "cp_co c \<in> set (nd_depends_on n)"
  proof -
    have "bt_modify x ?f (b_nodes b) = b_nodes b"
      using ok n that by (intro bt_modify_same [of _ _ n]) (simp_all add: ok_builder_def insort_insert_triv)
    then show ?thesis by (simp add: b'_def)
  qed
  have new: "b_edges b \<subset> b_edges b'" if "cp_co c \<notin> set (nd_depends_on n)"
  proof -
    have "(x, cp_co c) \<in> b_edges b'" "(x, cp_co c) \<notin> b_edges b"
      using edge that n by (simp_all add: b_edges_def has_edge_def)
    then show ?thesis using extends_edges [OF b'(2)] by blast
  qed
  show "m_step inp U (a, b) (match_consumer c x (a, b))"
    using b' same new by (auto simp: r match_ext_def b'_def)
qed

lemma consumers_keys: "ok_builder inp U b \<Longrightarrow> x \<in> set (consumers b c) \<Longrightarrow> x \<in> node_keys b"
proof -
  assume ok: "ok_builder inp U b" and x: "x \<in> set (consumers b c)"
  from x obtain k n where n: "(k, n) \<in> set (b_nodes b)" "x = nd_descriptor n" by (auto simp: consumers_def)
  then have "map_of (b_nodes b) k = Some n" using ok by (simp add: ok_builder_def bt_map_of_iff)
  then have "nd_descriptor n = k" using ok_node [OF ok] by (auto simp: node_ok_def)
  with n show ?thesis by force
qed

definition co_matched :: "builder \<Rightarrow> co_provision \<Rightarrow> bool" where
  "co_matched b c \<longleftrightarrow> (\<forall>x \<in> set (consumers b c). has_edge b x (cp_co c))"

lemma match_co_ok:
  assumes ok: "ok_builder inp U (snd s)" and c: "cp_co c \<in> node_keys (snd s)"
  shows "m_step inp U s (match_co c s)"
    and "match_co c s = Ok t \<Longrightarrow> \<not> fst t \<longrightarrow> co_matched (snd t) c"
proof -
  have each: "m_step inp U t (match_consumer c x t)"
    if "x \<in> set (consumers (snd s) c)" "ok_builder inp U (snd t)" "match_ext U s t" for x t
  proof -
    have "node_keys (snd t) = node_keys (snd s)" using that(3) by (simp add: match_ext_def)
    then show ?thesis
      using match_consumer_ok(1) [OF that(2), of x c "fst t"] consumers_keys [OF ok that(1)] c by simp
  qed
  show step: "m_step inp U s (match_co c s)" unfolding match_co_def using ok each by (rule gm.step_fold)
  assume t: "match_co c s = Ok t"
  have "\<forall>x \<in> set (consumers (snd s) c). has_edge (snd t) x (cp_co c)"
  proof (rule gm.fold_post [OF ok t [unfolded match_co_def] each], assumption+)
    fix x u u' assume u: "x \<in> set (consumers (snd s) c)" "ok_builder inp U (snd u)" "match_ext U s u"
      "match_consumer c x u = Ok u'"
    have "node_keys (snd u) = node_keys (snd s)" using u(3) by (simp add: match_ext_def)
    then show "has_edge (snd u') x (cp_co c)"
      using match_consumer_ok(2) [OF u(2), of x c "fst u" u'] consumers_keys [OF ok u(1)] c u(4) by simp
  qed (auto simp: match_ext_def intro: extends_edge)
  moreover have "\<not> fst t \<Longrightarrow> snd t = snd s"
    using step t by (simp add: match_ext_def)
  ultimately show "\<not> fst t \<longrightarrow> co_matched (snd t) c" unfolding co_matched_def by metis
qed

lemma match_round_ok:
  assumes ok: "ok_builder inp U b"
  obtains added b' where "match_round b = Ok (added, b')" "ok_builder inp U b'" "match_ext U (False, b) (added, b')"
    "\<not> added \<longrightarrow> b' = b \<and> (\<forall>c \<in> set (b_co b). cp_match_dependents c \<longrightarrow> co_matched b c)"
proof -
  let ?cs = "filter cp_match_dependents (b_co b)"
  have each: "m_step inp U t (match_co c t)"
    if "c \<in> set ?cs" "ok_builder inp U (snd t)" "match_ext U (False, b) t" for c t
    using that(2) by (rule match_co_ok(1)) (use that(1,3) ok in \<open>auto simp: match_ext_def ok_builder_def\<close>)
  have step: "m_step inp U (False, b) (match_round b)"
    unfolding match_round_def by (rule gm.step_fold [OF _ each]) (simp_all add: ok)
  then obtain t where t: "match_round b = Ok t" "ok_builder inp U (snd t)" "match_ext U (False, b) t"
    by (cases "match_round b") simp_all
  have "\<forall>c \<in> set ?cs. \<not> fst t \<longrightarrow> co_matched (snd t) c"
  proof (rule gm.fold_post [OF _ t(1) [unfolded match_round_def] each])
    fix c u u' assume u: "c \<in> set ?cs" "ok_builder inp U (snd u)" "match_ext U (False, b) u" "match_co c u = Ok u'"
    have "cp_co c \<in> node_keys (snd u)" using u(1,3) ok by (auto simp: match_ext_def ok_builder_def)
    then show "\<not> fst u' \<longrightarrow> co_matched (snd u') c" using match_co_ok(2) [OF u(2) _ u(4)] by blast
  next
    fix c u u' assume "\<not> fst u \<longrightarrow> co_matched (snd u) c" "match_ext U u u'"
    then show "\<not> fst u' \<longrightarrow> co_matched (snd u') c" by (auto simp: match_ext_def)
  qed (simp_all add: ok)
  then have "\<not> fst t \<longrightarrow> snd t = b \<and> (\<forall>c \<in> set (b_co b). cp_match_dependents c \<longrightarrow> co_matched b c)"
    using t(3) by (auto simp: match_ext_def)
  with t show ?thesis using that [of "fst t" "snd t"] by simp
qed

lemma edges_finite: "ok_builder inp U b \<Longrightarrow> b_edges b \<subseteq> node_keys b \<times> node_keys b"
proof
  fix e assume ok: "ok_builder inp U b" and "e \<in> b_edges b"
  then obtain x y n where e: "e = (x, y)" "map_of (b_nodes b) x = Some n" "y \<in> set (nd_depends_on n)"
    by (auto simp: b_edges_def has_edge_iff)
  have "x \<in> node_keys b" unfolding node_key_iff using e(2) by (rule exI)
  moreover have "y \<in> node_keys b" using ok_node [OF ok e(2)] e(3) by blast
  ultimately show "e \<in> node_keys b \<times> node_keys b" by (simp add: e(1))
qed

lemma match_dependents_ends:
  assumes "ok_builder inp U b"
  shows "\<exists>b'. match_dependents b = Some (Ok b') \<and> ok_builder inp U b' \<and> extends U b b' \<and> b_co b' = b_co b \<and>
    node_keys b' = node_keys b \<and> (\<forall>c \<in> set (b_co b'). cp_match_dependents c \<longrightarrow> co_matched b' c)"
  using assms
proof (induction "card (node_keys b \<times> node_keys b - b_edges b)" arbitrary: b rule: less_induct)
  case less
  from less.prems obtain added b1 where r: "match_round b = Ok (added, b1)" "ok_builder inp U b1"
    "match_ext U (False, b) (added, b1)"
    "\<not> added \<longrightarrow> b1 = b \<and> (\<forall>c \<in> set (b_co b). cp_match_dependents c \<longrightarrow> co_matched b c)"
    by (rule match_round_ok)
  show ?case
  proof (cases added)
    case False
    then have "match_dependents b = Some (Ok b)" using r(1,4) by (subst match_dependents.simps) simp
    with False r(4) less.prems show ?thesis by (intro exI [of _ b]) (simp add: extends_refl)
  next
    case True
    have keys: "node_keys b1 = node_keys b" "b_co b1 = b_co b" "b_edges b \<subset> b_edges b1" "extends U b b1"
      using r(3) True by (simp_all add: match_ext_def)
    have "card (node_keys b1 \<times> node_keys b1 - b_edges b1) < card (node_keys b \<times> node_keys b - b_edges b)"
      using edges_finite [OF r(2)] keys by (intro psubset_card_mono) auto
    from less.hyps [OF this r(2)] obtain b' where b': "match_dependents b1 = Some (Ok b')" "ok_builder inp U b'"
      "extends U b1 b'" "b_co b' = b_co b1" "node_keys b' = node_keys b1"
      "\<forall>c \<in> set (b_co b'). cp_match_dependents c \<longrightarrow> co_matched b' c" by (elim exE conjE)
    have "match_dependents b = Some (Ok b')" using r(1) True b'(1) by (subst match_dependents.simps) simp
    with b' keys extends_trans [OF keys(4) b'(3)] show ?thesis by (intro exI [of _ b']) simp
  qed
qed

section \<open>The requests of the set\<close>

definition external_done :: "builder \<Rightarrow> string \<Rightarrow> module \<Rightarrow> string \<times> external \<Rightarrow> bool" where
  "external_done b wid m x \<longleftrightarrow> (\<exists>rid. external_res_id wid (fst x) (snd x) = Ok rid \<and>
     has_edge b (workload_descriptor wid m) (Descriptor (ex_ty (snd x)) (ex_class (snd x)) rid))"

definition module_done :: "builder \<Rightarrow> string \<times> module \<Rightarrow> bool" where
  "module_done b x \<longleftrightarrow> workload_descriptor (fst x) (snd x) \<in> node_keys b \<and>
     (\<forall>y \<in> set (mo_externals (snd x)). external_done b (fst x) (snd x) y)"

definition shared_done :: "builder \<Rightarrow> string \<times> shared_resource \<Rightarrow> bool" where
  "shared_done b x \<longleftrightarrow> (\<exists>rid. ResId_shared (fst x) = Ok rid \<and>
     Descriptor (sh_ty (snd x)) (sh_class (snd x)) rid \<in> node_keys b)"

lemma external_done_mono: "external_done b wid m x \<Longrightarrow> extends U b b' \<Longrightarrow> external_done b' wid m x"
  unfolding external_done_def using extends_edge by metis

lemma module_done_mono:
  assumes "module_done b x" "extends U b b'" shows "module_done b' x"
  unfolding module_done_def
proof (intro conjI ballI)
  show "workload_descriptor (fst x) (snd x) \<in> node_keys b'"
    using assms by (intro subsetD [OF extends_keys [OF assms(2)]]) (simp add: module_done_def)
  show "external_done b' (fst x) (snd x) y" if "y \<in> set (mo_externals (snd x))" for y
    using assms that by (intro external_done_mono [OF _ assms(2)]) (simp add: module_done_def)
qed

lemma shared_done_mono:
  assumes "shared_done b x" "extends U b b'" shows "shared_done b' x"
proof -
  from assms(1) obtain rid where "ResId_shared (fst x) = Ok rid" "Descriptor (sh_ty (snd x)) (sh_class (snd x)) rid \<in> node_keys b"
    unfolding shared_done_def by (elim exE conjE)
  then show ?thesis unfolding shared_done_def using subsetD [OF extends_keys [OF assms(2)]] by (intro exI conjI)
qed

lemma workload_root: "(wid, m) \<in> set (ds_modules (gi_set inp)) \<Longrightarrow> workload_descriptor wid m \<in> roots inp"
  by (auto simp: roots_def)

lemma external_root:
  assumes "(wid, m) \<in> set (ds_modules (gi_set inp))" "(key, ext) \<in> set (mo_externals m)" "external_res_id wid key ext = Ok rid"
  shows "Descriptor (ex_ty ext) (ex_class ext) rid \<in> roots inp"
proof -
  have "Descriptor (ex_ty ext) (ex_class ext) rid \<in> external_descriptors wid m"
    unfolding external_descriptors_def using assms(2,3) by (intro UN_I [of "(key, ext)"]) simp_all
  then show ?thesis using assms(1) unfolding roots_def by (intro insertI2 UnI1 UN_I [of "(wid, m)"]) simp_all
qed

lemma shared_root:
  assumes "(i, s) \<in> set (ds_shared (gi_set inp))" "ResId_shared i = Ok rid"
  shows "Descriptor (sh_ty s) (sh_class s) rid \<in> roots inp"
proof -
  have "Descriptor (sh_ty s) (sh_class s) rid \<in> shared_descriptors inp"
    unfolding shared_descriptors_def using assms by (intro UN_I [of "(i, s)"]) simp_all
  then show ?thesis by (simp add: roots_def)
qed

lemma request_external_ok:
  assumes ok: "ok_builder inp (universe inp) b" and w: "workload_descriptor wid m \<in> node_keys b"
    and m: "(wid, m) \<in> set (ds_modules (gi_set inp))" "x \<in> set (mo_externals m)"
  shows "b_step inp (universe inp) b (request_external inp wid m x b)"
    and "request_external inp wid m x b = Ok b' \<Longrightarrow> external_done b' wid m x"
proof -
  obtain key ext where x: "x = (key, ext)" by (cases x)
  show "b_step inp (universe inp) b (request_external inp wid m x b)"
    unfolding x request_external_def prod.case Let_def
  proof (rule gb.step_pure, goal_cases)
    case (2 rid)
    then have "external_res_id wid key ext = Ok rid" by simp
    then have "Descriptor (ex_ty ext) (ex_class ext) rid \<in> universe inp"
      using m x by (intro roots_universe external_root) simp_all
    then show ?case by (rule request_edge_ok [OF ok finite_universe _ w])
  qed (auto simp: map_err_eq_Inl)
  show "request_external inp wid m x b = Ok b' \<Longrightarrow> external_done b' wid m x"
    by (auto simp: x request_external_def external_done_def rbind_eq_Inr Let_def dest: add_edge_edge)
qed

lemma request_module_ok:
  assumes ok: "ok_builder inp (universe inp) b" and m: "x \<in> set (ds_modules (gi_set inp))"
  shows "b_step inp (universe inp) b (request_module inp x b)"
    and "request_module inp x b = Ok b' \<Longrightarrow> module_done b' x"
proof -
  obtain wid mo where x: "x = (wid, mo)" by (cases x)
  have m': "(wid, mo) \<in> set (ds_modules (gi_set inp))" using m x by simp
  let ?w = "workload_descriptor wid mo"
  have u: "?w \<in> universe inp" using m' by (intro roots_universe workload_root)
  have each: "b_step inp (universe inp) t (request_external inp wid mo y t)"
    if "y \<in> set (mo_externals mo)" "ok_builder inp (universe inp) t" "?w \<in> node_keys t" for y t
    using that by (intro request_external_ok(1) [OF _ _ m'])
  have fold: "b_step inp (universe inp) t (try_fold (request_external inp wid mo) (mo_externals mo) t)"
    if "ok_builder inp (universe inp) t" "?w \<in> node_keys t" for t
    using that(1) by (rule gb.step_fold) (rule each, assumption, assumption, rule subsetD [OF extends_keys that(2)])
  have eq: "request_module inp x b = rbind (Builder_request inp ?w (module_path wid) (Some (workload_params wid mo)) b)
      (try_fold (request_external inp wid mo) (mo_externals mo))"
    by (simp add: x request_module_def)
  note req = request_ok [OF ok finite_universe u, of "module_path wid" "Some (workload_params wid mo)"]
  show "b_step inp (universe inp) b (request_module inp x b)" unfolding eq
    by (rule gb.step_bind [OF req]) (rule fold, assumption, rule request_keys)
  assume "request_module inp x b = Ok b'"
  then obtain t where t: "Builder_request inp ?w (module_path wid) (Some (workload_params wid mo)) b = Ok t"
    "try_fold (request_external inp wid mo) (mo_externals mo) t = Ok b'" unfolding eq by (auto simp: rbind_eq_Inr)
  have okt: "ok_builder inp (universe inp) t" using req t(1) by simp
  have w: "?w \<in> node_keys t" using t(1) by (rule request_keys)
  have "\<forall>y \<in> set (mo_externals mo). external_done b' wid mo y"
  proof (rule gb.fold_post [OF okt t(2)])
    fix y u assume u: "y \<in> set (mo_externals mo)" "ok_builder inp (universe inp) u" "extends (universe inp) t u"
    note w' = subsetD [OF extends_keys [OF u(3)] w]
    show "b_step inp (universe inp) u (request_external inp wid mo y u)" using u(1,2) w' by (rule each)
    show "request_external inp wid mo y u = Ok u' \<Longrightarrow> external_done u' wid mo y" for u'
      by (rule request_external_ok(2) [OF u(2) w' m' u(1)])
  qed (rule external_done_mono)
  moreover have "?w \<in> node_keys b'"
  proof -
    have "extends (universe inp) t b'" using fold [OF okt w] t(2) by simp
    then show ?thesis using w by (rule subsetD [OF extends_keys])
  qed
  ultimately show "module_done b' x" by (simp add: module_done_def x)
qed

lemma request_shared_ok:
  assumes ok: "ok_builder inp (universe inp) b" and m: "x \<in> set (ds_shared (gi_set inp))"
  shows "b_step inp (universe inp) b (request_shared inp x b)"
    and "request_shared inp x b = Ok b' \<Longrightarrow> shared_done b' x"
proof -
  obtain i s where x: "x = (i, s)" by (cases x)
  show "b_step inp (universe inp) b (request_shared inp x b)" unfolding x request_shared_def prod.case
  proof (rule gb.step_pure, goal_cases)
    case (2 rid)
    then have "ResId_shared i = Ok rid" by simp
    then have "Descriptor (sh_ty s) (sh_class s) rid \<in> universe inp"
      using m x by (intro roots_universe shared_root) simp_all
    then show ?case by (rule request_ok [OF ok finite_universe])
  qed (auto simp: map_err_eq_Inl)
  assume "request_shared inp x b = Ok b'"
  then obtain rid where "ResId_shared i = Ok rid" "Builder_request inp (Descriptor (sh_ty s) (sh_class s) rid) (''shared.'' @ i)
      (Some (case_option JNull id (sh_params s))) b = Ok b'"
    by (auto simp: x request_shared_def rbind_eq_Inr)
  then show "shared_done b' x" unfolding shared_done_def x fst_conv snd_conv
    by (intro exI [of _ rid] conjI request_keys)
qed

definition spec_refs :: "module \<Rightarrow> found" where
  "spec_refs m = (case collect_placeholders (JObj (mo_spec m)) DSet ''spec'' of Inl _ \<Rightarrow> [] | Inr found \<Rightarrow> found)"

definition read_done :: "graph_input \<Rightarrow> builder \<Rightarrow> descriptor \<Rightarrow> string \<times> raw_placeholder \<times> expr \<Rightarrow> bool" where
  "read_done inp b w x \<longleftrightarrow> (\<forall>i segs s rid. snd (snd x) = EShared i segs \<longrightarrow> map_of (ds_shared (gi_set inp)) i = Some s \<longrightarrow>
     ResId_shared i = Ok rid \<longrightarrow> has_edge b w (Descriptor (sh_ty s) (sh_class s) rid))"

definition reads_done :: "graph_input \<Rightarrow> builder \<Rightarrow> string \<times> module \<Rightarrow> bool" where
  "reads_done inp b x \<longleftrightarrow> (\<forall>y \<in> set (spec_refs (snd x)). read_done inp b (workload_descriptor (fst x) (snd x)) y)"

lemma read_done_mono: "read_done inp b w x \<Longrightarrow> extends U b b' \<Longrightarrow> read_done inp b' w x"
  unfolding read_done_def using extends_edge [of b w _ U b'] by metis

lemma reads_done_mono: "reads_done inp b x \<Longrightarrow> extends U b b' \<Longrightarrow> reads_done inp b' x"
  unfolding reads_done_def using read_done_mono [of inp b _ _ U b'] by metis

lemma shared_edge_eq:
  "shared_edge inp w (l, r, EShared i segs) b =
     (case map_of (ds_shared (gi_set inp)) i of None \<Rightarrow> Ok b
      | Some s \<Rightarrow> (case ResId_shared i of Inl _ \<Rightarrow> Ok b
          | Inr rid \<Rightarrow> add_edge w (Descriptor (sh_ty s) (sh_class s) rid) b))"
  "(\<nexists>i segs. ex = EShared i segs) \<Longrightarrow> shared_edge inp w (l, r, ex) b = Ok b"
  by (simp add: shared_edge_def) (cases ex, simp_all add: shared_edge_def)

lemma shared_edge_ok:
  assumes ok: "ok_builder inp U b" and w: "w \<in> node_keys b" and sh: "\<forall>y \<in> set (ds_shared (gi_set inp)). shared_done b y"
  shows "b_step inp U b (shared_edge inp w x b)"
    and "shared_edge inp w x b = Ok b' \<Longrightarrow> read_done inp b' w x"
proof -
  obtain l r ex where x: "x = (l, r, ex)" by (cases x) auto
  have "b_step inp U b (shared_edge inp w x b) \<and> (shared_edge inp w x b = Ok b' \<longrightarrow> read_done inp b' w x)"
  proof (cases "\<exists>i segs s rid. ex = EShared i segs \<and> map_of (ds_shared (gi_set inp)) i = Some s \<and> ResId_shared i = Ok rid")
    case True
    then obtain i segs s rid where e: "ex = EShared i segs" "map_of (ds_shared (gi_set inp)) i = Some s" "ResId_shared i = Ok rid"
      by (elim exE conjE)
    have "shared_done b (i, s)" using sh map_of_SomeD [OF e(2)] by (rule bspec)
    then have k: "Descriptor (sh_ty s) (sh_class s) rid \<in> node_keys b" using e(3) by (auto simp: shared_done_def)
    have eq: "shared_edge inp w x b = add_edge w (Descriptor (sh_ty s) (sh_class s) rid) b"
      by (simp add: x e shared_edge_eq)
    show ?thesis unfolding eq using add_edge_ok [OF ok w k] add_edge_edge [of w "Descriptor (sh_ty s) (sh_class s) rid" b b']
      by (simp add: read_done_def x e)
  next
    case False
    have eq: "shared_edge inp w x b = Ok b"
    proof (cases "\<exists>i segs. ex = EShared i segs")
      case True
      then obtain i segs where e: "ex = EShared i segs" by (elim exE)
      show ?thesis unfolding x e shared_edge_eq using False e by (auto split: option.splits sum.splits)
    qed (simp add: x shared_edge_eq)
    have "read_done inp b' w x" unfolding read_done_def x snd_conv using False by (intro allI impI) blast
    then show ?thesis unfolding eq using ok extends_refl by simp
  qed
  then show "b_step inp U b (shared_edge inp w x b)" "shared_edge inp w x b = Ok b' \<Longrightarrow> read_done inp b' w x" by blast+
qed

lemma shared_edges_ok:
  assumes ok: "ok_builder inp U b" and w: "workload_descriptor (fst x) (snd x) \<in> node_keys b"
    and sh: "\<forall>y \<in> set (ds_shared (gi_set inp)). shared_done b y"
  shows "b_step inp U b (shared_edges inp x b)"
    and "shared_edges inp x b = Ok b' \<Longrightarrow> reads_done inp b' x"
proof -
  let ?w = "workload_descriptor (fst x) (snd x)"
  have eq: "shared_edges inp x b = try_fold (shared_edge inp ?w) (spec_refs (snd x)) b"
    by (simp add: shared_edges_def spec_refs_def case_prod_unfold)
  have each: "b_step inp U t (shared_edge inp ?w y t)" "shared_edge inp ?w y t = Ok t' \<Longrightarrow> read_done inp t' ?w y"
    if "ok_builder inp U t" "extends U b t" for y t t'
  proof -
    have "\<forall>y \<in> set (ds_shared (gi_set inp)). shared_done t y" using sh shared_done_mono [OF _ that(2)] by simp
    note e = shared_edge_ok [OF that(1) subsetD [OF extends_keys [OF that(2)] w] this]
    show "b_step inp U t (shared_edge inp ?w y t)" by (rule e(1))
    show "shared_edge inp ?w y t = Ok t' \<Longrightarrow> read_done inp t' ?w y" by (rule e(2))
  qed
  show "b_step inp U b (shared_edges inp x b)" unfolding eq using ok by (rule gb.step_fold) (rule each)
  assume "shared_edges inp x b = Ok b'"
  then have "\<forall>y \<in> set (spec_refs (snd x)). read_done inp b' ?w y"
    unfolding eq
    by (rule gb.fold_post [OF ok]) (rule each(1), assumption+, erule (2) each(2), erule (1) read_done_mono)
  then show "reads_done inp b' x" by (simp add: reads_done_def)
qed

definition seeded :: "graph_input \<Rightarrow> builder \<Rightarrow> bool" where
  "seeded inp b \<longleftrightarrow> base_env \<in> node_keys b \<and> (\<forall>x \<in> set (ds_modules (gi_set inp)). module_done b x) \<and>
     (\<forall>x \<in> set (ds_shared (gi_set inp)). shared_done b x) \<and> (\<forall>x \<in> set (ds_modules (gi_set inp)). reads_done inp b x)"

lemma seeded_mono:
  assumes "seeded inp b" "extends U b b'" shows "seeded inp b'"
  using assms(1) subsetD [OF extends_keys [OF assms(2)]] module_done_mono [OF _ assms(2)]
    shared_done_mono [OF _ assms(2)] reads_done_mono [OF _ assms(2)]
  unfolding seeded_def by simp

abbreviation empty_builder :: builder where
  "empty_builder \<equiv> \<lparr>b_nodes = [], b_explicit = [], b_queue = [], b_co = []\<rparr>"

lemma empty_builder_ok: "ok_builder inp U empty_builder"
  by (simp add: ok_builder_def)

lemma modules_ok:
  assumes ok: "ok_builder inp (universe inp) b"
  shows "b_step inp (universe inp) b (try_fold (request_module inp) (ds_modules (gi_set inp)) b)"
    and "try_fold (request_module inp) (ds_modules (gi_set inp)) b = Ok b' \<Longrightarrow>
      \<forall>x \<in> set (ds_modules (gi_set inp)). module_done b' x"
proof -
  show "b_step inp (universe inp) b (try_fold (request_module inp) (ds_modules (gi_set inp)) b)"
    using ok by (rule gb.step_fold) (rule request_module_ok(1))
  show "try_fold (request_module inp) (ds_modules (gi_set inp)) b = Ok b' \<Longrightarrow>
      \<forall>x \<in> set (ds_modules (gi_set inp)). module_done b' x"
    by (erule gb.fold_post [OF ok]; rule request_module_ok module_done_mono)
qed

lemma shareds_ok:
  assumes ok: "ok_builder inp (universe inp) b"
  shows "b_step inp (universe inp) b (try_fold (request_shared inp) (ds_shared (gi_set inp)) b)"
    and "try_fold (request_shared inp) (ds_shared (gi_set inp)) b = Ok b' \<Longrightarrow>
      \<forall>x \<in> set (ds_shared (gi_set inp)). shared_done b' x"
proof -
  show "b_step inp (universe inp) b (try_fold (request_shared inp) (ds_shared (gi_set inp)) b)"
    using ok by (rule gb.step_fold) (rule request_shared_ok(1))
  show "try_fold (request_shared inp) (ds_shared (gi_set inp)) b = Ok b' \<Longrightarrow>
      \<forall>x \<in> set (ds_shared (gi_set inp)). shared_done b' x"
    by (erule gb.fold_post [OF ok]; rule request_shared_ok shared_done_mono)
qed

lemma reads_ok:
  assumes ok: "ok_builder inp U b" and m: "\<forall>x \<in> set (ds_modules (gi_set inp)). module_done b x"
    and sh: "\<forall>x \<in> set (ds_shared (gi_set inp)). shared_done b x"
  shows "b_step inp U b (try_fold (shared_edges inp) (ds_modules (gi_set inp)) b)"
    and "try_fold (shared_edges inp) (ds_modules (gi_set inp)) b = Ok b' \<Longrightarrow>
      \<forall>x \<in> set (ds_modules (gi_set inp)). reads_done inp b' x"
proof -
  have each: "b_step inp U t (shared_edges inp x t)" "shared_edges inp x t = Ok t' \<Longrightarrow> reads_done inp t' x"
    if "x \<in> set (ds_modules (gi_set inp))" "ok_builder inp U t" "extends U b t" for x t t'
  proof -
    have w: "workload_descriptor (fst x) (snd x) \<in> node_keys t"
      using m that(1) subsetD [OF extends_keys [OF that(3)]] by (simp add: module_done_def)
    have "\<forall>y \<in> set (ds_shared (gi_set inp)). shared_done t y" using sh shared_done_mono [OF _ that(3)] by simp
    note e = shared_edges_ok [OF that(2) w this]
    show "b_step inp U t (shared_edges inp x t)" by (rule e(1))
    show "shared_edges inp x t = Ok t' \<Longrightarrow> reads_done inp t' x" by (rule e(2))
  qed
  show "b_step inp U b (try_fold (shared_edges inp) (ds_modules (gi_set inp)) b)"
    using ok by (rule gb.step_fold) (rule each(1))
  show "try_fold (shared_edges inp) (ds_modules (gi_set inp)) b = Ok b' \<Longrightarrow>
      \<forall>x \<in> set (ds_modules (gi_set inp)). reads_done inp b' x"
    by (erule gb.fold_post [OF ok]; rule each reads_done_mono)
qed

lemma seed_ok:
  "(\<exists>e. seed inp = Err (Fails e)) \<or>
   (\<exists>b. seed inp = Ok b \<and> ok_builder inp (universe inp) b \<and> node_keys b \<subseteq> set (b_queue b) \<and> seeded inp b)"
proof (cases "seed inp")
  case (Inl e)
  have "b_step inp (universe inp) empty_builder (seed inp)" unfolding seed_def
  proof (rule gb.step_bind [OF request_ok [OF empty_builder_ok finite_universe]])
    show "base_env \<in> universe inp" by (rule roots_universe) (simp add: roots_def)
    fix b1 assume b1: "ok_builder inp (universe inp) b1"
    show "b_step inp (universe inp) b1 (rbind (try_fold (request_module inp) (ds_modules (gi_set inp)) b1)
      (\<lambda>b. rbind (try_fold (request_shared inp) (ds_shared (gi_set inp)) b) (\<lambda>b.
       try_fold (shared_edges inp) (ds_modules (gi_set inp)) b)))"
    proof (rule gb.step_bind [OF modules_ok(1) [OF b1]], rule gb.step_bind [OF shareds_ok(1)], assumption)
      fix b2 b3 assume b2: "try_fold (request_module inp) (ds_modules (gi_set inp)) b1 = Ok b2" "ok_builder inp (universe inp) b2"
        and b3: "try_fold (request_shared inp) (ds_shared (gi_set inp)) b2 = Ok b3" "ok_builder inp (universe inp) b3"
          "extends (universe inp) b2 b3"
      have "\<forall>x \<in> set (ds_modules (gi_set inp)). module_done b3 x"
        using modules_ok(2) [OF b1 b2(1)] module_done_mono [OF _ b3(3)] by simp
      then show "b_step inp (universe inp) b3 (try_fold (shared_edges inp) (ds_modules (gi_set inp)) b3)"
        using shareds_ok(2) [OF b2(2) b3(1)] by (rule reads_ok(1) [OF b3(2)])
    qed
  qed
  with Inl show ?thesis by (cases e) simp_all
next
  case (Inr b)
  then obtain b1 b2 b3 where s: "Builder_request inp base_env ''base-env'' None empty_builder = Ok b1"
    "try_fold (request_module inp) (ds_modules (gi_set inp)) b1 = Ok b2"
    "try_fold (request_shared inp) (ds_shared (gi_set inp)) b2 = Ok b3"
    "try_fold (shared_edges inp) (ds_modules (gi_set inp)) b3 = Ok b"
    by (auto simp: seed_def rbind_eq_Inr)
  have "base_env \<in> universe inp" by (rule roots_universe) (simp add: roots_def)
  from request_ok [OF empty_builder_ok finite_universe this, where path = "''base-env''" and params = None and inp = inp] s(1)
  have b1: "ok_builder inp (universe inp) b1" "extends (universe inp) empty_builder b1" by simp_all
  have b2: "ok_builder inp (universe inp) b2" "extends (universe inp) b1 b2"
    using modules_ok(1) [OF b1(1)] s(2) by simp_all
  have b3: "ok_builder inp (universe inp) b3" "extends (universe inp) b2 b3"
    using shareds_ok(1) [OF b2(1)] s(3) by simp_all
  have m: "\<forall>x \<in> set (ds_modules (gi_set inp)). module_done b3 x"
    using modules_ok(2) [OF b1(1) s(2)] module_done_mono [OF _ b3(2)] by simp
  note sh = shareds_ok(2) [OF b2(1) s(3)]
  have b: "ok_builder inp (universe inp) b" "extends (universe inp) b3 b"
    using reads_ok(1) [OF b3(1) m sh] s(4) by simp_all
  have "base_env \<in> node_keys b"
    using request_keys [OF s(1)] by (rule subsetD [OF extends_keys [OF extends_trans [OF b2(2) extends_trans [OF b3(2) b(2)]]]])
  moreover have "\<forall>x \<in> set (ds_modules (gi_set inp)). module_done b x" "\<forall>x \<in> set (ds_shared (gi_set inp)). shared_done b x"
    using m sh module_done_mono [OF _ b(2)] shared_done_mono [OF _ b(2)] by simp_all
  ultimately have "seeded inp b" using reads_ok(2) [OF b3(1) m sh s(4)] by (simp add: seeded_def)
  moreover have "node_keys b \<subseteq> set (b_queue b)"
    using extends_trans [OF b1(2) extends_trans [OF b2(2) extends_trans [OF b3(2) b(2)]]] by (simp add: extends_def)
  ultimately show ?thesis using Inr b(1) by (intro disjI2 exI [of _ b]) simp
qed

section \<open>The whole construction\<close>

lemma dependency_map_closed:
  assumes "ok_builder inp U b" shows "closed_graph (dependency_map (b_nodes b))"
proof -
  have keys: "map fst (dependency_map (b_nodes b)) = map fst (b_nodes b)"
    by (simp add: dependency_map_def case_prod_unfold comp_def)
  have "sorted_wrt (<) deps \<and> set deps \<subseteq> node_keys b" if "(d, deps) \<in> set (dependency_map (b_nodes b))" for d deps
  proof -
    from that obtain n where n: "(d, n) \<in> set (b_nodes b)" "deps = nd_depends_on n" by (auto simp: dependency_map_def)
    then have "map_of (b_nodes b) d = Some n" using assms by (simp add: ok_builder_def bt_map_of_iff)
    from ok_node [OF assms this] n(2) show ?thesis by (simp add: node_ok_def)
  qed
  moreover have "fst ` set (dependency_map (b_nodes b)) = node_keys b" using keys by (metis set_map)
  ultimately show ?thesis using assms keys by (auto simp: closed_graph_def list_all_iff ok_builder_def bt_invar_def)
qed

lemma topological_layers_total:
  assumes "closed_graph (dependency_map nodes)"
  shows "(\<exists>layers. topological_layers nodes = Ok layers \<and> good_layers (dependency_map nodes) layers \<and>
        set (concat layers) = fst ` set nodes \<and> acyclic (edges_of (dependency_map nodes)))
    \<or> (\<exists>c. topological_layers nodes = Err (Fails (Cycle c)) \<and> is_cycle (edges_of (dependency_map nodes)) c \<and>
        \<not> acyclic (edges_of (dependency_map nodes)))"
proof -
  have "fst ` set (dependency_map nodes) = fst ` set nodes" by (force simp: dependency_map_def)
  with layers_loop_total [OF assms] show ?thesis
    by (elim disjE exE conjE) (simp_all add: topological_layers_def)
qed

text \<open>What holds of a finished graph.\<close>

definition finished :: "graph_input \<Rightarrow> builder \<Rightarrow> resource_graph \<Rightarrow> bool" where
  "finished inp b g \<longleftrightarrow> rg_nodes g = b_nodes b \<and> ok_builder inp (universe inp) b \<and> seeded inp b \<and>
     (\<forall>d \<in> node_keys b. expanded inp b d) \<and> (\<forall>c \<in> set (b_co b). cp_match_dependents c \<longrightarrow> co_matched b c) \<and>
     good_layers (dependency_map (rg_nodes g)) (rg_layers g) \<and> set (concat (rg_layers g)) = node_keys b"

lemma expanded_grow:
  assumes "extends U b b'" shows "\<forall>d \<in> node_keys b. expanded inp b d \<Longrightarrow> node_keys b' = node_keys b \<Longrightarrow> \<forall>d \<in> node_keys b'. expanded inp b' d"
  using expanded_mono [OF _ assms] by simp

lemma expand_all_extends:
  assumes "ok_builder inp (universe inp) b" "expand_all inp b = Some (Ok b')" "seeded inp b"
  shows "seeded inp b'"
  using assms
proof (induction "card (universe inp - node_keys b) + length (b_queue b)" arbitrary: b rule: less_induct)
  case less
  show ?case
  proof (cases "b_queue b")
    case Nil
    with less.prems show ?thesis by (subst (asm) expand_all.simps) simp
  next
    case (Cons d q)
    let ?b = "b\<lparr>b_queue := q\<rparr>"
    have ok: "ok_builder inp (universe inp) ?b" "d \<in> node_keys ?b"
      using less.prems(1) Cons by (auto simp: ok_builder_def)
    from less.prems(2) Cons obtain b1 where b1: "expand inp d ?b = Ok b1" "expand_all inp b1 = Some (Ok b')"
      by (subst (asm) expand_all.simps) (auto split: sum.splits)
    have s1: "ok_builder inp (universe inp) b1" "extends (universe inp) ?b b1" using expand_ok(1) [OF ok] b1(1) by simp_all
    have "seeded inp ?b" using less.prems(3)
      by (simp add: seeded_def module_done_def external_done_def shared_done_def reads_done_def read_done_def has_edge_def)
    then have "seeded inp b1" using s1(2) by (rule seeded_mono)
    moreover have "card (universe inp - node_keys b1) + length (b_queue b1) < card (universe inp - node_keys b) + length (b_queue b)"
      using s1(2) Cons by (simp add: extends_def)
    ultimately show ?thesis using less.hyps s1(1) b1(2) by blast
  qed
qed

lemma build_graph_cases:
  "(\<exists>e. build_graph inp = Some (Err (Fails e))) \<or> (\<exists>g b. build_graph inp = Some (Ok g) \<and> finished inp b g)"
  using seed_ok [of inp]
proof (elim disjE exE conjE)
  fix b assume seed: "seed inp = Ok b" "ok_builder inp (universe inp) b" "node_keys b \<subseteq> set (b_queue b)" "seeded inp b"
  have "queue_ok inp b" using seed(3) by (auto simp: queue_ok_def)
  from expand_all_ends [OF seed(2) this] show ?thesis
  proof (elim disjE exE conjE)
    fix b1 assume b1: "expand_all inp b = Some (Ok b1)" "ok_builder inp (universe inp) b1" "\<forall>d \<in> node_keys b1. expanded inp b1 d"
    have s1: "seeded inp b1" using seed(2) b1(1) seed(4) by (rule expand_all_extends)
    from match_dependents_ends [OF b1(2)] obtain b2 where b2: "match_dependents b1 = Some (Ok b2)" "ok_builder inp (universe inp) b2"
      "extends (universe inp) b1 b2" "node_keys b2 = node_keys b1" "\<forall>c \<in> set (b_co b2). cp_match_dependents c \<longrightarrow> co_matched b2 c"
      by (elim exE conjE)
    have e2: "\<forall>d \<in> node_keys b2. expanded inp b2 d" using b2(3) b1(3) b2(4) by (rule expanded_grow)
    have s2: "seeded inp b2" using s1 b2(3) by (rule seeded_mono)
    from topological_layers_total [OF dependency_map_closed [OF b2(2)]] show ?thesis
    proof (elim disjE exE conjE)
      fix layers assume "topological_layers (b_nodes b2) = Ok layers" "good_layers (dependency_map (b_nodes b2)) layers"
        "set (concat layers) = node_keys b2"
      then show ?thesis using seed(1) b1(1) b2 e2 s2
        by (intro disjI2 exI [of _ "\<lparr>rg_nodes = b_nodes b2, rg_layers = layers\<rparr>"] exI [of _ b2])
          (simp add: build_graph_def finished_def)
    next
      fix c assume "topological_layers (b_nodes b2) = Err (Fails (Cycle c))"
      then show ?thesis using seed(1) b1(1) b2(1) by (simp add: build_graph_def)
    qed
  qed (simp add: build_graph_def seed(1))
qed (simp add: build_graph_def)

section \<open>A small graph\<close>

definition sample_type :: "string \<Rightarrow> resource_use \<Rightarrow> resource_type" where
  "sample_type i u = \<lparr>rt_id = i, rt_name = i, rt_use = u, rt_category = '''', rt_inputs_schema = JNull, rt_outputs_schema = JNull\<rparr>"

definition plain_definition :: "string \<Rightarrow> string \<Rightarrow> resource_definition" where
  "plain_definition i ty = \<lparr>rd_id = i, rd_name = i, rd_ty = ty, rd_driver_type = ''openporch/echo'', rd_driver_account = None,
     rd_driver_inputs = default_driver_inputs, rd_provision = [], rd_criteria = [default_criterion]\<rparr>"

definition sample_external :: external where
  "sample_external = \<lparr>ex_ty = ''postgres'', ex_class = ''default'', ex_id = None, ex_params = None\<rparr>"

definition sample_module :: module where
  "sample_module = default_module\<lparr>mo_externals := [(''db'', sample_external)]\<rparr>"

definition sample_input :: graph_input where
  "sample_input = \<lparr>gi_org = ''org'', gi_app = ''app'', gi_env = ''dev'', gi_env_type = ''development'',
     gi_set = \<lparr>ds_modules = [(''web'', sample_module)], ds_shared = []\<rparr>,
     gi_definitions = [plain_definition ''base'' ''base-env'', plain_definition ''wl'' ''workload'', plain_definition ''pg'' ''postgres''],
     gi_types = [sample_type ''base-env'' Implicit, sample_type ''workload'' Implicit, sample_type ''postgres'' Direct],
     gi_classes = []\<rparr>"

lemmas sample_defs = sample_input_def sample_type_def plain_definition_def default_criterion_def default_driver_inputs_def

lemma sample_types:
  "find_type sample_input ''base-env'' = Some (sample_type ''base-env'' Implicit)"
  "find_type sample_input ''workload'' = Some (sample_type ''workload'' Implicit)"
  "find_type sample_input ''postgres'' = Some (sample_type ''postgres'' Direct)"
  "ClassRegistry_contains (gi_classes sample_input) ty ''default''"
  by (simp_all add: find_type_def sample_defs ClassRegistry_contains_def is_default_def default_class_def)

lemma sample_select:
  "select_definition (gi_definitions sample_input) (node_context sample_input (Descriptor ''base-env'' ''default'' i)) =
     Ok (plain_definition ''base'' ''base-env'')"
  "select_definition (gi_definitions sample_input) (node_context sample_input (Descriptor ''workload'' ''default'' i)) =
     Ok (plain_definition ''wl'' ''workload'')"
  "select_definition (gi_definitions sample_input) (node_context sample_input (Descriptor ''postgres'' ''default'' i)) =
     Ok (plain_definition ''pg'' ''postgres'')"
  by (simp_all add: select_definition_def definition_weight_def criterion_weight_def field_weight_def map_filter_simps
      is_default_def default_class_def node_context_def sample_defs)

definition sample_db :: descriptor where "sample_db = Descriptor ''postgres'' ''default'' ''modules.web.externals.db''"
definition sample_web :: descriptor where "sample_web = Descriptor ''workload'' ''default'' ''modules.web''"

definition sample_node :: "descriptor \<Rightarrow> string \<Rightarrow> json option \<Rightarrow> string \<Rightarrow> json option \<Rightarrow> descriptor list \<Rightarrow> node" where
  "sample_node d i params path p deps = \<lparr>nd_descriptor = d, nd_definition = i, nd_driver_type = ''openporch/echo'',
     nd_params = params, nd_requests = [Request path (map_option to_canonical_string p)], nd_depends_on = deps\<rparr>"

definition sample_params :: json where
  "sample_params = JObj [(''id'', JStr ''web''), (''class'', JStr ''default''), (''spec'', JObj [])]"

definition sample_nodes :: nodes where
  "sample_nodes = [(base_env, sample_node base_env ''base'' None ''base-env'' None []),
     (sample_db, sample_node sample_db ''pg'' None ''modules.web.externals.db'' (Some JNull) []),
     (sample_web, sample_node sample_web ''wl'' (Some sample_params) ''modules.web'' (Some sample_params) [sample_db])]"


lemma sample_order [simp]: "base_env < sample_db" "sample_db < sample_web" "base_env < sample_web"
  "\<not> sample_db < base_env" "\<not> sample_web < sample_db" "\<not> sample_web < base_env"
  "sample_web \<noteq> base_env" "sample_web \<noteq> sample_db" "sample_db \<noteq> base_env" "base_env \<noteq> sample_web"
  "sample_db \<noteq> sample_web" "base_env \<noteq> sample_db"
  by (simp_all add: less_descriptor_def less_eq_descriptor_def descriptor_le_def base_env_def sample_db_def sample_web_def)

lemma sample_request:
  assumes "map_of (b_nodes b) d = None" "(d, i) \<in> {(base_env, ''base''), (sample_web, ''wl''), (sample_db, ''pg'')}"
  shows "Builder_request sample_input d path params b = Ok (b\<lparr>
     b_explicit := (case map_option to_canonical_string params of None \<Rightarrow> b_explicit b | Some c \<Rightarrow> bt_insert d (path, c) (b_explicit b)),
     b_nodes := bt_insert d (sample_node d i (non_null params) path params []) (b_nodes b), b_queue := b_queue b @ [d]\<rparr>)"
  using assms by (auto simp: Builder_request_def base_env_def sample_web_def sample_db_def default_class_def sample_types sample_select
      sample_node_def plain_definition_def)


lemma sample_set: "gi_set sample_input = \<lparr>ds_modules = [(''web'', sample_module)], ds_shared = []\<rparr>"
  by (simp add: sample_input_def)

lemma sample_res_id: "is_res_id ''modules.web.externals.db''"
  by code_simp

lemma sample_names:
  "workload_descriptor ''web'' sample_module = sample_web"
  "workload_params ''web'' sample_module = sample_params"
  "mo_externals sample_module = [(''db'', sample_external)]" "mo_spec sample_module = []"
  "external_res_id ''web'' ''db'' sample_external = Ok (d_id sample_db)" "ex_params sample_external = None"
  "Descriptor (ex_ty sample_external) (ex_class sample_external) (d_id sample_db) = sample_db"
  by (simp_all add: workload_descriptor_def workload_params_def sample_web_def sample_params_def external_res_id_def sample_db_def
      sample_module_def sample_external_def default_module_def default_class_def ResId_workload_def ResId_private_Inr sample_res_id)

lemma sample_seed: "\<exists>ex. seed sample_input = Ok \<lparr>b_nodes = sample_nodes, b_explicit = ex,
    b_queue = [base_env, sample_web, sample_db], b_co = []\<rparr>"
  by (simp add: seed_def sample_request sample_set request_module_def request_external_def sample_names add_edge_def Builder_edge_def
   bt_modify_def shared_edges_def collect_placeholders_simps sample_nodes_def sample_node_def non_null_def sample_params_def
    insort_insert_key_def module_path_def external_path_def)

lemma sample_expand:
  assumes "map_of (b_nodes b) d = Some n" "(d, nd_definition n) \<in> {(base_env, ''base''), (sample_web, ''wl''), (sample_db, ''pg'')}"
  shows "expand sample_input d b = Ok b"
  using assms by (auto simp: expand_def sample_defs definition_placeholders_def account_placeholders_def collect_placeholders_simps)

lemma sample_build: "build_graph sample_input = Some (Ok \<lparr>rg_nodes = sample_nodes, rg_layers = [[base_env, sample_db], [sample_web]]\<rparr>)"
proof -
  obtain ex where ex: "seed sample_input = Ok \<lparr>b_nodes = sample_nodes, b_explicit = ex,
    b_queue = [base_env, sample_web, sample_db], b_co = []\<rparr>" using sample_seed ..
  have nodes: "map_of sample_nodes base_env = Some (sample_node base_env ''base'' None ''base-env'' None [])"
    "map_of sample_nodes sample_db = Some (sample_node sample_db ''pg'' None ''modules.web.externals.db'' (Some JNull) [])"
    "map_of sample_nodes sample_web = Some (sample_node sample_web ''wl'' (Some sample_params) ''modules.web'' (Some sample_params) [sample_db])"
    by (simp_all add: sample_nodes_def)
  have e: "expand_all sample_input \<lparr>b_nodes = sample_nodes, b_explicit = ex, b_queue = [base_env, sample_web, sample_db], b_co = []\<rparr> =
     Some (Ok \<lparr>b_nodes = sample_nodes, b_explicit = ex, b_queue = [], b_co = []\<rparr>)"
    by (simp add: expand_all.simps sample_expand nodes sample_node_def)
  have m: "match_dependents \<lparr>b_nodes = sample_nodes, b_explicit = ex, b_queue = [], b_co = []\<rparr> =
     Some (Ok \<lparr>b_nodes = sample_nodes, b_explicit = ex, b_queue = [], b_co = []\<rparr>)"
    by (simp add: match_dependents.simps match_round_def)
  have "topological_layers sample_nodes = Ok [[base_env, sample_db], [sample_web]]"
    by (simp add: topological_layers_def dependency_map_def sample_nodes_def sample_node_def layers_loop.simps ready_nodes_def
      without_ready_def bt_remove_def bs_remove_def)
  then show ?thesis by (simp add: build_graph_def ex e m)
qed

section \<open>Properties\<close>

lemma build_graph_finished: "build_graph inp = Some (Ok g) \<Longrightarrow> \<exists>b. finished inp b g"
  using build_graph_cases [of inp] by (elim disjE exE conjE) auto

lemma finished_node:
  assumes "finished inp b g" "(d, n) \<in> set (rg_nodes g)"
  shows "map_of (b_nodes b) d = Some n" "node_ok inp (map_of (b_explicit b) d) d n" "set (nd_depends_on n) \<subseteq> node_keys b"
proof -
  have ok: "ok_builder inp (universe inp) b" and nodes: "rg_nodes g = b_nodes b" using assms(1) by (simp_all add: finished_def)
  then show n: "map_of (b_nodes b) d = Some n" using assms(2) by (simp add: ok_builder_def bt_map_of_iff)
  show "node_ok inp (map_of (b_explicit b) d) d n" "set (nd_depends_on n) \<subseteq> node_keys b"
    using ok_node [OF ok n] by simp_all
qed

lemma finished_deps:
  assumes "finished inp b g" "(d, n) \<in> set (rg_nodes g)"
  shows "deps_of (dependency_map (rg_nodes g)) d = set (nd_depends_on n)"
  using finished_node(1) [OF assms] assms(1) by (simp add: deps_of_def dependency_map_def map_of_map finished_def)

lemma finished_layer:
  assumes b: "finished inp b g"
  shows "layer_of (dependency_map (rg_nodes g)) S =
    {d. \<exists>n. (d, n) \<in> set (rg_nodes g) \<and> d \<notin> S \<and> set (nd_depends_on n) \<subseteq> S}"
proof (rule set_eqI)
  fix d
  let ?g = "dependency_map (rg_nodes g)"
  have keys: "fst ` set ?g = fst ` set (rg_nodes g)" by (force simp: dependency_map_def)
  have "d \<in> fst ` set (rg_nodes g) \<and> deps_of ?g d \<subseteq> S \<longleftrightarrow> (\<exists>n. (d, n) \<in> set (rg_nodes g) \<and> set (nd_depends_on n) \<subseteq> S)"
  proof
    assume d: "d \<in> fst ` set (rg_nodes g) \<and> deps_of ?g d \<subseteq> S"
    then obtain n where "(d, n) \<in> set (rg_nodes g)" by auto
    with d finished_deps [OF b this] show "\<exists>n. (d, n) \<in> set (rg_nodes g) \<and> set (nd_depends_on n) \<subseteq> S"
      by (intro exI [of _ n]) simp
  next
    assume "\<exists>n. (d, n) \<in> set (rg_nodes g) \<and> set (nd_depends_on n) \<subseteq> S"
    then obtain n where n: "(d, n) \<in> set (rg_nodes g)" "set (nd_depends_on n) \<subseteq> S" by (elim exE conjE)
    then show "d \<in> fst ` set (rg_nodes g) \<and> deps_of ?g d \<subseteq> S"
      using finished_deps [OF b n(1)] imageI [OF n(1), of fst] by simp
  qed
  then show "d \<in> layer_of ?g S \<longleftrightarrow> d \<in> {d. \<exists>n. (d, n) \<in> set (rg_nodes g) \<and> d \<notin> S \<and> set (nd_depends_on n) \<subseteq> S}"
    unfolding layer_of_def keys by (cases "d \<in> S") simp_all
qed


text \<open>C4: the layers of a built graph list every node exactly once, and every dependency of a node
  is in an earlier layer than the node; a layer holds exactly the nodes whose dependencies are all in
  earlier layers, so none comes later than it has to.\<close>

theorem build_graph_layers:
  assumes "build_graph inp = Some (Ok g)"
  shows "distinct (ResourceGraph_order g) \<and> set (ResourceGraph_order g) = fst ` set (rg_nodes g)
    \<and> (\<forall>i < length (rg_layers g). set (rg_layers g ! i) =
         {d. \<exists>n. (d, n) \<in> set (rg_nodes g) \<and> d \<notin> set (concat (take i (rg_layers g))) \<and>
              set (nd_depends_on n) \<subseteq> set (concat (take i (rg_layers g)))})
    \<and> (\<forall>i < length (rg_layers g). \<forall>d \<in> set (rg_layers g ! i). \<forall>e. (d, e) \<in> set (ResourceGraph_edges g) \<longrightarrow>
         (\<exists>j < i. e \<in> set (rg_layers g ! j)))"
proof -
  obtain b where b: "finished inp b g" using build_graph_finished [OF assms] ..
  let ?g = "dependency_map (rg_nodes g)"
  have good: "good_layers ?g (rg_layers g)" and cover: "set (concat (rg_layers g)) = fst ` set (rg_nodes g)"
    using b unfolding finished_def by (elim conjE, simp)+
  have edge: "e \<in> deps_of ?g d" if "(d, e) \<in> set (ResourceGraph_edges g)" for d e
  proof -
    from that obtain k n where n: "(k, n) \<in> set (rg_nodes g)" "d = nd_descriptor n" "e \<in> set (nd_depends_on n)"
      by (auto simp: ResourceGraph_edges_def)
    then have "d = k" using finished_node(2) [OF b n(1)] by (simp add: node_ok_def)
    with finished_deps [OF b n(1)] n(3) show ?thesis by simp
  qed
  show ?thesis
    using good cover good_layers_edge [OF good] edge
    by (simp add: ResourceGraph_order_def good_layers_def finished_layer [OF b])
qed

definition sample_graph :: resource_graph where
  "sample_graph = \<lparr>rg_nodes = sample_nodes, rg_layers = [[base_env, sample_db], [sample_web]]\<rparr>"

theorem build_graph_layers_witness:
  "build_graph sample_input = Some (Ok sample_graph) \<and> (sample_web, sample_db) \<in> set (ResourceGraph_edges sample_graph) \<and>
   (\<exists>j < 1. sample_db \<in> set (rg_layers sample_graph ! j))"
proof -
  have g: "build_graph sample_input = Some (Ok sample_graph)" unfolding sample_graph_def by (rule sample_build)
  have e: "(sample_web, sample_db) \<in> set (ResourceGraph_edges sample_graph)"
    by (simp add: ResourceGraph_edges_def sample_graph_def sample_nodes_def sample_node_def)
  have "1 < length (rg_layers sample_graph)" "sample_web \<in> set (rg_layers sample_graph ! 1)" by (simp_all add: sample_graph_def)
  with build_graph_layers [OF g] e have "\<exists>j < 1. sample_db \<in> set (rg_layers sample_graph ! j)" by blast
  with g e show ?thesis by blast
qed

text \<open>C22: ordering a graph whose dependencies are all nodes succeeds exactly when it has no cycle, and
  otherwise reports one: a path along dependencies back to its start that visits no other node twice.\<close>

theorem topological_layers_cycle:
  assumes "closed_graph (dependency_map nodes)"
  shows "(is_ok (topological_layers nodes) \<longleftrightarrow> acyclic (edges_of (dependency_map nodes)))
    \<and> (\<forall>e. topological_layers nodes = Err e \<longrightarrow> (\<exists>c. e = Fails (Cycle c) \<and> is_cycle (edges_of (dependency_map nodes)) c))"
  using topological_layers_total [OF assms] by (elim disjE exE conjE) simp_all

definition cyclic_nodes :: nodes where
  "cyclic_nodes = [(base_env, sample_node base_env ''base'' None ''x'' None [sample_db]),
     (sample_db, sample_node sample_db ''pg'' None ''x'' None [base_env])]"

theorem topological_layers_cycle_witness:
  "\<exists>c. topological_layers cyclic_nodes = Err (Fails (Cycle c)) \<and> is_cycle (edges_of (dependency_map cyclic_nodes)) c"
proof -
  have "closed_graph (dependency_map cyclic_nodes)"
    by (simp add: closed_graph_def dependency_map_def cyclic_nodes_def sample_node_def bt_invar_def)
  note t = topological_layers_cycle [OF this]
  have "(base_env, sample_db) \<in> edges_of (dependency_map cyclic_nodes)" "(sample_db, base_env) \<in> edges_of (dependency_map cyclic_nodes)"
    by (simp_all add: edges_of_def deps_of_def dependency_map_def cyclic_nodes_def sample_node_def)
  then have "\<not> acyclic (edges_of (dependency_map cyclic_nodes))" by (meson acyclic_def r_into_trancl trancl_trans)
  with t have "\<not> is_ok (topological_layers cyclic_nodes)" by blast
  then obtain e where "topological_layers cyclic_nodes = Err e" by (cases "topological_layers cyclic_nodes") simp_all
  with t show ?thesis by blast
qed

text \<open>C11: every node of a built graph carries the definition that matches it in its context, the
  requests that put it there once each in order, dependencies that are nodes, and inputs on which all
  requests that supply inputs agree.\<close>

theorem build_graph_nodes:
  assumes "build_graph inp = Some (Ok g)" "(d, n) \<in> set (rg_nodes g)"
  shows "nd_descriptor n = d
    \<and> (\<exists>def. select_definition (gi_definitions inp) (node_context inp d) = Ok def \<and>
         nd_definition n = rd_id def \<and> nd_driver_type n = rd_driver_type def)
    \<and> set (nd_depends_on n) \<subseteq> fst ` set (rg_nodes g)
    \<and> nd_requests n \<noteq> [] \<and> sorted_wrt (<) (nd_requests n)
    \<and> (\<forall>r c. r \<in> set (nd_requests n) \<and> rq_params r = Some c \<longrightarrow>
         c = to_canonical_string (case_option JNull id (nd_params n)))
    \<and> (nd_params n \<noteq> None \<longrightarrow> (\<exists>r \<in> set (nd_requests n). rq_params r \<noteq> None))"
proof -
  obtain b where b: "finished inp b g" using build_graph_finished [OF assms(1)] ..
  note n = finished_node [OF b assms(2)]
  have keys: "node_keys b = fst ` set (rg_nodes g)" using b by (simp add: finished_def)
  have agree: "c = to_canonical_string (case_option JNull id (nd_params n))"
    if "r \<in> set (nd_requests n)" "rq_params r = Some c" for r c
  proof (cases "map_of (b_explicit b) d")
    case (Some e)
    then show ?thesis using n(2) that by (cases e) (fastforce simp: node_ok_def)
  qed (use n(2) that in \<open>fastforce simp: node_ok_def\<close>)
  have given: "\<exists>r \<in> set (nd_requests n). rq_params r \<noteq> None" if "nd_params n \<noteq> None"
  proof -
    from n(2) that obtain p c where "map_of (b_explicit b) d = Some (p, c)" by (cases "map_of (b_explicit b) d") (auto simp: node_ok_def)
    then have "Request p (Some c) \<in> set (nd_requests n)" using n(2) by (simp add: node_ok_def)
    then show ?thesis by (rule bexI [rotated]) simp
  qed
  show ?thesis
  proof (intro conjI allI impI)
    show "\<exists>def. select_definition (gi_definitions inp) (node_context inp d) = Ok def \<and>
         nd_definition n = rd_id def \<and> nd_driver_type n = rd_driver_type def" using n(2) by (simp add: node_ok_def)
  qed (use n agree given keys in \<open>auto simp: node_ok_def\<close>)
qed

theorem build_graph_nodes_witness:
  "\<exists>def. select_definition (gi_definitions sample_input) (node_context sample_input sample_web) = Ok def \<and> rd_id def = ''wl''"
proof -
  have "(sample_web, sample_node sample_web ''wl'' (Some sample_params) ''modules.web'' (Some sample_params) [sample_db])
    \<in> set (rg_nodes \<lparr>rg_nodes = sample_nodes, rg_layers = [[base_env, sample_db], [sample_web]]\<rparr>)"
    by (simp add: sample_nodes_def)
  from build_graph_nodes [OF sample_build this] show ?thesis by (auto simp: sample_node_def)
qed

text \<open>C2: a built graph is complete. It has the base environment, every workload and shared resource of
  the set, every dependency of a workload with an edge to it, and an edge to every shared resource the
  workload reads; every node is expanded, so each resource its definition refers to is a node it
  depends on, and each co-provisioned resource is a node before or after it as the definition says;
  and with \<open>match_dependents\<close> every consumer of the source also depends on the co-provisioned one.\<close>

theorem build_graph_complete:
  assumes "build_graph inp = Some (Ok g)"
  shows "\<exists>b. b_nodes b = rg_nodes g \<and> seeded inp b \<and> (\<forall>d. d \<in> node_keys b \<longrightarrow> expanded inp b d)
    \<and> (\<forall>c x n. c \<in> set (b_co b) \<and> cp_match_dependents c \<and> (x, n) \<in> set (rg_nodes g) \<and> x \<noteq> cp_co c \<and> x \<noteq> cp_source c \<and>
         cp_source c \<in> set (nd_depends_on n) \<longrightarrow> cp_co c \<in> set (nd_depends_on n))"
proof -
  obtain b where b: "finished inp b g" using build_graph_finished [OF assms] ..
  have nodes: "b_nodes b = rg_nodes g" "seeded inp b" "\<forall>d. d \<in> node_keys b \<longrightarrow> expanded inp b d"
    using b unfolding finished_def by (elim conjE, simp only: Ball_def)+
  have co: "cp_co c \<in> set (nd_depends_on n)"
    if c: "c \<in> set (b_co b)" "cp_match_dependents c" and n: "(x, n) \<in> set (rg_nodes g)" and "x \<noteq> cp_co c" "x \<noteq> cp_source c"
      "cp_source c \<in> set (nd_depends_on n)" for c x n
  proof -
    have "co_matched b c" using b c by (simp add: finished_def)
    moreover have "x \<in> set (consumers b c)"
    proof -
      have "nd_descriptor n = x" using finished_node(2) [OF b n] by (simp add: node_ok_def)
      moreover have "n \<in> snd ` set (b_nodes b)" using imageI [OF n, of snd] nodes(1) by simp
      ultimately show ?thesis using that(4-6) unfolding consumers_def set_map set_filter by (intro image_eqI [of _ _ n]) simp_all
    qed
    ultimately have "has_edge b x (cp_co c)" by (simp add: co_matched_def)
    then show ?thesis using finished_node(1) [OF b n] by (simp add: has_edge_def)
  qed
  show ?thesis using nodes co by (intro exI [of _ b] conjI allI impI) blast+
qed

theorem build_graph_complete_witness:
  "\<exists>b. b_nodes b = sample_nodes \<and> seeded sample_input b \<and> expanded sample_input b sample_web"
proof -
  from build_graph_complete [OF sample_build] obtain b where b: "b_nodes b = sample_nodes" "seeded sample_input b"
    "\<forall>d. d \<in> node_keys b \<longrightarrow> expanded sample_input b d" by auto
  moreover have "sample_web \<in> node_keys b" by (simp add: b(1) sample_nodes_def)
  ultimately show ?thesis by blast
qed

end
