(* ===== verification/Workload_Doc.thy ===== *)
theory Workload_Doc
  imports Catalog Sets Placeholder "HOL-Library.Word"
begin

text \<open>
  The workload document (\<open>crates/core/src/workload.rs\<close>): its types, and its serialization as the
  field attributes of the source give it. An \<open>IndexMap\<close> is its entries in insertion order with
  distinct keys; port and concurrency numbers keep their widths. Optional fields and maps that the
  source skips when empty are left out of the object.
\<close>

section \<open>The document\<close>

definition API_VERSION :: string where
  "API_VERSION = ''openporch.dev/v1''"

definition SCORE_API_VERSION :: string where
  "SCORE_API_VERSION = ''score.dev/v1b1''"

type_synonym 'a index_map = "(string \<times> 'a) list"

record metadata =
  md_name :: string
  md_class :: "string option"
  md_annotations :: "(string, string) btree_map"

record mounted_file =
  fl_mode :: "string option"
  fl_source :: "string option"
  fl_content :: "string option"
  fl_no_expand :: "bool option"

record quantities =
  qt_memory :: "string option"
  qt_cpu :: "string option"

record container_resources =
  cs_limits :: "quantities option"
  cs_requests :: "quantities option"

record http_header =
  hh_name :: string
  hh_value :: string

record http_probe =
  hp_scheme :: "string option"
  hp_host :: "string option"
  hp_path :: string
  hp_port :: "16 word"
  hp_http_headers :: "http_header list"

record exec_probe =
  ep_command :: "string list"

record probe =
  pr_http_get :: "http_probe option"
  pr_exec :: "exec_probe option"

record container =
  ct_image :: string
  ct_command :: "string list option"
  ct_args :: "string list option"
  ct_variables :: "string index_map"
  ct_files :: "mounted_file index_map"
  ct_resources :: "container_resources option"
  ct_liveness_probe :: "probe option"
  ct_readiness_probe :: "probe option"

record service_port =
  sp_port :: "16 word"
  sp_target_port :: "16 word option"
  sp_protocol :: "string option"

record service =
  sv_ports :: "service_port index_map"

datatype package =
    Zip (zip_artifact: string) (zip_runtime: string) (zip_handler: string)
  | Image (image_ref: string)

record concurrency =
  cc_reserved :: "32 word option"
  cc_provisioned :: "32 word option"

record function_workload =
  fn_package :: package
  fn_variables :: "string index_map"
  fn_memory :: string
  fn_timeout :: string
  fn_concurrency :: "concurrency option"

datatype http_auth = AuthNone | Iam

record http_trigger =
  ht_port :: "string option"
  ht_path :: "string option"
  ht_auth :: "http_auth option"

record schedule_trigger =
  st_cron :: string
  st_timezone :: "string option"
  st_input :: "json option"

record queue_trigger =
  qu_resource :: string
  qu_batch_size :: "32 word option"

record topic_trigger =
  tp_resource :: string

record stream_trigger =
  sm_resource :: string
  sm_batch_size :: "32 word option"
  sm_starting_position :: "string option"

datatype trigger =
    Http http_trigger
  | Schedule schedule_trigger
  | Queue queue_trigger
  | Topic topic_trigger
  | Stream stream_trigger

fun Trigger_kind :: "trigger \<Rightarrow> string" where
  "Trigger_kind (Http _) = ''http''"
| "Trigger_kind (Schedule _) = ''schedule''"
| "Trigger_kind (Queue _) = ''queue''"
| "Trigger_kind (Topic _) = ''topic''"
| "Trigger_kind (Stream _) = ''stream''"

fun Trigger_resource :: "trigger \<Rightarrow> string option" where
  "Trigger_resource (Queue t) = Some (qu_resource t)"
| "Trigger_resource (Topic t) = Some (tp_resource t)"
| "Trigger_resource (Stream t) = Some (sm_resource t)"
| "Trigger_resource (Http _) = None"
| "Trigger_resource (Schedule _) = None"

record resource_metadata =
  rm_annotations :: "(string, string) btree_map"

record resource_request =
  rs_ty :: string
  rs_class :: "string option"
  rs_id :: "string option"
  rs_params :: "json option"
  rs_metadata :: "resource_metadata option"

datatype deploy_status = StatusDeploy | StatusAvailable

record deploy =
  dp_status :: "deploy_status option"
  dp_timeout :: "string option"

record workload =
  wl_api_version :: string
  wl_kind :: string
  wl_metadata :: metadata
  wl_containers :: "container index_map option"
  wl_function :: "function_workload option"
  wl_service :: "service option"
  wl_triggers :: "trigger index_map"
  wl_resources :: "resource_request index_map"
  wl_deploy :: "deploy option"
  wl_target :: "json_map option"

definition default_http_trigger :: http_trigger where
  "default_http_trigger = \<lparr>ht_port = None, ht_path = None, ht_auth = None\<rparr>"

section \<open>Score files and overlays\<close>

record score_metadata =
  sc_name :: string
  sc_annotations :: "(string, string) btree_map"

record score_workload =
  sw_api_version :: string
  sw_metadata :: score_metadata
  sw_containers :: "container index_map"
  sw_service :: "service option"
  sw_resources :: "resource_request index_map"

record overlay_metadata =
  om_class :: "string option"

record workload_overlay =
  ov_api_version :: string
  ov_kind :: string
  ov_metadata :: "overlay_metadata option"
  ov_triggers :: "trigger index_map"
  ov_deploy :: "deploy option"
  ov_target :: "json_map option"

definition default_overlay :: workload_overlay where
  "default_overlay = \<lparr>ov_api_version = [], ov_kind = [], ov_metadata = None, ov_triggers = [],
     ov_deploy = None, ov_target = None\<rparr>"

record workload_error =
  we_path :: string
  we_message :: string

definition workload_error_string :: "workload_error \<Rightarrow> string" where
  "workload_error_string e = we_path e @ '': '' @ we_message e"

definition WorkloadError_new :: "string \<Rightarrow> string \<Rightarrow> workload_error" where
  "WorkloadError_new path message = \<lparr>we_path = path, we_message = message\<rparr>"

section \<open>Serialization\<close>

text \<open>A map or list that \<open>skip_serializing_if\<close> leaves out when it is empty.\<close>

definition some_field :: "string \<Rightarrow> ('a list \<Rightarrow> json) \<Rightarrow> 'a list \<Rightarrow> json_map" where
  "some_field k f xs = (if xs = [] then [] else [(k, f xs)])"

definition map_value :: "('a \<Rightarrow> json) \<Rightarrow> 'a index_map \<Rightarrow> json" where
  "map_value f m = JObj (map (\<lambda>(k, v). (k, f v)) m)"

definition strings_value :: "string list \<Rightarrow> json" where
  "strings_value xs = JArr (map JStr xs)"

definition word_value :: "'a::len word \<Rightarrow> json" where
  "word_value n = JNum (PosInt (unat n))"

definition metadata_value :: "metadata \<Rightarrow> json" where
  "metadata_value m = JObj ([(''name'', JStr (md_name m))] @ opt_field ''class'' JStr (md_class m) @
     some_field ''annotations'' (map_value JStr) (md_annotations m))"

definition file_value :: "mounted_file \<Rightarrow> json" where
  "file_value f = JObj (opt_field ''mode'' JStr (fl_mode f) @ opt_field ''source'' JStr (fl_source f) @
     opt_field ''content'' JStr (fl_content f) @ opt_field ''noExpand'' JBool (fl_no_expand f))"

definition quantities_value :: "quantities \<Rightarrow> json" where
  "quantities_value q = JObj (opt_field ''memory'' JStr (qt_memory q) @ opt_field ''cpu'' JStr (qt_cpu q))"

definition container_resources_value :: "container_resources \<Rightarrow> json" where
  "container_resources_value r = JObj (opt_field ''limits'' quantities_value (cs_limits r) @
     opt_field ''requests'' quantities_value (cs_requests r))"

definition http_header_value :: "http_header \<Rightarrow> json" where
  "http_header_value h = JObj [(''name'', JStr (hh_name h)), (''value'', JStr (hh_value h))]"

definition http_probe_value :: "http_probe \<Rightarrow> json" where
  "http_probe_value p = JObj (opt_field ''scheme'' JStr (hp_scheme p) @ opt_field ''host'' JStr (hp_host p) @
     [(''path'', JStr (hp_path p)), (''port'', word_value (hp_port p))] @
     some_field ''httpHeaders'' (\<lambda>hs. JArr (map http_header_value hs)) (hp_http_headers p))"

definition exec_probe_value :: "exec_probe \<Rightarrow> json" where
  "exec_probe_value p = JObj [(''command'', strings_value (ep_command p))]"

definition probe_value :: "probe \<Rightarrow> json" where
  "probe_value p = JObj (opt_field ''httpGet'' http_probe_value (pr_http_get p) @
     opt_field ''exec'' exec_probe_value (pr_exec p))"

definition container_value :: "container \<Rightarrow> json" where
  "container_value c = JObj ([(''image'', JStr (ct_image c))] @
     opt_field ''command'' strings_value (ct_command c) @ opt_field ''args'' strings_value (ct_args c) @
     some_field ''variables'' (map_value JStr) (ct_variables c) @
     some_field ''files'' (map_value file_value) (ct_files c) @
     opt_field ''resources'' container_resources_value (ct_resources c) @
     opt_field ''livenessProbe'' probe_value (ct_liveness_probe c) @
     opt_field ''readinessProbe'' probe_value (ct_readiness_probe c))"

definition service_port_value :: "service_port \<Rightarrow> json" where
  "service_port_value p = JObj ([(''port'', word_value (sp_port p))] @
     opt_field ''targetPort'' word_value (sp_target_port p) @ opt_field ''protocol'' JStr (sp_protocol p))"

definition service_value :: "service \<Rightarrow> json" where
  "service_value s = JObj [(''ports'', map_value service_port_value (sv_ports s))]"

fun package_value :: "package \<Rightarrow> json" where
  "package_value (Zip artifact runtime handler) = JObj [(''type'', JStr ''zip''),
     (''artifact'', JStr artifact), (''runtime'', JStr runtime), (''handler'', JStr handler)]"
| "package_value (Image img) = JObj [(''type'', JStr ''image''), (''image'', JStr img)]"

definition concurrency_value :: "concurrency \<Rightarrow> json" where
  "concurrency_value c = JObj (opt_field ''reserved'' word_value (cc_reserved c) @
     opt_field ''provisioned'' word_value (cc_provisioned c))"

definition function_value :: "function_workload \<Rightarrow> json" where
  "function_value f = JObj ([(''package'', package_value (fn_package f))] @
     some_field ''variables'' (map_value JStr) (fn_variables f) @
     [(''memory'', JStr (fn_memory f)), (''timeout'', JStr (fn_timeout f))] @
     opt_field ''concurrency'' concurrency_value (fn_concurrency f))"

fun http_auth_value :: "http_auth \<Rightarrow> json" where
  "http_auth_value AuthNone = JStr ''none''"
| "http_auth_value Iam = JStr ''iam''"

definition http_trigger_value :: "http_trigger \<Rightarrow> json" where
  "http_trigger_value t = JObj (opt_field ''port'' JStr (ht_port t) @ opt_field ''path'' JStr (ht_path t) @
     opt_field ''auth'' http_auth_value (ht_auth t))"

definition schedule_trigger_value :: "schedule_trigger \<Rightarrow> json" where
  "schedule_trigger_value t = JObj ([(''cron'', JStr (st_cron t))] @
     opt_field ''timezone'' JStr (st_timezone t) @ opt_field ''input'' id (st_input t))"

definition queue_trigger_value :: "queue_trigger \<Rightarrow> json" where
  "queue_trigger_value t = JObj ([(''resource'', JStr (qu_resource t))] @
     opt_field ''batchSize'' word_value (qu_batch_size t))"

definition topic_trigger_value :: "topic_trigger \<Rightarrow> json" where
  "topic_trigger_value t = JObj [(''resource'', JStr (tp_resource t))]"

definition stream_trigger_value :: "stream_trigger \<Rightarrow> json" where
  "stream_trigger_value t = JObj ([(''resource'', JStr (sm_resource t))] @
     opt_field ''batchSize'' word_value (sm_batch_size t) @
     opt_field ''startingPosition'' JStr (sm_starting_position t))"

fun trigger_value :: "trigger \<Rightarrow> json" where
  "trigger_value (Http t) = JObj [(''http'', http_trigger_value t)]"
| "trigger_value (Schedule t) = JObj [(''schedule'', schedule_trigger_value t)]"
| "trigger_value (Queue t) = JObj [(''queue'', queue_trigger_value t)]"
| "trigger_value (Topic t) = JObj [(''topic'', topic_trigger_value t)]"
| "trigger_value (Stream t) = JObj [(''stream'', stream_trigger_value t)]"

definition resource_metadata_value :: "resource_metadata \<Rightarrow> json" where
  "resource_metadata_value m = JObj [(''annotations'', map_value JStr (rm_annotations m))]"

definition resource_request_value :: "resource_request \<Rightarrow> json" where
  "resource_request_value r = JObj ([(''type'', JStr (rs_ty r))] @ opt_field ''class'' JStr (rs_class r) @
     opt_field ''id'' JStr (rs_id r) @ opt_field ''params'' id (rs_params r) @
     opt_field ''metadata'' resource_metadata_value (rs_metadata r))"

fun deploy_status_value :: "deploy_status \<Rightarrow> json" where
  "deploy_status_value StatusDeploy = JStr ''deploy''"
| "deploy_status_value StatusAvailable = JStr ''available''"

definition deploy_value :: "deploy \<Rightarrow> json" where
  "deploy_value d = JObj (opt_field ''status'' deploy_status_value (dp_status d) @
     opt_field ''timeout'' JStr (dp_timeout d))"

definition workload_value :: "workload \<Rightarrow> json" where
  "workload_value w = JObj (
     [(''apiVersion'', JStr (wl_api_version w)), (''kind'', JStr (wl_kind w)),
      (''metadata'', metadata_value (wl_metadata w))] @
     opt_field ''containers'' (map_value container_value) (wl_containers w) @
     opt_field ''function'' function_value (wl_function w) @
     opt_field ''service'' service_value (wl_service w) @
     some_field ''triggers'' (map_value trigger_value) (wl_triggers w) @
     some_field ''resources'' (map_value resource_request_value) (wl_resources w) @
     opt_field ''deploy'' deploy_value (wl_deploy w) @
     opt_field ''target'' JObj (wl_target w))"

end
