(* ===== verification/Json_Pointer.thy ===== *)
theory Json_Pointer
  imports Json
begin

text \<open>
  \<open>Value::pointer_mut\<close>, the JSON pointers of RFC 6901: reading the value at a pointer, and the
  document with that value replaced. \<open>escape_pointer\<close> is the encoder of
  \<open>crates/core/src/workload.rs\<close>; a pointer built from it names the key it was built from.
\<close>

section \<open>Pointers\<close>

definition escape_pointer :: "string \<Rightarrow> string" where
  "escape_pointer key = replace_str ''/'' ''~1'' (replace_str ''~'' ''~0'' key)"

definition unescape_pointer :: "string \<Rightarrow> string" where
  "unescape_pointer token = replace_str ''~0'' ''~'' (replace_str ''~1'' ''/'' token)"

text \<open>An index has no sign and no leading zero.\<close>

definition pointer_index :: "string \<Rightarrow> nat option" where
  "pointer_index t =
     (if prefix ''+'' t \<or> (prefix ''0'' t \<and> length t \<noteq> 1) then None else parse_usize t)"

definition obj_update :: "string \<Rightarrow> (json \<Rightarrow> json) \<Rightarrow> json_map \<Rightarrow> json_map" where
  "obj_update k f es = map (\<lambda>(l, v). if l = k then (l, f v) else (l, v)) es"

fun tokens_get :: "string list \<Rightarrow> json \<Rightarrow> json option" where
  "tokens_get [] v = Some v"
| "tokens_get (t # ts) (JObj es) = Option.bind (map_of es t) (tokens_get ts)"
| "tokens_get (t # ts) (JArr xs) =
     Option.bind (pointer_index t) (\<lambda>i. if i < length xs then tokens_get ts (xs ! i) else None)"
| "tokens_get (t # ts) _ = None"

fun tokens_put :: "string list \<Rightarrow> json \<Rightarrow> json \<Rightarrow> json" where
  "tokens_put [] x v = x"
| "tokens_put (t # ts) x (JObj es) = JObj (obj_update t (tokens_put ts x) es)"
| "tokens_put (t # ts) x (JArr xs) =
     (case pointer_index t of
        None \<Rightarrow> JArr xs
      | Some i \<Rightarrow> if i < length xs then JArr (xs[i := tokens_put ts x (xs ! i)]) else JArr xs)"
| "tokens_put (t # ts) x v = v"

text \<open>The reference tokens of a pointer, if it is one.\<close>

definition pointer_tokens :: "string \<Rightarrow> string list option" where
  "pointer_tokens p =
     (if p = [] then Some []
      else if prefix ''/'' p then Some (map unescape_pointer (tl (split_on (CHR ''/'') p)))
      else None)"

definition pointer_get :: "string \<Rightarrow> json \<Rightarrow> json option" where
  "pointer_get p v = Option.bind (pointer_tokens p) (\<lambda>ts. tokens_get ts v)"

definition pointer_put :: "string \<Rightarrow> json \<Rightarrow> json \<Rightarrow> json" where
  "pointer_put p x v = (case pointer_tokens p of None \<Rightarrow> v | Some ts \<Rightarrow> tokens_put ts x v)"

section \<open>Escaping\<close>

text \<open>The pointer with the given tokens.\<close>

definition pointer_of :: "string list \<Rightarrow> string" where
  "pointer_of ts = concat (map (\<lambda>t. CHR ''/'' # escape_pointer t) ts)"

lemma escape_pointer_char:
  "escape_pointer key = concat (map (\<lambda>c. if c = CHR ''~'' then ''~0'' else if c = CHR ''/'' then ''~1'' else [c]) key)"
  by (induction key) (simp_all add: escape_pointer_def replace_str_single)

lemma escape_pointer_simps [simp]:
  "escape_pointer [] = []"
  "escape_pointer (c # s) =
     (if c = CHR ''~'' then ''~0'' else if c = CHR ''/'' then ''~1'' else [c]) @ escape_pointer s"
  by (simp_all add: escape_pointer_char)

lemma escape_pointer_no_slash: "CHR ''/'' \<notin> set (escape_pointer key)"
  by (induction key) auto

lemma unescape_first:
  "replace_str ''~1'' ''/'' (escape_pointer key) =
     concat (map (\<lambda>c. if c = CHR ''~'' then ''~0'' else [c]) key)"
  by (induction key) (auto simp: prefix_Cons)

lemma unescape_second:
  "replace_str ''~0'' ''~'' (concat (map (\<lambda>c. if c = CHR ''~'' then ''~0'' else [c]) key)) = key"
  by (induction key) (auto simp: prefix_Cons)

lemma unescape_escape [simp]: "unescape_pointer (escape_pointer key) = key"
  by (simp add: unescape_pointer_def unescape_first unescape_second)

lemma split_on_pointer_of:
  "split_on (CHR ''/'') (a @ pointer_of ts) =
     (case split_on (CHR ''/'') a of xs \<Rightarrow> xs @ map escape_pointer ts)"
proof (induction ts rule: rev_induct)
  case (snoc t ts)
  have "split_on (CHR ''/'') (a @ pointer_of (ts @ [t])) =
      split_on (CHR ''/'') ((a @ pointer_of ts) @ CHR ''/'' # escape_pointer t)"
    by (simp add: pointer_of_def)
  also have "\<dots> = split_on (CHR ''/'') (a @ pointer_of ts) @ [escape_pointer t]"
    unfolding split_on_app_sep by (simp add: escape_pointer_no_slash)
  finally show ?case using snoc by simp
qed (simp add: pointer_of_def)

lemma pointer_tokens_of [simp]: "pointer_tokens (pointer_of ts) = Some ts"
proof (cases ts)
  case (Cons t us)
  then have "pointer_of ts \<noteq> []" "prefix ''/'' (pointer_of ts)" by (simp_all add: pointer_of_def)
  moreover have "split_on (CHR ''/'') (pointer_of ts) = [] # map escape_pointer ts"
    using split_on_pointer_of [of "[]" ts] by simp
  ultimately show ?thesis by (simp add: pointer_tokens_def comp_def)
qed (simp add: pointer_tokens_def pointer_of_def)

lemma pointer_of_inject [simp]: "pointer_of ts = pointer_of us \<longleftrightarrow> ts = us"
  by (metis option.inject pointer_tokens_of)

lemma pointer_of_simps [simp]:
  "pointer_of [] = []"
  "pointer_of (t # ts) = CHR ''/'' # escape_pointer t @ pointer_of ts"
  by (simp_all add: pointer_of_def)

lemma pointer_of_append: "pointer_of (ts @ us) = pointer_of ts @ pointer_of us"
  by (simp add: pointer_of_def)

section \<open>Reading what was written\<close>

lemma map_of_obj_update: "map_of (obj_update k f es) l = (if l = k then map_option f (map_of es k) else map_of es l)"
  by (induction es) (auto simp: obj_update_def)

lemma keys_obj_update [simp]: "map fst (obj_update k f es) = map fst es"
  by (simp add: obj_update_def split_def comp_def if_distrib cong: if_cong)

lemma tokens_get_put: "tokens_get ts v \<noteq> None \<Longrightarrow> tokens_get ts (tokens_put ts x v) = Some x"
  by (induction ts x v rule: tokens_put.induct)
    (auto simp: map_of_obj_update split: option.splits bind_splits if_splits)

end
