(* ===== verification/Workload.thy ===== *)
theory Workload
  imports Workload_Doc Json_Pointer
begin

text \<open>
  The operations on workload documents (\<open>crates/core/src/workload.rs\<close>): parsing and Score import,
  validation, and conversion into a module of a deployment set. The YAML reader and the derived
  deserializers are arguments, held in the records \<open>yaml_lib\<close> and \<open>decoders\<close>. A panic is a value
  of the result (\<open>Panicked\<close>).
\<close>

section \<open>Quantities, durations and schedules\<close>

definition default_memory :: string where
  "default_memory = ''256Mi''"

definition default_timeout :: string where
  "default_timeout = ''30s''"

definition quantity_suffixes :: "string list" where
  "quantity_suffixes = [''Ki'', ''Mi'', ''Gi'', ''Ti'', ''Pi'', ''Ei'', ''k'', ''M'', ''G'', ''T'', ''P'', ''E'',
     ''m'', '''']"

definition is_digits :: "string \<Rightarrow> bool" where
  "is_digits s \<longleftrightarrow> s \<noteq> [] \<and> list_all is_ascii_digit s"

text \<open>\<open>splitn(2, '.')\<close> gives the whole string, or what is before and after the first dot.\<close>

definition is_decimal :: "string \<Rightarrow> bool" where
  "is_decimal num =
     (case split_once (CHR ''.'') num of
        None \<Rightarrow> is_digits num
      | Some (whole, frac) \<Rightarrow> is_digits whole \<and> is_digits frac)"

definition is_quantity :: "string \<Rightarrow> bool" where
  "is_quantity s \<longleftrightarrow>
     list_ex (\<lambda>suf. case strip_suffix suf s of None \<Rightarrow> False | Some num \<Rightarrow> is_decimal num) quantity_suffixes"

definition duration_units :: "string list" where
  "duration_units = [''ms'', ''s'', ''m'', ''h'']"

text \<open>The loop of \<open>is_duration\<close> on a non-empty rest.\<close>

function duration_loop :: "string \<Rightarrow> bool" where
  "duration_loop rest =
     (if rest = [] then True
      else
        let digits = length (takeWhile is_ascii_digit rest) in
        if digits = 0 then False
        else
          let rest = drop digits rest in
          case find (\<lambda>u. prefix u rest) duration_units of
            Some u \<Rightarrow> duration_loop (drop (length u) rest)
          | None \<Rightarrow> False)"
  by pat_completeness auto
termination
  by (relation "measure length") auto

declare duration_loop.simps [simp del]

definition is_duration :: "string \<Rightarrow> bool" where
  "is_duration s \<longleftrightarrow> s \<noteq> [] \<and> duration_loop s"

text \<open>\<open>str::split_whitespace\<close>: the maximal runs of characters that are not white space.\<close>

fun words_loop :: "string list \<Rightarrow> string \<Rightarrow> string list" where
  "words_loop [] w = (if w = [] then [] else [w])"
| "words_loop (c # cs) w =
     (if is_whitespace c then (if w = [] then [] else [w]) @ words_loop cs [] else words_loop cs (w @ c))"

definition split_whitespace :: "string \<Rightarrow> string list" where
  "split_whitespace s = words_loop (utf8_chars s) []"

definition is_cron :: "string \<Rightarrow> bool" where
  "is_cron s \<longleftrightarrow>
     (let fields = split_whitespace s in
      length fields = 5 \<and>
      list_all (list_all (\<lambda>c. is_ascii_alphanumeric c \<or> c \<in> set ''*,/-?LW#'')) fields)"

section \<open>Placeholders in documents\<close>

definition path_join :: "string \<Rightarrow> string \<Rightarrow> string" where
  "path_join path key = (if path = [] then key else path @ ''.'' @ key)"

definition parse_at :: "string \<Rightarrow> string \<Rightarrow> workload_error + part list" where
  "parse_at path s = map_err (\<lambda>e. WorkloadError_new path (placeholder_error_kind_string e)) (Template_parse s)"

definition reject_string :: "string \<Rightarrow> string \<Rightarrow> workload_error + unit" where
  "reject_string s path =
     rbind (parse_at path s) (\<lambda>t.
       if Template_placeholders t \<noteq> []
       then Err (WorkloadError_new path ''placeholders are not supported in resource params'')
       else Ok ())"

fun reject_placeholders :: "json \<Rightarrow> string \<Rightarrow> workload_error + unit" where
  "reject_placeholders (JStr s) path = reject_string s path"
| "reject_placeholders (JArr items) path =
     try_fold (\<lambda>(i, item) u. reject_placeholders item (path_join path (dec i))) (enumerate 0 items) ()"
| "reject_placeholders (JObj es) path =
     try_fold (\<lambda>(k, item) u. reject_placeholders item (path_join path k)) es ()"
| "reject_placeholders _ path = Ok ()"

definition check_root :: "string \<Rightarrow> raw_placeholder \<Rightarrow> workload_error + unit" where
  "check_root path p =
     (if rp_root p \<in> {''resources'', ''values'', ''pod''} then Ok ()
      else if rp_root p = ''context'' then
        Err (WorkloadError_new path (''`'' @ rp_text p @ ''`: workloads cannot use `context` '' @
          ''placeholders; use `values` for environment configuration''))
      else Err (WorkloadError_new path (''`'' @ rp_text p @ ''`: unknown placeholder root `'' @ rp_root p @ ''`'')))"

fun check_placeholders :: "json \<Rightarrow> string \<Rightarrow> workload_error + unit" where
  "check_placeholders (JStr s) path =
     rbind (parse_at path s) (\<lambda>t. try_fold (\<lambda>p u. check_root path p) (Template_placeholders t) ())"
| "check_placeholders (JArr items) path =
     try_fold (\<lambda>(i, item) u. check_placeholders item (index_location path i)) (enumerate 0 items) ()"
| "check_placeholders (JObj es) path =
     try_fold (\<lambda>(k, item) u. check_placeholders item (path_join path k)) es ()"
| "check_placeholders _ path = Ok ()"

text \<open>Replaces the values at the pointers with \<open>null\<close> and returns them.\<close>

fun set_aside :: "json \<Rightarrow> string list \<Rightarrow> json \<times> (string \<times> json) list" where
  "set_aside v [] = (v, [])"
| "set_aside v (p # ps) =
     (case pointer_get p v of
        None \<Rightarrow> set_aside v ps
      | Some x \<Rightarrow> let (v', kept) = set_aside (pointer_put p JNull v) ps in (v', (p, x) # kept))"

definition file_pointers :: "string \<Rightarrow> string \<Rightarrow> mounted_file index_map \<Rightarrow> string list" where
  "file_pointers pre cid files =
     List.map_filter (\<lambda>(target, f).
       if fl_no_expand f = Some True \<and> fl_content f \<noteq> None
       then Some (pre @ ''/containers/'' @ escape_pointer cid @ ''/files/'' @ escape_pointer target @ ''/content'')
       else None) files"

definition no_expand_pointers :: "workload \<Rightarrow> string \<Rightarrow> string list" where
  "no_expand_pointers w pre =
     concat (map (\<lambda>(cid, c). file_pointers pre cid (ct_files c)) (case_option [] id (wl_containers w)))"

section \<open>Validation\<close>

definition fail_if :: "bool \<Rightarrow> string \<Rightarrow> string \<Rightarrow> workload_error + unit" where
  "fail_if b path message = (if b then Err (WorkloadError_new path message) else Ok ())"

definition check_shape :: "workload \<Rightarrow> workload_error + unit" where
  "check_shape w =
     (case (wl_containers w, wl_function w) of
        (Some _, Some _) \<Rightarrow>
          Err (WorkloadError_new ''.'' ''a workload is either containers or a function, not both'')
      | (None, None) \<Rightarrow> Err (WorkloadError_new ''.'' ''a workload needs `containers` or `function`'')
      | (Some c, None) \<Rightarrow> fail_if (c = []) ''containers'' ''at least one container is required''
      | (None, Some _) \<Rightarrow> Ok ())"

definition check_file :: "string \<Rightarrow> string \<times> mounted_file \<Rightarrow> unit \<Rightarrow> workload_error + unit" where
  "check_file cid = (\<lambda>(target, f) u.
     fail_if ((fl_source f \<noteq> None) = (fl_content f \<noteq> None))
       (''containers.'' @ cid @ ''.files.'' @ target) ''set exactly one of `source` and `content`'')"

definition check_quantity :: "string \<Rightarrow> string \<times> string option \<Rightarrow> unit \<Rightarrow> workload_error + unit" where
  "check_quantity path = (\<lambda>(name, v) u.
     case v of
       None \<Rightarrow> Ok ()
     | Some v \<Rightarrow> fail_if (\<not> is_quantity v) (path @ ''.'' @ name) (''`'' @ v @ ''` is not a quantity''))"

definition check_quantities ::
  "string \<Rightarrow> string \<times> quantities option \<Rightarrow> unit \<Rightarrow> workload_error + unit" where
  "check_quantities cid = (\<lambda>(field, q) u.
     try_fold (check_quantity (''containers.'' @ cid @ ''.resources.'' @ field))
       [(''memory'', Option.bind q qt_memory), (''cpu'', Option.bind q qt_cpu)] ())"

definition check_container :: "string \<times> container \<Rightarrow> unit \<Rightarrow> workload_error + unit" where
  "check_container = (\<lambda>(cid, c) u.
     rbind (fail_if (ct_image c = []) (''containers.'' @ cid @ ''.image'') ''must not be empty'') (\<lambda>_.
     rbind (try_fold (check_file cid) (ct_files c) ()) (\<lambda>_.
     try_fold (check_quantities cid)
       [(''limits'', Option.bind (ct_resources c) cs_limits),
        (''requests'', Option.bind (ct_resources c) cs_requests)] ())))"

fun check_package :: "package \<Rightarrow> workload_error + unit" where
  "check_package (Zip artifact runtime handler) =
     try_fold (\<lambda>(name, v) u. fail_if (v = []) (''function.package.'' @ name) ''must not be empty'')
       [(''artifact'', artifact), (''runtime'', runtime), (''handler'', handler)] ()"
| "check_package (Image img) = fail_if (img = []) ''function.package.image'' ''must not be empty''"

definition check_function :: "function_workload \<Rightarrow> workload_error + unit" where
  "check_function f =
     rbind (check_package (fn_package f)) (\<lambda>_.
     rbind (fail_if (\<not> is_quantity (fn_memory f)) ''function.memory''
       (''`'' @ fn_memory f @ ''` is not a quantity such as `256Mi`'')) (\<lambda>_.
     fail_if (\<not> is_duration (fn_timeout f)) ''function.timeout''
       (''`'' @ fn_timeout f @ ''` is not a duration such as `30s`'')))"

definition check_resource :: "string \<times> resource_request \<Rightarrow> unit \<Rightarrow> workload_error + unit" where
  "check_resource = (\<lambda>(key, r) u.
     rbind (case rs_id r of
              None \<Rightarrow> Ok ()
            | Some i \<Rightarrow> fail_if (\<not> is_valid_object_id i) (''resources.'' @ key @ ''.id'') OBJECT_ID_RULE) (\<lambda>_.
     case rs_params r of
       None \<Rightarrow> Ok ()
     | Some params \<Rightarrow> reject_placeholders params (''resources.'' @ key @ ''.params'')))"

definition check_http :: "workload \<Rightarrow> string \<Rightarrow> http_trigger \<Rightarrow> workload_error + unit" where
  "check_http w path h =
     (case ht_port h of
        None \<Rightarrow> Ok ()
      | Some port \<Rightarrow>
          rbind (fail_if (wl_function w \<noteq> None) (path @ ''.port'') ''functions have no ports'') (\<lambda>_.
          fail_if (case wl_service w of None \<Rightarrow> True | Some s \<Rightarrow> map_of (sv_ports s) port = None)
            (path @ ''.port'') (''`'' @ port @ ''` is not a service port'')))"

definition check_trigger :: "workload \<Rightarrow> string \<times> trigger \<Rightarrow> unit \<Rightarrow> workload_error + unit" where
  "check_trigger w = (\<lambda>(name, t) u.
     let path = ''triggers.'' @ name @ ''.'' @ Trigger_kind t in
     rbind (case Trigger_resource t of
              None \<Rightarrow> Ok ()
            | Some res \<Rightarrow> fail_if (map_of (wl_resources w) res = None) (path @ ''.resource'')
                (''resource `'' @ res @ ''` is not declared under `resources`'')) (\<lambda>_.
     case t of
       Schedule s \<Rightarrow> fail_if (\<not> is_cron (st_cron s)) (path @ ''.cron'')
         (''`'' @ st_cron s @ ''` is not a 5-field cron expression'')
     | Http h \<Rightarrow> check_http w path h
     | _ \<Rightarrow> Ok ()))"

definition check_deploy :: "workload \<Rightarrow> workload_error + unit" where
  "check_deploy w =
     (case Option.bind (wl_deploy w) dp_timeout of
        None \<Rightarrow> Ok ()
      | Some t \<Rightarrow> fail_if (\<not> is_duration t) ''deploy.timeout'' (''`'' @ t @ ''` is not a duration such as `5m`''))"

definition validate :: "workload \<Rightarrow> workload_error + unit" where
  "validate w =
     rbind (check_shape w) (\<lambda>_.
     rbind (try_fold check_container (case_option [] id (wl_containers w)) ()) (\<lambda>_.
     rbind (fail_if (wl_service w \<noteq> None \<and> wl_function w \<noteq> None) ''service''
       ''`service` applies to container workloads only'') (\<lambda>_.
     rbind (case_option (Ok ()) check_function (wl_function w)) (\<lambda>_.
     rbind (try_fold check_resource (wl_resources w) ()) (\<lambda>_.
     rbind (try_fold (check_trigger w) (wl_triggers w) ()) (\<lambda>_.
     rbind (check_deploy w) (\<lambda>_.
     check_placeholders (fst (set_aside (workload_value w) (no_expand_pointers w []))) [])))))))"

section \<open>Reading documents\<close>

record 'y yaml_lib =
  yl_from_str :: "string \<Rightarrow> string + 'y"
  yl_get :: "'y \<Rightarrow> string \<Rightarrow> 'y option"
  yl_as_str :: "'y \<Rightarrow> string option"
  yl_to_value :: "'y \<Rightarrow> string + json"

text \<open>Deserialization with the path of the first error.\<close>

record decoders =
  dc_workload :: "json \<Rightarrow> (string \<times> string) + workload"
  dc_score :: "json \<Rightarrow> (string \<times> string) + score_workload"
  dc_overlay :: "json \<Rightarrow> (string \<times> string) + workload_overlay"

definition parse_yaml ::
  "'y yaml_lib \<Rightarrow> (json \<Rightarrow> (string \<times> string) + 'a) \<Rightarrow> 'y \<Rightarrow> workload_error + 'a" where
  "parse_yaml yl decode v =
     rbind (map_err (WorkloadError_new ''.'') (yl_to_value yl v)) (\<lambda>j.
     map_err (\<lambda>(path, message). WorkloadError_new path message) (decode j))"

definition yaml_str :: "'y yaml_lib \<Rightarrow> 'y \<Rightarrow> string \<Rightarrow> string option" where
  "yaml_str yl v key = Option.bind (yl_get yl v key) (yl_as_str yl)"

definition WorkloadOverlay_parse ::
  "'y yaml_lib \<Rightarrow> decoders \<Rightarrow> string \<Rightarrow> workload_error + workload_overlay" where
  "WorkloadOverlay_parse yl dc document =
     rbind (map_err (WorkloadError_new ''overlay'') (yl_from_str yl document)) (\<lambda>v.
     rbind (map_err (\<lambda>e. WorkloadError_new (''overlay '' @ we_path e) (we_message e))
       (parse_yaml yl (dc_overlay dc) v)) (\<lambda>ov.
     if ov_api_version ov \<noteq> API_VERSION \<or> ov_kind ov \<noteq> ''WorkloadOverlay''
     then Err (WorkloadError_new ''overlay'' (''expected `apiVersion: '' @ API_VERSION @
       ''` and `kind: WorkloadOverlay`''))
     else Ok ov))"

definition from_score :: "score_workload \<Rightarrow> workload_overlay option \<Rightarrow> workload" where
  "from_score score overlay =
     (let overlay = case_option default_overlay id overlay in
      \<lparr>wl_api_version = API_VERSION, wl_kind = ''Workload'',
       wl_metadata = \<lparr>md_name = sc_name (sw_metadata score),
         md_class = Option.bind (ov_metadata overlay) om_class,
         md_annotations = sc_annotations (sw_metadata score)\<rparr>,
       wl_containers = Some (sw_containers score), wl_function = None, wl_service = sw_service score,
       wl_triggers = ov_triggers overlay, wl_resources = sw_resources score,
       wl_deploy = ov_deploy overlay, wl_target = ov_target overlay\<rparr>)"

definition parse_document ::
  "'y yaml_lib \<Rightarrow> decoders \<Rightarrow> 'y \<Rightarrow> string option \<Rightarrow> workload_error + workload" where
  "parse_document yl dc v overlay =
     (case yaml_str yl v ''apiVersion'' of
        None \<Rightarrow> Err (WorkloadError_new ''apiVersion'' ''missing'')
      | Some ver \<Rightarrow>
          if ver = API_VERSION then
            rbind (fail_if (overlay \<noteq> None) ''.'' ''overlays apply only to Score files'') (\<lambda>_.
            rbind (parse_yaml yl (dc_workload dc) v) (\<lambda>w.
            if wl_kind w \<noteq> ''Workload'' then Err (WorkloadError_new ''kind'' ''expected `Workload`'')
            else Ok w))
          else if ver = SCORE_API_VERSION then
            rbind (parse_yaml yl (dc_score dc) v) (\<lambda>score.
            rbind (case overlay of
                     None \<Rightarrow> Ok None
                   | Some text \<Rightarrow> rbind (WorkloadOverlay_parse yl dc text) (\<lambda>ov. Ok (Some ov))) (\<lambda>overlay.
            Ok (from_score score overlay)))
          else Err (WorkloadError_new ''apiVersion'' (''unsupported `'' @ ver @ ''`; expected `'' @
            API_VERSION @ ''` or `'' @ SCORE_API_VERSION @ ''`'')))"

definition Workload_parse ::
  "'y yaml_lib \<Rightarrow> decoders \<Rightarrow> string \<Rightarrow> string option \<Rightarrow> workload_error + workload" where
  "Workload_parse yl dc document overlay =
     rbind (map_err (WorkloadError_new ''.'') (yl_from_str yl document)) (\<lambda>v.
     rbind (parse_document yl dc v overlay) (\<lambda>w.
     rbind (validate w) (\<lambda>_. Ok w)))"

section \<open>Conversion into a module\<close>

definition Workload_class :: "workload \<Rightarrow> string" where
  "Workload_class w = case_option default_class id (md_class (wl_metadata w))"

fun is_http :: "trigger \<Rightarrow> bool" where
  "is_http (Http _) = True"
| "is_http _ = False"

definition first_port :: "workload \<Rightarrow> string option" where
  "first_port w = (case Option.bind (wl_service w) (\<lambda>s. List.find (\<lambda>_. True) (sv_ports s)) of
     None \<Rightarrow> None | Some (name, _) \<Rightarrow> Some name)"

definition effective_triggers :: "workload \<Rightarrow> trigger index_map" where
  "effective_triggers w =
     (let triggers = wl_triggers w; has_http = list_ex (\<lambda>(_, t). is_http t) triggers in
      case first_port w of
        None \<Rightarrow> triggers
      | Some name \<Rightarrow>
          if \<not> has_http \<and> wl_containers w \<noteq> None \<and> map_of triggers name = None
          then triggers @ [(name, Http (default_http_trigger\<lparr>ht_port := Some name\<rparr>))]
          else triggers)"

definition is_secret_sink :: "string \<Rightarrow> bool" where
  "is_secret_sink pointer =
     (case split_on (CHR ''/'') (dropWhile (\<lambda>c. c = CHR ''/'') pointer) of
        [a, _, b, _] \<Rightarrow> a = ''containers'' \<and> b = ''variables''
      | [a, _, b, _, c] \<Rightarrow> a = ''containers'' \<and> b = ''files'' \<and> c = ''content''
      | [a, b, _] \<Rightarrow> a = ''function'' \<and> b = ''variables''
      | _ \<Rightarrow> False)"

definition segment_text :: "string \<Rightarrow> string" where
  "segment_text name =
     (if list_all (\<lambda>c. is_ascii_alphanumeric c \<or> c = CHR ''-'' \<or> c = CHR ''_'') name
      then segment_string (SName name) else segment_string (SQuoted name))"

definition reference_of :: "raw_placeholder \<Rightarrow> string + (string \<times> string \<times> segment list)" where
  "reference_of p =
     (let expected = ''`'' @ rp_text p @ ''`: expected `resources.<key>.<output>`'' in
      case rp_segments p of
        _ # key # out # rest \<Rightarrow>
          rbind (ok_or expected (segment_key key)) (\<lambda>key.
          rbind (ok_or expected (segment_key out)) (\<lambda>out. Ok (key, out, rest)))
      | _ \<Rightarrow> Err expected)"

definition output_kind_at ::
  "raw_placeholder \<Rightarrow> resource_request \<Rightarrow> resource_type list \<Rightarrow> string \<Rightarrow> string + output_kind" where
  "output_kind_at p r types out =
     rbind (ok_or (''`'' @ rp_text p @ ''`: unknown resource type `'' @ rs_ty r @ ''`'')
       (find (\<lambda>t. rt_id t = rs_ty r) types)) (\<lambda>ty.
     case output_kind_of ty out of
       Some k \<Rightarrow> Ok k
     | None \<Rightarrow>
         if has_open_outputs ty then Ok OValue
         else Err (''`'' @ rp_text p @ ''`: resource type `'' @ rs_ty r @ ''` has no output `'' @ out @ ''`''))"

definition translated_text :: "resource_request \<Rightarrow> string \<Rightarrow> string \<Rightarrow> segment list \<Rightarrow> string" where
  "translated_text r key out rest =
     (let head = (case rs_id r of Some i \<Rightarrow> ''shared'' @ segment_text i | None \<Rightarrow> ''externals'' @ segment_text key) in
      ''${'' @ head @ segment_text out @ concat (map segment_string rest) @ ''}'')"

definition translate_resource_placeholder ::
  "raw_placeholder \<Rightarrow> resource_request index_map \<Rightarrow> resource_type list \<Rightarrow> string + (string \<times> bool)" where
  "translate_resource_placeholder p resources types =
     rbind (reference_of p) (\<lambda>(key, out, rest).
     rbind (ok_or (''`'' @ rp_text p @ ''`: resource `'' @ key @ ''` is not declared under `resources`'')
       (map_of resources key)) (\<lambda>r.
     rbind (output_kind_at p r types out) (\<lambda>kind.
     if kind = OSecret \<and> rest \<noteq> []
     then Err (''`'' @ rp_text p @ ''`: secret output `'' @ out @ ''` has no fields'')
     else Ok (translated_text r key out rest, kind = OSecret))))"

definition translate_part ::
  "resource_request index_map \<Rightarrow> resource_type list \<Rightarrow> part \<Rightarrow> string \<times> string option \<Rightarrow>
   string + (string \<times> string option)" where
  "translate_part resources types part = (\<lambda>(out, secret).
     case part of
       Literal l \<Rightarrow> Ok (out @ replace_str ''${'' [CHR ''$'', CHR 0x5C, CHR ''{''] l, secret)
     | Placeholder p \<Rightarrow>
         if rp_root p = ''resources'' then
           rbind (translate_resource_placeholder p resources types) (\<lambda>(text, is_secret).
             Ok (out @ text, if is_secret \<and> secret = None then Some (rp_text p) else secret))
         else Ok (out @ rp_text p, secret))"

definition translate_string ::
  "string \<Rightarrow> string \<Rightarrow> resource_request index_map \<Rightarrow> resource_type list \<Rightarrow> string list \<Rightarrow>
   workload_error + (string \<times> string list)" where
  "translate_string s pointer resources types secret_paths =
     (let path = replace_str ''/'' ''.'' (dropWhile (\<lambda>c. c = CHR ''/'') pointer) in
      rbind (parse_at path s) (\<lambda>t.
      if Template_is_literal t then Ok (s, secret_paths)
      else
        rbind (map_err (WorkloadError_new path) (try_fold (translate_part resources types) t ([], None)))
          (\<lambda>(out, secret).
        case secret of
          None \<Rightarrow> Ok (out, secret_paths)
        | Some placeholder \<Rightarrow>
            rbind (fail_if (\<not> is_secret_sink pointer) path (''`'' @ placeholder @
              ''` is a secret output; secrets can only be used in variables and file content'')) (\<lambda>_.
            Ok (out, secret_paths @ [pointer])))))"

fun translate ::
  "resource_request index_map \<Rightarrow> resource_type list \<Rightarrow> json \<Rightarrow> string \<Rightarrow> string list \<Rightarrow>
   workload_error + (json \<times> string list)" where
  "translate resources types (JStr s) pointer paths =
     rbind (translate_string s pointer resources types paths) (\<lambda>(s, paths). Ok (JStr s, paths))"
| "translate resources types (JArr items) pointer paths =
     rbind (try_fold (\<lambda>(i, item) (done, paths).
         rbind (translate resources types item (pointer @ ''/'' @ dec i) paths) (\<lambda>(v, paths).
           Ok (done @ [v], paths))) (enumerate 0 items) ([], paths))
       (\<lambda>(items, paths). Ok (JArr items, paths))"
| "translate resources types (JObj es) pointer paths =
     rbind (try_fold (\<lambda>(k, item) (done, paths).
         rbind (translate resources types item (pointer @ ''/'' @ escape_pointer k) paths) (\<lambda>(v, paths).
           Ok (done @ [(k, v)], paths))) es ([], paths))
       (\<lambda>(es, paths). Ok (JObj es, paths))"
| "translate resources types v pointer paths = Ok (v, paths)"

record converted_workload =
  cw_id :: string
  cw_module :: module
  cw_secret_paths :: "string list"

datatype workload_fault = Invalid workload_error | Panicked string

definition external_of :: "resource_request \<Rightarrow> external" where
  "external_of r = \<lparr>ex_ty = rs_ty r, ex_class = case_option default_class id (rs_class r), ex_id = rs_id r,
     ex_params = (case rs_params r of None \<Rightarrow> None | Some p \<Rightarrow> if is_null p then None else Some p)\<rparr>"

definition module_externals :: "workload \<Rightarrow> (string, external) btree_map" where
  "module_externals w = fold (\<lambda>(key, r). bt_insert key (external_of r)) (wl_resources w) []"

definition deploy_spec :: "deploy option \<Rightarrow> json" where
  "deploy_spec d =
     (let deploy = case_option \<lparr>dp_status = None, dp_timeout = None\<rparr> id d in
      JObj [(''status'', deploy_status_value (case_option StatusAvailable id (dp_status deploy))),
            (''timeout'', JStr (case_option ''5m'' id (dp_timeout deploy)))])"

definition module_spec :: "workload \<Rightarrow> json_map" where
  "module_spec w =
     opt_field ''containers'' (map_value container_value) (wl_containers w) @
     opt_field ''function'' function_value (wl_function w) @
     opt_field ''service'' service_value (wl_service w) @
     some_field ''triggers'' (map_value trigger_value) (effective_triggers w) @
     [(''deploy'', deploy_spec (wl_deploy w))] @
     opt_field ''target'' JObj (wl_target w) @
     some_field ''annotations'' (map_value JStr) (md_annotations (wl_metadata w))"

definition put_back :: "string \<times> json \<Rightarrow> json \<Rightarrow> workload_fault + json" where
  "put_back = (\<lambda>(pointer, content) spec.
     if pointer_get pointer spec = None then Err (Panicked ''set-aside content exists'')
     else Ok (pointer_put pointer content spec))"

definition to_module :: "workload \<Rightarrow> resource_type list \<Rightarrow> workload_fault + converted_workload" where
  "to_module w types =
     (let (spec, kept) = set_aside (JObj (module_spec w)) (no_expand_pointers w []) in
      rbind (map_err Invalid (translate (wl_resources w) types spec [] [])) (\<lambda>(spec, secret_paths).
      rbind (try_fold put_back kept spec) (\<lambda>spec.
      case spec of
        JObj spec \<Rightarrow>
          Ok \<lparr>cw_id = md_name (wl_metadata w),
             cw_module = \<lparr>mo_class = Workload_class w, mo_spec = spec, mo_externals = module_externals w\<rparr>,
             cw_secret_paths = secret_paths\<rparr>
      | _ \<Rightarrow> Err (Panicked ''internal error: entered unreachable code''))))"

end
