(* ===== verification/Template_Correct.thy ===== *)
theory Template_Correct
  imports Template
begin

text \<open>
  What parsing and printing of placeholders do to each other. Literal text is printed with \<open>${\<close>
  escaped, and a placeholder as it was written; parsing the printed template gives the same parts.
  Printed paths parse back to their segments, and references to resources keep their well-formedness
  through parsing, printing and resolution.
\<close>

section \<open>Characters of a concatenation\<close>

lemma takeWhile_stop:
  "list_all P xs \<Longrightarrow> ys = [] \<or> \<not> P (hd ys) \<Longrightarrow> takeWhile P (xs @ ys) = xs"
  "list_all P xs \<Longrightarrow> ys = [] \<or> \<not> P (hd ys) \<Longrightarrow> dropWhile P (xs @ ys) = ys"
  by (induction xs; cases ys; simp)+

lemma list_all_tl: "list_all P xs \<Longrightarrow> list_all P (tl xs)"
  by (cases xs) simp_all

lemma utf8_chars_append:
  "\<not> is_cont c \<Longrightarrow> utf8_chars (a @ c # b) = utf8_chars a @ utf8_chars (c # b)"
proof (induction a rule: utf8_chars.induct)
  case (2 x xs)
  have t: "takeWhile is_cont (xs @ c # b) = takeWhile is_cont xs"
    using 2(2) by (induction xs) simp_all
  have d: "dropWhile is_cont (xs @ c # b) = dropWhile is_cont xs @ c # b"
    using 2(2) by (induction xs) simp_all
  show ?case using 2(1) [OF 2(2)] by (simp only: append_Cons utf8_chars.simps t d)
qed simp

lemma valid_char_shape:
  assumes "valid_char g"
  obtains x xs where "g = x # xs" "\<not> is_cont x" "list_all is_cont xs" "byte x < 128 \<longrightarrow> xs = []"
proof -
  from assms obtain x xs where g: "g = x # xs" by (cases g) (auto simp: valid_char_def)
  from assms have "list_all is_cont xs" "\<not> is_cont x" "byte x < 128 \<longrightarrow> xs = []"
    unfolding g by (auto simp: valid_char_def Let_def is_cont_def)
  with g that show thesis by blast
qed

lemma utf8_chars_valid:
  assumes "valid_char g" "s = [] \<or> \<not> is_cont (hd s)"
  shows "utf8_chars (g @ s) = g # utf8_chars s"
proof -
  obtain x xs where g: "g = x # xs" "list_all is_cont xs" by (rule valid_char_shape [OF assms(1)])
  show ?thesis unfolding g(1) append_Cons utf8_chars.simps takeWhile_stop [OF g(2) assms(2)] ..
qed

lemma hd_concat_valid: "list_all valid_char cs \<Longrightarrow> concat cs = [] \<or> \<not> is_cont (hd (concat cs))"
  by (cases cs) (auto elim: valid_char_shape)

lemma utf8_chars_concat: "list_all valid_char cs \<Longrightarrow> utf8_chars (concat cs) = cs"
proof (induction cs)
  case (Cons c cs)
  with utf8_chars_valid [of c "concat cs"] hd_concat_valid [of cs] show ?case by simp
qed simp

lemma is_utf8_concat: "list_all valid_char cs \<Longrightarrow> is_utf8 (concat cs)"
  by (simp add: is_utf8_def utf8_chars_concat)

text \<open>An ASCII byte of a well-formed string is a character of its own.\<close>

lemma ascii_char:
  assumes "is_utf8 s" "c \<in> set s" "byte c < 128"
  shows "[c] \<in> set (utf8_chars s)"
proof -
  from assms(2) have "c \<in> set (concat (utf8_chars s))" by simp
  then obtain g where g: "g \<in> set (utf8_chars s)" "c \<in> set g" unfolding set_concat by blast
  with assms(1) have "valid_char g" by (auto simp: is_utf8_def list_all_iff)
  then obtain x xs where x: "g = x # xs" "list_all is_cont xs" "byte x < 128 \<longrightarrow> xs = []"
    by (rule valid_char_shape)
  have "c = x" using g(2) x(1,2) assms(3) by (auto simp: list_all_iff is_cont_def)
  with x(1,3) assms(3) g show ?thesis by simp
qed

lemma is_utf8_ascii_Cons:
  assumes "byte c < 128" shows "is_utf8 (c # s) \<longleftrightarrow> is_utf8 s \<and> (s = [] \<or> \<not> is_cont (hd s))"
proof
  assume "is_utf8 (c # s)"
  then have v: "valid_char (c # takeWhile is_cont s)" "list_all valid_char (utf8_chars (dropWhile is_cont s))"
    by (simp_all add: is_utf8_def)
  have "takeWhile is_cont s = []" using valid_char_shape [OF v(1)] assms by (metis list.inject)
  with v(2) show "is_utf8 s \<and> (s = [] \<or> \<not> is_cont (hd s))"
    by (cases s) (auto simp: is_utf8_def split: if_splits)
next
  assume s: "is_utf8 s \<and> (s = [] \<or> \<not> is_cont (hd s))"
  moreover have "valid_char [c]" using assms by (simp add: valid_char_def)
  ultimately show "is_utf8 (c # s)"
    using utf8_chars_valid [of "[c]" s] by (simp add: is_utf8_def)
qed

lemma is_utf8_hd: "is_utf8 s \<Longrightarrow> s = [] \<or> \<not> is_cont (hd s)"
  using hd_concat_valid [of "utf8_chars s"] by (simp add: is_utf8_def)

lemma is_utf8_append:
  "\<not> is_cont c \<Longrightarrow> is_utf8 (a @ c # b) \<longleftrightarrow> is_utf8 a \<and> is_utf8 (c # b)"
  by (simp add: is_utf8_def utf8_chars_append)

lemma not_cont_ascii: "byte c < 128 \<Longrightarrow> \<not> is_cont c"
  by (simp add: is_cont_def)

lemma utf8_chars_ascii_Cons:
  "byte c < 128 \<Longrightarrow> s = [] \<or> \<not> is_cont (hd s) \<Longrightarrow> utf8_chars (c # s) = [c] # utf8_chars s"
  by (cases s) auto

section \<open>Printed paths\<close>

text \<open>The segments that parsing gives, and those that printing keeps apart from the text around them.\<close>

fun parsed_segment :: "segment \<Rightarrow> bool" where
  "parsed_segment (SName n) \<longleftrightarrow> n \<noteq> [] \<and> is_utf8 n \<and> list_all is_name_char (utf8_chars n)"
| "parsed_segment (SQuoted q) \<longleftrightarrow> is_utf8 q \<and> '']'' \<notin> set (utf8_chars q)"
| "parsed_segment (SIndex i) \<longleftrightarrow> i < 2 ^ 64"

fun plain_segment :: "segment \<Rightarrow> bool" where
  "plain_segment (SName n) \<longleftrightarrow> CHR ''}'' \<notin> set n"
| "plain_segment (SQuoted q) \<longleftrightarrow> CHR 0x27 \<notin> set q"
| "plain_segment (SIndex _) \<longleftrightarrow> True"

fun segment_chars :: "segment \<Rightarrow> string list" where
  "segment_chars (SName n) = ''.'' # utf8_chars n"
| "segment_chars (SQuoted q) = ''['' # [CHR 0x27] # utf8_chars q @ [[CHR 0x27], '']'']"
| "segment_chars (SIndex i) = ''['' # map (\<lambda>c. [c]) (dec i) @ ['']'']"

lemma valid_ascii_char: "byte c < 128 \<Longrightarrow> valid_char [c]"
  by (simp add: valid_char_def)

lemma valid_segment_chars: "parsed_segment s \<Longrightarrow> list_all valid_char (segment_chars s)"
proof (cases s)
  case (SIndex i)
  have "byte c < 128" if "c \<in> set (dec i)" for c
    using dec_digits [OF that] by (simp add: is_ascii_digit_def)
  then show ?thesis unfolding SIndex by (auto simp: list_all_iff valid_ascii_char)
qed (auto simp: is_utf8_def valid_ascii_char)

lemma concat_segment_chars: "concat (segment_chars s) = segment_string s"
  by (cases s) (simp_all add: concat_map_singleton)

lemma utf8_chars_path:
  "list_all parsed_segment segs \<Longrightarrow>
     utf8_chars (concat (map segment_string segs)) = concat (map segment_chars segs)"
proof -
  assume "list_all parsed_segment segs"
  then have v: "list_all valid_char (concat (map segment_chars segs))"
    using valid_segment_chars by (fastforce simp: list_all_iff)
  have "concat (map segment_string segs) = concat (concat (map segment_chars segs))"
    by (induction segs) (simp_all add: concat_segment_chars)
  with utf8_chars_concat [OF v] show ?thesis by simp
qed

lemma name_char_ends: "\<not> is_name_char ''.''" "\<not> is_name_char ''[''"
  by (simp_all add: is_name_char_def)

lemma path_loop_segment:
  assumes "parsed_segment s" "acc \<noteq> []" "rest = [] \<or> hd rest = ''.'' \<or> hd rest = ''[''"
  shows "path_loop (segment_chars s @ rest) acc = path_loop rest (acc @ [s])"
proof (cases s)
  case (SName n)
  have n: "utf8_chars n \<noteq> []" "list_all is_name_char (utf8_chars n)" using assms(1) SName by auto
  have "rest = [] \<or> \<not> is_name_char (hd rest)" using assms(3) name_char_ends by auto
  note stop = takeWhile_stop [OF n(2) this]
  show ?thesis unfolding SName segment_chars.simps append_Cons path_loop.simps stop using n(1) assms(2)
    by simp
next
  case (SQuoted q)
  have "'']'' \<notin> set ([CHR 0x27] # utf8_chars q @ [[CHR 0x27]])" using assms(1) SQuoted by simp
  then have "takeWhile (\<lambda>x. x \<noteq> '']'') (([CHR 0x27] # utf8_chars q @ [[CHR 0x27]]) @ '']'' # rest) = [CHR 0x27] # utf8_chars q @ [[CHR 0x27]]"
    "dropWhile (\<lambda>x. x \<noteq> '']'') (([CHR 0x27] # utf8_chars q @ [[CHR 0x27]]) @ '']'' # rest) = '']'' # rest"
    by (intro takeWhile_stop; auto simp: list_all_iff)+
  moreover have "bracket_segment (concat ([CHR 0x27] # utf8_chars q @ [[CHR 0x27]])) = Ok (SQuoted q)"
  proof -
    have "unquote (CHR 0x27) (CHR 0x27 # q @ [CHR 0x27]) = Some q"
      by (simp add: unquote_def strip_prefix_def)
    then show ?thesis by (simp add: bracket_segment_def)
  qed
  ultimately show ?thesis unfolding SQuoted by (simp add: Let_def)
next
  case (SIndex i)
  have digits: "is_ascii_digit c" if "c \<in> set (dec i)" for c using that by (rule dec_digits)
  have "'']'' \<notin> set (map (\<lambda>c. [c]) (dec i))" using digits by (force simp: is_ascii_digit_def)
  then have "takeWhile (\<lambda>x. x \<noteq> '']'') (map (\<lambda>c. [c]) (dec i) @ '']'' # rest) = map (\<lambda>c. [c]) (dec i)"
    "dropWhile (\<lambda>x. x \<noteq> '']'') (map (\<lambda>c. [c]) (dec i) @ '']'' # rest) = '']'' # rest"
    by (intro takeWhile_stop; auto simp: list_all_iff)+
  moreover have "bracket_segment (dec i) = Ok (SIndex i)"
  proof -
    have "hd (dec i) \<noteq> CHR 0x27" "hd (dec i) \<noteq> CHR 0x22"
      using digits [OF hd_in_set [OF dec_nonempty]] by (auto simp: is_ascii_digit_def)
    then have "unquote (CHR 0x27) (dec i) = None" "unquote (CHR 0x22) (dec i) = None"
      by (cases "dec i"; simp add: unquote_def strip_prefix_def)+
    moreover have "parse_usize (dec i) = Some i" using assms(1) SIndex by (simp add: parse_usize_dec)
    ultimately show ?thesis by (simp add: bracket_segment_def)
  qed
  ultimately show ?thesis unfolding SIndex by (simp add: Let_def concat_map_singleton)
qed

lemma path_loop_print:
  "list_all parsed_segment segs \<Longrightarrow> acc \<noteq> [] \<Longrightarrow>
     path_loop (concat (map segment_chars segs)) acc = Ok (acc @ segs)"
proof (induction segs arbitrary: acc)
  case (Cons s segs)
  let ?rest = "concat (map segment_chars segs)"
  have "?rest = [] \<or> hd ?rest = ''.'' \<or> hd ?rest = ''[''"
    by (cases segs) (simp, cases "hd segs", auto)
  with path_loop_segment [of s acc ?rest] Cons show ?case by simp
qed simp

text \<open>A root name followed by printed segments is a path with these segments.\<close>

lemma parse_path_print:
  assumes "parsed_segment (SName root)" "list_all parsed_segment segs"
  shows "parse_path (root @ concat (map segment_string segs)) = Ok (SName root # segs)"
proof -
  let ?rest = "concat (map segment_chars segs)"
  have r: "?rest = [] \<or> hd ?rest = ''.'' \<or> hd ?rest = ''[''"
    by (cases segs) (simp, cases "hd segs", auto)
  have v: "list_all valid_char (utf8_chars root @ ?rest)"
    using assms valid_segment_chars by (auto simp: list_all_iff is_utf8_def)
  have "root @ concat (map segment_string segs) = concat (utf8_chars root @ ?rest)"
    by (induction segs) (simp_all add: concat_segment_chars [symmetric])
  then have chars: "utf8_chars (root @ concat (map segment_string segs)) = utf8_chars root @ ?rest"
    using utf8_chars_concat [OF v] by simp
  obtain c cs where c: "utf8_chars root = c # cs" using assms(1) by (cases "utf8_chars root") auto
  then have n: "is_name_char c" "list_all is_name_char cs" and root: "root = concat (c # cs)"
    using assms(1) concat_utf8_chars [of root] by auto
  have "?rest = [] \<or> \<not> is_name_char (hd ?rest)" using r name_char_ends by auto
  note takeWhile_stop [OF n(2) this]
  moreover have "c \<noteq> ''[''" "c \<noteq> ''.''" using n(1) name_char_ends by auto
  ultimately have "path_loop (c # cs @ ?rest) [] = path_loop ?rest [SName root]"
    using n(1) root by simp
  with path_loop_print [OF assms(2), of "[SName root]"] chars c show ?thesis
    by (simp add: parse_path_def Let_def)
qed

text \<open>Parsing gives only segments of this kind.\<close>

lemma bracket_segment_parsed:
  assumes "bracket_segment (concat cs) = Ok s" "list_all valid_char cs" "'']'' \<notin> set cs"
  shows "parsed_segment s"
proof -
  have quoted: "parsed_segment (SQuoted q)" if "unquote c (concat cs) = Some q" "byte c < 128" for c q
  proof -
    from that(1) have eq: "concat cs = c # q @ [c]"
      by (auto simp: unquote_def strip_prefix_def prefix_def bind_eq_Some_conv split: if_splits)
    have u: "is_utf8 (c # q @ [c])" using is_utf8_concat [OF assms(2)] eq by simp
    then have q: "is_utf8 (q @ [c])" and h: "\<not> is_cont (hd (q @ [c]))"
      using is_utf8_ascii_Cons [OF that(2)] by auto
    then have "is_utf8 q" using is_utf8_append [OF not_cont_ascii [OF that(2)], of q "[]"] by simp
    moreover have "utf8_chars (c # q @ [c]) = [c] # utf8_chars q @ [[c]]"
      using utf8_chars_ascii_Cons [OF that(2), of "q @ [c]"] h
        utf8_chars_append [OF not_cont_ascii [OF that(2)], of q "[]"] by simp
    then have "set (utf8_chars q) \<subseteq> set cs" using utf8_chars_concat [OF assms(2)] eq by auto
    ultimately show ?thesis using assms(3) by auto
  qed
  show ?thesis using assms(1) quoted
    by (auto simp: bracket_segment_def parse_usize_def Let_def split: option.splits if_splits)
qed

lemma path_loop_parsed:
  "path_loop cs acc = Ok segs \<Longrightarrow> list_all valid_char cs \<Longrightarrow> list_all parsed_segment acc \<Longrightarrow>
     list_all parsed_segment segs"
proof (induction cs acc rule: path_loop.induct)
  case (2 c cs acc)
  have cs: "list_all valid_char cs" "valid_char c" using 2(5) by simp_all
  have sub: "list_all valid_char (takeWhile P cs)" "list_all valid_char (dropWhile P cs)" for P
    using cs(1) by (auto simp: list_all_iff dest: set_takeWhileD set_dropWhileD)
  have name: "parsed_segment (SName (concat ds))" if ne: "ds \<noteq> []" and v: "list_all valid_char ds" and nc: "list_all is_name_char ds" for ds
  proof -
    obtain d es where ds: "ds = d # es" using ne by (cases ds) auto
    then have "valid_char d" using v by simp
    then have "concat ds \<noteq> []" unfolding ds by (rule valid_char_shape) simp
    with nc is_utf8_concat [OF v] utf8_chars_concat [OF v] show ?thesis by simp
  qed
  have taken: "list_all P (takeWhile P cs)" for P by (auto simp: list_all_iff dest: set_takeWhileD)
  consider (bracket) "c = ''[''" | (dot) "c \<noteq> ''[''" "c = ''.'' \<and> acc \<noteq> []"
    | (root) "c \<noteq> ''[''" "\<not> (c = ''.'' \<and> acc \<noteq> [])" by blast
  then show ?case
  proof cases
    case bracket
    let ?in = "takeWhile (\<lambda>x. x \<noteq> '']'') cs" and ?rest = "dropWhile (\<lambda>x. x \<noteq> '']'') cs"
    from 2(4) bracket obtain s where s: "?rest \<noteq> []" "bracket_segment (concat ?in) = Ok s"
      "path_loop (tl ?rest) (acc @ [s]) = Ok segs" by (auto simp: Let_def rbind_eq_Inr split: if_splits)
    have "'']'' \<notin> set ?in" by (auto dest: set_takeWhileD)
    with s(2) sub(1) have "parsed_segment s" by (rule bracket_segment_parsed)
    then have acc: "list_all parsed_segment (acc @ [s])" using 2(6) by simp
    have "list_all valid_char (tl ?rest)" using sub(2) by (rule list_all_tl)
    with 2(1) [OF bracket refl refl s(1,2,3)] acc show ?thesis by blast
  next
    case dot
    let ?name = "takeWhile is_name_char cs"
    have n: "?name \<noteq> []" "path_loop (dropWhile is_name_char cs) (acc @ [SName (concat ?name)]) = Ok segs"
      using 2(4) dot by (simp_all add: Let_def split: if_splits)
    have "list_all parsed_segment (acc @ [SName (concat ?name)])"
      using name [OF n(1) sub(1) taken] 2(6) by (simp only: list_all_append list.pred_inject simp_thms)
    with 2(2) [OF dot refl n(1,2) sub(2)] show ?thesis by blast
  next
    case root
    let ?name = "c # takeWhile is_name_char cs"
    have n: "acc = [] \<and> is_name_char c" "path_loop (dropWhile is_name_char cs) (acc @ [SName (concat ?name)]) = Ok segs"
      using 2(4) root by (simp_all add: Let_def split: if_splits)
    have "list_all is_name_char ?name" "list_all valid_char ?name" using taken n(1) sub(1) cs(2) by simp_all
    then have "list_all parsed_segment (acc @ [SName (concat ?name)])"
      using name [of ?name] 2(6) by (simp only: list_all_append list.pred_inject simp_thms list.distinct)
    with 2(3) [OF root n(1,2) sub(2)] show ?thesis by blast
  qed
qed simp

lemma parse_path_parsed: "parse_path body = Ok segs \<Longrightarrow> is_utf8 body \<Longrightarrow> list_all parsed_segment segs"
  unfolding parse_path_def Let_def is_utf8_def
  by (rule path_loop_parsed [of "utf8_chars body" "[]"]) (auto split: if_splits)

section \<open>Where a placeholder ends\<close>

lemma find_end_skip:
  "set s \<inter> {CHR 0x27, CHR 0x22, CHR ''}''} = {} \<Longrightarrow> find_end None i (s @ r) = find_end None (i + length s) r"
  by (induction s arbitrary: i) auto

lemma find_end_quoted:
  "q \<notin> set s \<Longrightarrow> find_end (Some q) i (s @ q # r) = find_end None (i + length s + 1) r"
  by (induction s arbitrary: i) auto

lemma parsed_name_plain:
  "parsed_segment (SName n) \<Longrightarrow> CHR ''}'' \<notin> set n \<Longrightarrow> set n \<inter> {CHR 0x27, CHR 0x22, CHR ''}''} = {}"
  using ascii_char [of n "CHR 0x27"] ascii_char [of n "CHR 0x22"]
  by (auto simp: list_all_iff is_name_char_def)

lemma find_end_segment:
  assumes "parsed_segment s" "plain_segment s"
  shows "find_end None i (segment_string s @ r) = find_end None (i + length (segment_string s)) r"
proof (cases s)
  case (SName n)
  with parsed_name_plain assms find_end_skip [of "CHR ''.'' # n" i r] show ?thesis by simp
next
  case (SQuoted q)
  with assms find_end_quoted [of "CHR 0x27" q "Suc (Suc i)" "CHR '']'' # r"] show ?thesis by simp
next
  case (SIndex k)
  have "set (dec k) \<inter> {CHR 0x27, CHR 0x22, CHR ''}''} = {}"
    by (force simp: is_ascii_digit_def dest: dec_digits)
  with SIndex find_end_skip [of "CHR ''['' # dec k @ '']''" i r] show ?thesis by simp
qed

lemma find_end_path:
  "list_all parsed_segment segs \<Longrightarrow> list_all plain_segment segs \<Longrightarrow>
     find_end None i (concat (map segment_string segs) @ r) =
     find_end None (i + length (concat (map segment_string segs))) r"
  by (induction segs arbitrary: i) (simp_all add: find_end_segment add.assoc)

text \<open>The end depends only on what comes before it.\<close>

lemma find_end_Some:
  "find_end q i s = Some e \<Longrightarrow> \<exists>b r. s = b @ CHR ''}'' # r \<and> e = i + length b \<and>
     (\<forall>r'. find_end q i (b @ CHR ''}'' # r') = Some e)"
proof (induction q i s rule: find_end.induct)
  case (2 q i c cs)
  show ?case
  proof (cases "q = None \<and> c = CHR ''}''")
    case True
    with 2(4) have "c # cs = [] @ CHR ''}'' # cs \<and> e = i + length []" by simp
    with True show ?thesis by (intro exI [of _ "[]"] exI [of _ cs]) auto
  next
    case False
    define q' where "q' = (case q of Some q0 \<Rightarrow> if c = q0 then None else q
      | None \<Rightarrow> if c = CHR 0x27 \<or> c = CHR 0x22 then Some c else None)"
    have step: "find_end q i (c # t) = find_end q' (Suc i) t" for t
      using False by (auto simp: q'_def split: option.splits)
    have "find_end q' (Suc i) cs = Some e" using 2(4) step by simp
    then obtain b r where b: "cs = b @ CHR ''}'' # r" "e = Suc i + length b"
      "\<forall>r'. find_end q' (Suc i) (b @ CHR ''}'' # r') = Some e"
      using 2(1-3) False unfolding q'_def by (cases q) (auto split: if_splits)
    show ?thesis
      by (rule exI [of _ "c # b"], rule exI [of _ r]) (use b step in simp)
  qed
qed simp

section \<open>Printed templates\<close>

definition escape_literal :: "string \<Rightarrow> string" where
  "escape_literal l = replace_str ''${'' [CHR ''$'', CHR 0x5C, CHR ''{''] l"

fun unparse_part :: "part \<Rightarrow> string" where
  "unparse_part (Literal l) = escape_literal l"
| "unparse_part (Placeholder p) = rp_text p"

definition unparse :: "part list \<Rightarrow> string" where
  "unparse parts = concat (map unparse_part parts)"

text \<open>The loop of \<open>Template::parse\<close>, one character or placeholder at a time.\<close>

lemma template_loop_Nil: "template_loop [] lit parts = Ok (push_part lit parts)"
  by (simp add: template_loop.simps [of "[]"])

lemma template_loop_char:
  "x \<noteq> CHR ''$'' \<Longrightarrow> template_loop (x # s) lit parts = template_loop s (lit @ [x]) parts"
proof -
  assume x: "x \<noteq> CHR ''$''"
  show ?thesis
  proof (cases "split_once (CHR ''$'') s")
    case None
    with x have n: "split_once (CHR ''$'') (x # s) = None" by simp
    show ?thesis unfolding template_loop.simps [of "x # s"] template_loop.simps [of s] None n option.case by simp
  next
    case (Some ab)
    obtain a b where ab: "ab = (a, b)" by (cases ab)
    have n: "split_once (CHR ''$'') (x # s) = Some (x # a, b)" using x Some ab by simp
    show ?thesis unfolding template_loop.simps [of "x # s"] template_loop.simps [of s] Some ab n
      by (simp only: option.case prod.case append_assoc append.simps Let_def)
  qed
qed

lemma template_loop_escape:
  "template_loop (CHR ''$'' # CHR 0x5C # CHR ''{'' # s) lit parts = template_loop s (lit @ ''${'') parts"
  by (simp add: template_loop.simps [of "CHR ''$'' # CHR 0x5C # CHR ''{'' # s"] strip_prefix_def)

lemma template_loop_open:
  "template_loop (CHR ''$'' # CHR ''{'' # s) lit parts =
     (case find_placeholder_end s of
        None \<Rightarrow> Err (Syntax ''unterminated `${`'')
      | Some e \<Rightarrow>
          rbind (parse_path (take e s)) (\<lambda>segments.
            template_loop (drop (e + 1) s) []
              (push_part lit parts @
               [Placeholder \<lparr>rp_text = ''${'' @ take e s @ ''}'', rp_segments = segments\<rparr>])))"
  by (simp add: template_loop.simps [of "CHR ''$'' # CHR ''{'' # s"] strip_prefix_def Let_def cong: option.case_cong)

lemma template_loop_dollar:
  "\<not> prefix [CHR 0x5C, CHR ''{''] s \<Longrightarrow> \<not> prefix ''{'' s \<Longrightarrow>
     template_loop (CHR ''$'' # s) lit parts = template_loop s (lit @ ''$'') parts"
  by (simp add: template_loop.simps [of "CHR ''$'' # s"] strip_prefix_def)

lemma template_induct [case_names Nil char escape opened dollar]:
  assumes "\<And>lit parts. P [] lit parts"
    and "\<And>x s lit parts. x \<noteq> CHR ''$'' \<Longrightarrow> P s (lit @ [x]) parts \<Longrightarrow> P (x # s) lit parts"
    and "\<And>s lit parts. P s (lit @ ''${'') parts \<Longrightarrow> P (CHR ''$'' # CHR 0x5C # CHR ''{'' # s) lit parts"
    and "\<And>s lit parts. (\<And>e parts'. find_placeholder_end s = Some e \<Longrightarrow> P (drop (e + 1) s) [] parts') \<Longrightarrow>
           P (CHR ''$'' # CHR ''{'' # s) lit parts"
    and "\<And>s lit parts. \<not> prefix [CHR 0x5C, CHR ''{''] s \<Longrightarrow> \<not> prefix ''{'' s \<Longrightarrow> P s (lit @ ''$'') parts \<Longrightarrow>
           P (CHR ''$'' # s) lit parts"
  shows "P s lit parts"
proof (induction "length s" arbitrary: s lit parts rule: less_induct)
  case less
  show ?case
  proof (cases s)
    case (Cons x t)
    consider "x \<noteq> CHR ''$''" | u where "x = CHR ''$''" "t = CHR 0x5C # CHR ''{'' # u"
      | u where "x = CHR ''$''" "t = CHR ''{'' # u"
      | "x = CHR ''$''" "\<not> prefix [CHR 0x5C, CHR ''{''] t" "\<not> prefix ''{'' t"
    proof -
      have "\<exists>u. t = CHR 0x5C # CHR ''{'' # u" if "prefix [CHR 0x5C, CHR ''{''] t"
        using that unfolding prefix_def by simp
      moreover have "\<exists>u. t = CHR ''{'' # u" if "prefix ''{'' t" using that unfolding prefix_def by simp
      ultimately show thesis using that by blast
    qed
    then show ?thesis
    proof cases
      case 1
      then show ?thesis unfolding Cons by (rule assms(2)) (rule less, simp add: Cons)
    next
      case 2
      show ?thesis unfolding Cons 2 by (rule assms(3), rule less) (simp add: Cons 2)
    next
      case 3
      show ?thesis unfolding Cons 3 by (rule assms(4), rule less) (simp add: Cons 3)
    next
      case 4
      show ?thesis unfolding Cons 4(1) using 4(2,3) by (rule assms(5)) (rule less, simp add: Cons)
    qed
  qed (simp add: assms(1))
qed

text \<open>The parts that parsing gives.\<close>

definition good_placeholder :: "raw_placeholder \<Rightarrow> bool" where
  "good_placeholder p \<longleftrightarrow> (\<exists>body. rp_text p = ''${'' @ body @ ''}'' \<and> parse_path body = Ok (rp_segments p) \<and>
     (\<forall>r. find_placeholder_end (body @ CHR ''}'' # r) = Some (length body)))"

abbreviation escape_mark :: string where
  "escape_mark \<equiv> [CHR ''$'', CHR 0x5C, CHR ''{'']"

definition good_literal :: "string \<Rightarrow> bool" where
  "good_literal l \<longleftrightarrow> l \<noteq> [] \<and> \<not> sublist escape_mark l"

fun is_literal_part :: "part \<Rightarrow> bool" where
  "is_literal_part (Literal _) = True"
| "is_literal_part (Placeholder _) = False"

fun good_parts :: "part list \<Rightarrow> bool" where
  "good_parts [] = True"
| "good_parts (Placeholder p # ps) = (good_placeholder p \<and> good_parts ps)"
| "good_parts (Literal l # ps) = (good_literal l \<and> (ps = [] \<or> \<not> is_literal_part (hd ps)) \<and> good_parts ps)"

text \<open>Printing a literal and reading it back.\<close>

lemma escape_literal_hd:
  assumes "rest = [] \<or> hd rest = CHR ''$''" "x \<noteq> CHR ''$''" "\<not> prefix [x] s"
  shows "\<not> prefix [x] (escape_literal s @ rest)"
proof (cases s)
  case Nil
  with assms show ?thesis by (cases rest) (simp_all add: escape_literal_def)
next
  case (Cons y t)
  with assms show ?thesis by (simp add: escape_literal_def)
qed

lemma template_loop_literal:
  "\<not> sublist escape_mark l \<Longrightarrow> rest = [] \<or> hd rest = CHR ''$'' \<Longrightarrow>
     template_loop (escape_literal l @ rest) lit parts = template_loop rest (lit @ l) parts"
proof (induction l arbitrary: lit rule: length_induct)
  case (1 l)
  show ?case
  proof (cases l)
    case (Cons x xs)
    have no: "\<not> sublist escape_mark xs" using 1(2) by (simp add: Cons sublist_Cons_right)
    consider (esc) ys where "x = CHR ''$''" "xs = CHR ''{'' # ys" | (char) "x \<noteq> CHR ''$''"
      | (dollar) "x = CHR ''$''" "\<not> prefix ''{'' xs" by (cases xs) auto
    then show ?thesis
    proof cases
      case esc
      have "\<not> sublist escape_mark ys" using no by (simp add: esc sublist_Cons_right)
      then have "template_loop (escape_literal ys @ rest) (lit @ ''${'') parts = template_loop rest ((lit @ ''${'') @ ys) parts"
        using 1(1) [rule_format, of ys "lit @ ''${''"] 1(3) by (simp add: Cons esc)
      moreover have "escape_literal l = CHR ''$'' # CHR 0x5C # CHR ''{'' # escape_literal ys"
        by (simp add: escape_literal_def Cons esc)
      ultimately show ?thesis by (simp add: template_loop_escape Cons esc)
    next
      case char
      have "escape_literal l = x # escape_literal xs" using char by (simp add: escape_literal_def Cons)
      then show ?thesis using 1(1) [rule_format, of xs "lit @ [x]"] no 1(3) char
        by (simp add: template_loop_char Cons)
    next
      case dollar
      have e: "escape_literal l = CHR ''$'' # escape_literal xs"
        using dollar by (cases xs) (simp_all add: escape_literal_def Cons)
      have n: "\<not> prefix ''{'' (escape_literal xs @ rest)" by (rule escape_literal_hd) (use 1(3) dollar in simp_all)
      have "\<not> prefix [CHR 0x5C, CHR ''{''] (escape_literal xs @ rest)"
      proof (cases "prefix [CHR 0x5C] xs")
        case True
        then obtain ys where ys: "xs = CHR 0x5C # ys" by (cases xs) auto
        have "\<not> prefix ''{'' ys" using 1(2) by (simp add: Cons dollar ys sublist_Cons_right)
        with 1(3) have "\<not> prefix ''{'' (escape_literal ys @ rest)" by (intro escape_literal_hd) simp_all
        then show ?thesis by (simp add: ys escape_literal_def)
      next
        case False
        then have "\<not> prefix [CHR 0x5C] (escape_literal xs @ rest)" by (intro escape_literal_hd) (use 1(3) in simp_all)
        then show ?thesis by (cases "escape_literal xs @ rest") auto
      qed
      then show ?thesis using 1(1) [rule_format, of xs "lit @ ''$''"] no 1(3) dollar n
        unfolding e by (simp add: template_loop_dollar Cons)
    qed
  qed (simp add: escape_literal_def)
qed

lemma template_loop_placeholder:
  assumes "good_placeholder p"
  shows "template_loop (rp_text p @ s) lit parts = template_loop s [] (push_part lit parts @ [Placeholder p])"
proof -
  from assms obtain body where b: "rp_text p = ''${'' @ body @ ''}''" "parse_path body = Ok (rp_segments p)"
    "find_placeholder_end (body @ CHR ''}'' # s) = Some (length body)" unfolding good_placeholder_def by blast
  obtain t g where p: "p = \<lparr>rp_text = t, rp_segments = g\<rparr>" by (cases p)
  show ?thesis using b unfolding p by (simp add: template_loop_open)
qed

lemma unparse_simps [simp]:
  "unparse [] = []"
  "unparse (p # ps) = unparse_part p @ unparse ps"
  by (simp_all add: unparse_def)

lemma unparse_hd: "good_parts ps \<Longrightarrow> ps = [] \<or> \<not> is_literal_part (hd ps) \<Longrightarrow> unparse ps = [] \<or> hd (unparse ps) = CHR ''$''"
  by (cases ps rule: good_parts.cases) (auto simp: good_placeholder_def)

lemma template_loop_unparse: "good_parts ps \<Longrightarrow> template_loop (unparse ps) [] parts = Ok (parts @ ps)"
proof (induction ps arbitrary: parts rule: good_parts.induct)
  case 1
  show ?case by (simp add: template_loop_Nil push_part_def)
next
  case (2 p ps)
  then show ?case by (simp add: template_loop_placeholder push_part_def)
next
  case (3 l ps)
  have l: "\<not> sublist escape_mark l" "l \<noteq> []" using 3(2) by (simp_all add: good_literal_def)
  have hd: "unparse ps = [] \<or> hd (unparse ps) = CHR ''$''" by (rule unparse_hd) (use 3(2) in simp_all)
  have "template_loop (unparse ps) l parts = Ok (parts @ Literal l # ps)"
  proof (cases ps)
    case Nil
    then show ?thesis using l by (simp add: template_loop_Nil push_part_def)
  next
    case (Cons q qs)
    with 3(2) obtain p where q: "q = Placeholder p" "good_placeholder p" by (cases q) auto
    have "template_loop (unparse ps) l parts = template_loop (unparse ps) [] (parts @ [Literal l])"
      using l q by (simp add: Cons template_loop_placeholder push_part_def)
    also have "\<dots> = Ok ((parts @ [Literal l]) @ ps)" using 3 by simp
    finally show ?thesis by simp
  qed
  then show ?case using template_loop_literal [OF l(1) hd] by simp
qed

text \<open>
  Parsing gives such parts: the pending literal never holds an escape mark, also not one that the
  next characters would complete.
\<close>

definition open_mark :: "string \<Rightarrow> string \<Rightarrow> bool" where
  "open_mark lit s \<longleftrightarrow> sublist escape_mark lit \<or> (suffix ''$'' lit \<and> prefix [CHR 0x5C, CHR ''{''] s) \<or>
     (suffix [CHR ''$'', CHR 0x5C] lit \<and> prefix ''{'' s)"

lemma sublist_snoc:
  "sublist p (xs @ [x]) \<longleftrightarrow> sublist p xs \<or> suffix p (xs @ [x])"
proof -
  have "sublist p (xs @ [x]) \<longleftrightarrow> sublist (rev p) (x # rev xs)" by (simp add: sublist_rev [of p, symmetric])
  also have "\<dots> \<longleftrightarrow> sublist p xs \<or> suffix p (xs @ [x])"
    by (auto simp: sublist_Cons_right suffix_to_prefix sublist_rev)
  finally show ?thesis .
qed

lemma suffix_snocs:
  "suffix ''$'' (lit @ [x]) \<longleftrightarrow> x = CHR ''$''"
  "suffix [CHR ''$'', CHR 0x5C] (lit @ [x]) \<longleftrightarrow> x = CHR 0x5C \<and> suffix ''$'' lit"
  "suffix escape_mark (lit @ [x]) \<longleftrightarrow> x = CHR ''{'' \<and> suffix [CHR ''$'', CHR 0x5C] lit"
  by (auto simp: suffix_to_prefix)

lemma open_mark_snoc:
  "open_mark (lit @ [x]) s \<longleftrightarrow> sublist escape_mark lit \<or> (x = CHR ''{'' \<and> suffix [CHR ''$'', CHR 0x5C] lit) \<or>
     (x = CHR ''$'' \<and> prefix [CHR 0x5C, CHR ''{''] s) \<or> (x = CHR 0x5C \<and> suffix ''$'' lit \<and> prefix ''{'' s)"
  unfolding open_mark_def sublist_snoc suffix_snocs by blast

lemma open_mark_step:
  "x \<noteq> CHR ''$'' \<Longrightarrow> open_mark (lit @ [x]) s \<Longrightarrow> open_mark lit (x # s)"
  "open_mark (lit @ ''$'') s \<Longrightarrow> open_mark lit t \<or> prefix [CHR 0x5C, CHR ''{''] s"
  "open_mark (lit @ ''${'') s \<Longrightarrow> open_mark lit t"
proof -
  show "x \<noteq> CHR ''$'' \<Longrightarrow> open_mark (lit @ [x]) s \<Longrightarrow> open_mark lit (x # s)"
    unfolding open_mark_snoc by (auto simp: open_mark_def)
  show "open_mark (lit @ ''$'') s \<Longrightarrow> open_mark lit t \<or> prefix [CHR 0x5C, CHR ''{''] s"
    unfolding open_mark_snoc by (auto simp: open_mark_def)
  show "open_mark (lit @ ''${'') s \<Longrightarrow> open_mark lit t"
    using open_mark_snoc [of "lit @ ''$''" "CHR ''{''" s]
    by (auto simp: sublist_snoc suffix_snocs open_mark_def)
qed

lemma push_part_eq: "push_part lit parts = parts @ (if lit = [] then [] else [Literal lit])"
  by (simp add: push_part_def)

lemma find_placeholder_end_Some:
  assumes "find_placeholder_end s = Some e"
  shows "s = take e s @ CHR ''}'' # drop (Suc e) s \<and> (\<forall>r. find_placeholder_end (take e s @ CHR ''}'' # r) = Some (length (take e s)))"
proof -
  from find_end_Some [OF assms [unfolded find_placeholder_end_def]] obtain b r where
    "s = b @ CHR ''}'' # r" "e = length b" "\<forall>r'. find_end None 0 (b @ CHR ''}'' # r') = Some e" by auto
  then show ?thesis by (simp add: find_placeholder_end_def)
qed

lemma template_loop_good:
  "template_loop s lit parts = Ok out \<Longrightarrow> \<not> open_mark lit s \<Longrightarrow> \<exists>new. out = parts @ new \<and> good_parts new"
proof (induction s lit parts arbitrary: out rule: template_induct)
  case (Nil lit parts)
  then have "good_parts (if lit = [] then [] else [Literal lit])" by (simp add: good_literal_def open_mark_def)
  moreover have "out = parts @ (if lit = [] then [] else [Literal lit])"
    using Nil(1) by (simp only: template_loop_Nil push_part_eq sum.inject)
  ultimately show ?case by blast
next
  case (char x s lit parts)
  from char(4) open_mark_step(1) [OF char(1)] have "\<not> open_mark (lit @ [x]) s" by blast
  with char(3) show ?case unfolding template_loop_char [OF char(1)] by (rule char(2))
next
  case (escape s lit parts)
  have "\<not> open_mark (lit @ ''${'') s" using escape(3) open_mark_step(3) by blast
  with escape(2) show ?case unfolding template_loop_escape by (rule escape(1))
next
  case (opened s lit parts)
  from opened(2) obtain e segs where e: "find_placeholder_end s = Some e" "parse_path (take e s) = Ok segs"
    "template_loop (drop (e + 1) s) [] (push_part lit parts @ [Placeholder \<lparr>rp_text = ''${'' @ take e s @ ''}'', rp_segments = segs\<rparr>]) = Ok out"
    unfolding template_loop_open by (auto simp: rbind_eq_Inr split: option.splits)
  have "\<not> open_mark [] (drop (e + 1) s)" by (simp add: open_mark_def)
  then obtain new where new: "good_parts new" "out = (push_part lit parts @
      [Placeholder \<lparr>rp_text = ''${'' @ take e s @ ''}'', rp_segments = segs\<rparr>]) @ new"
    using opened(1) [OF e(1,3)] by blast
  have "good_placeholder \<lparr>rp_text = ''${'' @ take e s @ ''}'', rp_segments = segs\<rparr>"
    unfolding good_placeholder_def by (rule exI [of _ "take e s"]) (use e(2) find_placeholder_end_Some [OF e(1)] in simp)
  with new(1) have "good_parts ((if lit = [] then [] else [Literal lit]) @
      Placeholder \<lparr>rp_text = ''${'' @ take e s @ ''}'', rp_segments = segs\<rparr> # new)"
    using opened(3) by (simp add: good_literal_def open_mark_def)
  with new(2) show ?case by (simp add: push_part_eq)
next
  case (dollar s lit parts)
  have "\<not> open_mark (lit @ ''$'') s" using dollar(1,5) open_mark_step(2) by blast
  with dollar(4) show ?case unfolding template_loop_dollar [OF dollar(1,2)] by (rule dollar(3))
qed

lemma Template_parse_good: "Template_parse s = Ok parts \<Longrightarrow> good_parts parts"
  using template_loop_good [of s "[]" "[]" parts] by (simp add: Template_parse_def open_mark_def)

lemma Template_parse_unparse: "good_parts parts \<Longrightarrow> Template_parse (unparse parts) = Ok parts"
  by (simp add: Template_parse_def template_loop_unparse)

text \<open>In a well-formed string, the segments of a placeholder are well-formed.\<close>

lemma template_loop_parsed:
  "template_loop s lit parts = Ok out \<Longrightarrow> is_utf8 (pre @ s) \<Longrightarrow>
   \<forall>p. Placeholder p \<in> set parts \<longrightarrow> list_all parsed_segment (rp_segments p) \<Longrightarrow>
   Placeholder p \<in> set out \<Longrightarrow> list_all parsed_segment (rp_segments p)"
proof (induction s lit parts arbitrary: pre rule: template_induct)
  case (Nil lit parts)
  then have "Placeholder p \<in> set parts" by (auto simp: template_loop_Nil push_part_eq split: if_splits)
  with Nil(3) show ?case by blast
next
  case (char x s lit parts)
  from char(3-) show ?case unfolding template_loop_char [OF char(1)]
    by (intro char(2) [of "pre @ [x]"]) simp_all
next
  case (escape s lit parts)
  from escape(2-) show ?case unfolding template_loop_escape
    by (intro escape(1) [of "pre @ escape_mark"]) simp_all
next
  case (opened s lit parts)
  from opened(2) obtain e segs where e: "find_placeholder_end s = Some e" "parse_path (take e s) = Ok segs"
    "template_loop (drop (e + 1) s) [] (push_part lit parts @ [Placeholder \<lparr>rp_text = ''${'' @ take e s @ ''}'', rp_segments = segs\<rparr>]) = Ok out"
    unfolding template_loop_open by (auto simp: rbind_eq_Inr split: option.splits)
  have s: "s = take e s @ CHR ''}'' # drop (Suc e) s" using find_placeholder_end_Some [OF e(1)] by blast
  have "is_utf8 (CHR ''$'' # CHR ''{'' # take e s @ CHR ''}'' # drop (Suc e) s)"
    using opened(3) is_utf8_append [of "CHR ''$''" pre] s by (simp add: is_cont_def)
  then have u: "is_utf8 (take e s)" using is_utf8_append [of "CHR ''}''" "take e s" "drop (Suc e) s"]
    by (simp add: is_utf8_ascii_Cons is_cont_def)
  have utf: "is_utf8 ((pre @ CHR ''$'' # CHR ''{'' # take e s @ ''}'') @ drop (e + 1) s)"
    using opened(3) s by simp
  show ?case
  proof (rule opened(1) [OF e(1,3) utf _ opened(5)], intro allI impI)
    fix p' assume "Placeholder p' \<in> set (push_part lit parts @ [Placeholder \<lparr>rp_text = ''${'' @ take e s @ ''}'', rp_segments = segs\<rparr>])"
    then consider "Placeholder p' \<in> set parts" | "rp_segments p' = segs" by (auto simp: push_part_eq split: if_splits)
    then show "list_all parsed_segment (rp_segments p')"
      using opened(4) parse_path_parsed [OF e(2) u] by cases simp_all
  qed
next
  case (dollar s lit parts)
  from dollar(4-) show ?case unfolding template_loop_dollar [OF dollar(1,2)]
    by (intro dollar(3) [of "pre @ ''$''"]) simp_all
qed

lemma Template_parse_parsed:
  "Template_parse s = Ok parts \<Longrightarrow> is_utf8 s \<Longrightarrow> Placeholder p \<in> set parts \<Longrightarrow> list_all parsed_segment (rp_segments p)"
  using template_loop_parsed [of s "[]" "[]" parts "[]" p] by (simp add: Template_parse_def)

section \<open>References to resources\<close>

definition wf_resource_ref :: "resource_ref \<Rightarrow> bool" where
  "wf_resource_ref r \<longleftrightarrow> is_resource_type (rr_ty r) \<and> (\<forall>c. rr_class r = Some c \<longrightarrow> is_valid_object_id c) \<and>
     (\<forall>i. rr_id r = Some i \<longrightarrow> is_res_id i)"

lemma opt_part_Inr:
  "opt_part c check s = Ok (h, x) \<longleftrightarrow>
     (\<exists>t. s = h @ c # t \<and> c \<notin> set h \<and> (\<exists>y. check t = Ok y \<and> x = Some y)) \<or> (c \<notin> set s \<and> h = s \<and> x = None)"
  by (auto simp: opt_part_def rbind_eq_Inr split_once_Some append_sep_inject split: option.splits)

lemma ResourceRef_parse_Inr:
  "ResourceRef_parse s = Ok r \<Longrightarrow> wf_resource_ref r \<and> resource_ref_string r = s"
  by (auto simp: ResourceRef_parse_def rbind_eq_Inr opt_part_Inr wf_resource_ref_def resource_ref_string_def)

lemma ResourceRef_parse_string:
  assumes "wf_resource_ref r"
  shows "ResourceRef_parse (resource_ref_string r) = Ok r"
proof -
  obtain ty cl rid where r: "r = ResourceRef ty cl rid" by (cases r)
  let ?h = "ty @ case_option [] (\<lambda>c. CHR ''.'' # c) cl"
  have "CHR ''.'' \<notin> set ty" "CHR ''#'' \<notin> set ty" and
    "\<And>c. cl = Some c \<Longrightarrow> CHR ''#'' \<notin> set c"
    using assms resource_type_notin valid_object_id_notin(2) by (auto simp: r wf_resource_ref_def)
  then have "opt_part (CHR ''#'') ResId_new (resource_ref_string r) = Ok (?h, rid)"
    and "opt_part (CHR ''.'') ClassId_new ?h = Ok (ty, cl)"
    using assms by (auto simp: r opt_part_Inr resource_ref_string_def wf_resource_ref_def split: option.splits)
  with assms show ?thesis by (simp add: ResourceRef_parse_def r wf_resource_ref_def ResourceTypeId_new_def)
qed

lemma resolve_wf:
  assumes "wf_resource_ref r" "wf_descriptor d"
  shows "wf_descriptor (ResourceRef_resolve r d implicit)"
proof -
  have "is_res_id (projr (ResId_new (replace_str ''/'' ''-'' (rr_ty r))))"
    using assms(1) is_res_id_type_name by (simp add: wf_resource_ref_def ResId_new_def)
  with assms show ?thesis
    by (auto simp: ResourceRef_resolve_def wf_resource_ref_def wf_descriptor_def split: option.splits)
qed

lemma interpret_resource:
  "Expr_interpret raw dialect = Ok (EResource target field) \<Longrightarrow>
     wf_resource_ref target \<and> dialect \<noteq> DSet \<and> (field = FAccount \<longrightarrow> dialect = DDriverAccount)"
  by (auto simp: Expr_interpret_def Let_def rbind_eq_Inr parse_resource_ref_def dest: ResourceRef_parse_Inr
      split: if_splits option.splits)

section \<open>Properties\<close>

text \<open>
  C38: what a placeholder of a definition refers to is well-typed. The target of an interpreted
  \<open>resources\<close> placeholder has a valid type, class and ID and parses back from its text; resolved for
  a valid descriptor it is a valid descriptor, so the \<open>expect\<close> in \<open>resolve\<close> holds; workload text
  never refers to resources this way, and account references occur in \<open>driver_account\<close> only.
\<close>

theorem interpreted_reference_types:
  assumes "Expr_interpret raw dialect = Ok (EResource target field)"
  shows "is_resource_type (rr_ty target) \<and> ResourceRef_parse (resource_ref_string target) = Ok target
    \<and> (\<forall>d implicit. wf_descriptor d \<longrightarrow> wf_descriptor (ResourceRef_resolve target d implicit))
    \<and> is_ok (ResId_new (replace_str ''/'' ''-'' (rr_ty target)))
    \<and> dialect \<noteq> DSet \<and> (field = FAccount \<longrightarrow> dialect = DDriverAccount)"
proof -
  note t = interpret_resource [OF assms]
  then have ty: "is_resource_type (rr_ty target)" by (simp add: wf_resource_ref_def)
  then have "ResId_new (replace_str ''/'' ''-'' (rr_ty target)) = Ok (replace_str ''/'' ''-'' (rr_ty target))"
    by (simp add: is_res_id_type_name)
  with t ty ResourceRef_parse_string [of target] resolve_wf [of target] show ?thesis by (simp add: is_ok_iff)
qed

theorem interpreted_reference_types_witness:
  "ResourceRef_parse (resource_ref_string (ResourceRef ''postgres'' None None)) = Ok (ResourceRef ''postgres'' None None)"
proof -
  have t: "is_resource_type ''postgres''"
    by code_simp
  have "Expr_interpret \<lparr>rp_text = ''${resources.postgres.outputs.host}'',
      rp_segments = [SName ''resources'', SName ''postgres'', SName ''outputs'', SName ''host'']\<rparr> DDefinition
    = Ok (EResource (ResourceRef ''postgres'' None None) (FOutputs [SName ''host'']))"
    using t by (simp add: Expr_interpret_def rp_root_def parse_resource_ref_def ref_text_def ref_field_def
        ResourceRef_parse_def opt_part_def ResourceTypeId_new_def contains_str_def)
  from interpreted_reference_types [OF this] show ?thesis by blast
qed

end
