(* ===== verification/Workload_Correct.thy ===== *)
theory Workload_Correct
  imports Workload Template_Correct
begin

text \<open>
  What the operations on workload documents do. Translation is followed string by string through
  the document (\<open>doc_strings\<close>): it keeps the shape of the document, its result parses as a set
  template that means what the workload text meant, and secret outputs reach secret sinks only.
  Content that is set aside comes back unchanged, so that conversion never panics.
\<close>

section \<open>The strings of a document\<close>

text \<open>The parts of a value with the token that leads to each, and the value with other parts.\<close>

fun children :: "json \<Rightarrow> (string \<times> json) list" where
  "children (JArr items) = map (\<lambda>(i, x). (dec i, x)) (enumerate 0 items)"
| "children (JObj es) = es"
| "children _ = []"

fun rebuild :: "json \<Rightarrow> json list \<Rightarrow> json" where
  "rebuild (JArr _) vs = JArr vs"
| "rebuild (JObj es) vs = JObj (zip (map fst es) vs)"
| "rebuild v vs = v"

lemma size_children: "(t, x) \<in> set (children v) \<Longrightarrow> size x < size v"
proof (cases v)
  case (JArr items)
  then show "(t, x) \<in> set (children v) \<Longrightarrow> size x < size v" by (auto dest: size_enumerate)
next
  case (JObj es)
  then show "(t, x) \<in> set (children v) \<Longrightarrow> size x < size v"
    using size_list_estimation' [of "(t, x)" es "size x" "size_prod (\<lambda>_. 0) size"] by auto
qed simp_all

lemma json_children_induct [case_names json]:
  assumes "\<And>v. (\<And>t x. (t, x) \<in> set (children v) \<Longrightarrow> P x) \<Longrightarrow> P v"
  shows "P v"
  by (induction v rule: measure_induct_rule [of size]) (use assms size_children in blast)

text \<open>Every string, with the tokens of its pointer.\<close>

function doc_strings :: "json \<Rightarrow> string list \<Rightarrow> (string list \<times> string) list" where
  "doc_strings v ts =
     (case as_str v of
        Some s \<Rightarrow> [(ts, s)]
      | None \<Rightarrow> concat (map (\<lambda>(t, x). doc_strings x (ts @ [t])) (children v)))"
  by pat_completeness auto
termination
  by (relation "measure (\<lambda>(v, _). size v)") (auto dest: size_children)

declare doc_strings.simps [simp del]

lemma doc_strings_str [simp]: "doc_strings (JStr s) ts = [(ts, s)]"
  by (simp add: doc_strings.simps [of "JStr s"])

lemma doc_strings_children:
  "\<not> is_string v \<Longrightarrow> doc_strings v ts = concat (map (\<lambda>(t, x). doc_strings x (ts @ [t])) (children v))"
  by (subst doc_strings.simps) (cases v; simp)

lemma escape_pointer_dec [simp]: "escape_pointer (dec i) = dec i"
proof -
  have "escape_pointer s = s" if "list_all is_ascii_digit s" for s
    using that by (induction s) (auto simp: is_ascii_digit_def)
  then show ?thesis using dec_digits [of _ i] by (simp add: list_all_iff)
qed

lemma doc_strings_tokens: "(us, s) \<in> set (doc_strings v ts) \<Longrightarrow> \<exists>vs. us = ts @ vs"
proof (induction v arbitrary: ts rule: json_children_induct)
  case (json v)
  show ?case
  proof (cases "is_string v")
    case True
    then obtain s' where "v = JStr s'" by (cases v) auto
    with json(2) show ?thesis by simp
  next
    case False
    from json(2) obtain t x where "(t, x) \<in> set (children v)" "(us, s) \<in> set (doc_strings x (ts @ [t]))"
      unfolding doc_strings_children [OF False] by auto
    from json(1) [OF this] show ?thesis by auto
  qed
qed

section \<open>Translation, string by string\<close>

lemma try_fold_collect:
  assumes "\<And>x paths. x \<in> set xs \<Longrightarrow> f x paths = rbind (f x []) (\<lambda>(v, ps). Ok (v, paths @ ps))"
  shows "try_fold (\<lambda>x (acc, paths). rbind (f x paths) (\<lambda>(v, paths). Ok (acc @ [h x v], paths))) xs (acc, paths) =
    rbind (try_map (\<lambda>x. f x []) xs) (\<lambda>rs. Ok (acc @ map2 h xs (map fst rs), paths @ concat (map snd rs)))"
  using assms
proof (induction xs arbitrary: acc paths)
  case (Cons x xs)
  have f: "f x paths = rbind (f x []) (\<lambda>(v, ps). Ok (v, paths @ ps))" using Cons.prems [of x paths] by simp
  note IH = Cons.IH [OF Cons.prems, simplified]
  show ?case
  proof (cases "f x []")
    case (Inr r)
    obtain v ps where r: "r = (v, ps)" by (cases r)
    have "f x paths = Ok (v, paths @ ps)" using f Inr r by simp
    then show ?thesis using IH [of "acc @ [h x v]" "paths @ ps"] Inr r
      by (cases "try_map (\<lambda>x. f x []) xs") simp_all
  qed (use f in simp)
qed simp

lemma translate_string_paths:
  "translate_string s q res types paths =
     rbind (translate_string s q res types []) (\<lambda>(out, ps). Ok (out, paths @ ps))"
  unfolding translate_string_def Let_def
  by (auto simp: rbind_assoc rbind_def fail_if_def split: sum.splits option.splits)

lemma try_map_map: "try_map f (map g xs) = try_map (\<lambda>x. f (g x)) xs"
  by (induction xs) simp_all

text \<open>The loops of \<open>translate\<close>, given that its parts only append to the paths.\<close>

abbreviation array_part where
  "array_part res types q x paths \<equiv> translate res types (snd x) (q @ ''/'' @ dec (fst x)) paths"

abbreviation object_part where
  "object_part res types q x paths \<equiv> translate res types (snd x) (q @ ''/'' @ escape_pointer (fst x)) paths"

lemma translate_array:
  assumes "\<And>x paths. x \<in> set (enumerate 0 items) \<Longrightarrow> array_part res types q x paths =
    rbind (array_part res types q x []) (\<lambda>(v, ps). Ok (v, paths @ ps))"
  shows "translate res types (JArr items) q paths = rbind (try_map (\<lambda>x. array_part res types q x []) (enumerate 0 items))
    (\<lambda>rs. Ok (JArr (map2 (\<lambda>x v. v) (enumerate 0 items) (map fst rs)), paths @ concat (map snd rs)))"
proof -
  have "translate res types (JArr items) q paths = rbind (try_fold (\<lambda>x (acc, paths).
      rbind (array_part res types q x paths) (\<lambda>(v, paths). Ok (acc @ [v], paths))) (enumerate 0 items) ([], paths))
      (\<lambda>(items, paths). Ok (JArr items, paths))"
    by (simp add: split_def)
  also have "\<dots> = rbind (rbind (try_map (\<lambda>x. array_part res types q x []) (enumerate 0 items))
      (\<lambda>rs. Ok ([] @ map2 (\<lambda>x v. v) (enumerate 0 items) (map fst rs), paths @ concat (map snd rs))))
      (\<lambda>(items, paths). Ok (JArr items, paths))"
    by (rule arg_cong [where f = "\<lambda>r. rbind r _"], rule try_fold_collect) (rule assms)
  finally show ?thesis by (simp add: rbind_assoc)
qed

lemma translate_object:
  assumes "\<And>x paths. x \<in> set es \<Longrightarrow> object_part res types q x paths =
    rbind (object_part res types q x []) (\<lambda>(v, ps). Ok (v, paths @ ps))"
  shows "translate res types (JObj es) q paths = rbind (try_map (\<lambda>x. object_part res types q x []) es)
    (\<lambda>rs. Ok (JObj (map2 (\<lambda>x v. (fst x, v)) es (map fst rs)), paths @ concat (map snd rs)))"
proof -
  have "translate res types (JObj es) q paths = rbind (try_fold (\<lambda>x (acc, paths).
      rbind (object_part res types q x paths) (\<lambda>(v, paths). Ok (acc @ [(fst x, v)], paths))) es ([], paths))
      (\<lambda>(es, paths). Ok (JObj es, paths))"
    by (simp add: split_def)
  also have "\<dots> = rbind (rbind (try_map (\<lambda>x. object_part res types q x []) es)
      (\<lambda>rs. Ok ([] @ map2 (\<lambda>x v. (fst x, v)) es (map fst rs), paths @ concat (map snd rs))))
      (\<lambda>(es, paths). Ok (JObj es, paths))"
    by (rule arg_cong [where f = "\<lambda>r. rbind r _"], rule try_fold_collect) (rule assms)
  finally show ?thesis by (simp add: rbind_assoc)
qed

lemma translate_paths:
  "translate res types v q paths = rbind (translate res types v q []) (\<lambda>(v', ps). Ok (v', paths @ ps))"
proof (induction v arbitrary: q paths rule: json_children_induct)
  case (json v)
  show ?case
  proof (cases v)
    case (JStr s)
    show ?thesis unfolding JStr translate.simps translate_string_paths [of s q res types paths]
      by (simp add: rbind_assoc split_def)
  next
    case (JArr items)
    have "(dec (fst x), snd x) \<in> set (children v)" if "x \<in> set (enumerate 0 items)" for x
      using that by (auto simp: JArr split_def intro!: rev_image_eqI)
    then have "array_part res types q x paths = rbind (array_part res types q x []) (\<lambda>(v, ps). Ok (v, paths @ ps))"
      if "x \<in> set (enumerate 0 items)" for x paths using that json by blast
    note eq = translate_array [OF this]
    show ?thesis unfolding JArr by (subst (1 2) eq) (simp_all add: rbind_assoc)
  next
    case (JObj es)
    have "(fst x, snd x) \<in> set (children v)" if "x \<in> set es" for x using that by (simp add: JObj)
    then have "object_part res types q x paths = rbind (object_part res types q x []) (\<lambda>(v, ps). Ok (v, paths @ ps))"
      if "x \<in> set es" for x paths using that json by blast
    note eq = translate_object [OF this]
    show ?thesis unfolding JObj by (subst (1 2) eq) (simp_all add: rbind_assoc)
  qed simp_all
qed

text \<open>On a value that is not a string, translation translates the parts.\<close>

lemma map2_snd: "length xs = length ys \<Longrightarrow> map2 (\<lambda>x y. y) xs ys = ys"
  by (induction xs ys rule: list_induct2) simp_all

lemma map2_key: "length xs = length ys \<Longrightarrow> map2 (\<lambda>x y. (fst x, y)) xs ys = zip (map fst xs) ys"
  by (induction xs ys rule: list_induct2) simp_all

lemma translate_children:
  assumes "\<not> is_string v"
  shows "translate res types v (pointer_of ts) [] =
    rbind (try_map (\<lambda>(t, x). translate res types x (pointer_of (ts @ [t])) []) (children v))
      (\<lambda>rs. Ok (rebuild v (map fst rs), concat (map snd rs)))"
proof (cases v)
  case (JArr items)
  have m: "try_map (\<lambda>(t, x). translate res types x (pointer_of (ts @ [t])) []) (children v) =
      try_map (\<lambda>x. array_part res types (pointer_of ts) x []) (enumerate 0 items)"
    by (simp add: JArr try_map_map split_def pointer_of_append)
  show ?thesis
    using try_map_length [of "\<lambda>x. array_part res types (pointer_of ts) x []" "enumerate 0 items"]
    unfolding m unfolding JArr translate_array [OF translate_paths]
    by (cases "try_map (\<lambda>x. array_part res types (pointer_of ts) x []) (enumerate 0 items)") (simp_all add: map2_snd)
next
  case (JObj es)
  have m: "try_map (\<lambda>(t, x). translate res types x (pointer_of (ts @ [t])) []) (children v) =
      try_map (\<lambda>x. object_part res types (pointer_of ts) x []) es"
    by (simp add: JObj split_def pointer_of_append)
  show ?thesis
    using try_map_length [of "\<lambda>x. object_part res types (pointer_of ts) x []" es]
    unfolding m unfolding JObj translate_object [OF translate_paths]
    by (cases "try_map (\<lambda>x. object_part res types (pointer_of ts) x []) es") (simp_all add: map2_key)
qed (use assms in simp_all)

text \<open>
  One string at its pointer: what it becomes, and the path it adds. A translated document has the
  translated strings at the same pointers, and adds their paths in order.
\<close>

definition string_at ::
  "resource_request index_map \<Rightarrow> resource_type list \<Rightarrow> string list \<times> string \<Rightarrow> (string list \<times> string) \<times> string list \<Rightarrow> bool" where
  "string_at res types = (\<lambda>(ts, s) ((us, s'), ps). us = ts \<and> translate_string s (pointer_of ts) res types [] = Ok (s', ps))"

abbreviation strings_of where
  "strings_of ts cs \<equiv> concat (map (\<lambda>(t, x). doc_strings x (ts @ [t])) cs)"

lemma children_rebuild:
  assumes "\<not> is_string v" "length vs = length (children v)"
  shows "children (rebuild v vs) = zip (map fst (children v)) vs" "\<not> is_string (rebuild v vs)"
proof -
  show "children (rebuild v vs) = zip (map fst (children v)) vs"
  proof (cases v)
    case (JArr items)
    with assms(2) have "length vs = length items" by simp
    then show ?thesis by (intro nth_equalityI) (simp_all add: JArr nth_enumerate_eq split_def)
  qed (use assms in simp_all)
  show "\<not> is_string (rebuild v vs)" using assms(1) by (cases v) simp_all
qed

lemma translate_parts:
  assumes "\<And>t x v' ps. (t, x) \<in> set cs \<Longrightarrow> translate res types x (pointer_of (ts @ [t])) [] = Ok (v', ps) \<Longrightarrow>
      \<exists>zs. list_all2 (string_at res types) (doc_strings x (ts @ [t])) zs \<and> doc_strings v' (ts @ [t]) = map fst zs \<and> ps = concat (map snd zs)"
    and "try_map (\<lambda>(t, x). translate res types x (pointer_of (ts @ [t])) []) cs = Ok rs"
  shows "\<exists>zs. list_all2 (string_at res types) (strings_of ts cs) zs \<and>
      strings_of ts (zip (map fst cs) (map fst rs)) = map fst zs \<and> concat (map snd rs) = concat (map snd zs)"
  using assms
proof (induction cs arbitrary: rs)
  case (Cons c cs)
  obtain t x where c: "c = (t, x)" by (cases c)
  from Cons.prems(2) obtain v' ps rs' where r: "translate res types x (pointer_of (ts @ [t])) [] = Ok (v', ps)"
    "try_map (\<lambda>(t, x). translate res types x (pointer_of (ts @ [t])) []) cs = Ok rs'" "rs = (v', ps) # rs'"
    by (auto simp: c rbind_eq_Inr)
  obtain zs where z: "list_all2 (string_at res types) (doc_strings x (ts @ [t])) zs" "doc_strings v' (ts @ [t]) = map fst zs"
    "ps = concat (map snd zs)" using Cons.prems(1) [OF _ r(1)] c by auto
  have "\<exists>zs. list_all2 (string_at res types) (strings_of ts cs) zs \<and>
      strings_of ts (zip (map fst cs) (map fst rs')) = map fst zs \<and> concat (map snd rs') = concat (map snd zs)"
    by (rule Cons.IH [OF Cons.prems(1) r(2)]) simp_all
  then obtain zs' where "list_all2 (string_at res types) (strings_of ts cs) zs'"
    "strings_of ts (zip (map fst cs) (map fst rs')) = map fst zs'" "concat (map snd rs') = concat (map snd zs')" by blast
  with z show ?case by (intro exI [of _ "zs @ zs'"]) (simp add: c r(3) list_all2_appendI)
qed simp

lemma translate_strings:
  "translate res types v (pointer_of ts) [] = Ok (v', ps) \<Longrightarrow>
     \<exists>zs. list_all2 (string_at res types) (doc_strings v ts) zs \<and> doc_strings v' ts = map fst zs \<and> ps = concat (map snd zs)"
proof (induction v arbitrary: v' ps ts rule: json_children_induct)
  case (json v)
  show ?case
  proof (cases "is_string v")
    case True
    then obtain s where v: "v = JStr s" by (cases v) auto
    with json(2) obtain s' where "translate_string s (pointer_of ts) res types [] = Ok (s', ps)" "v' = JStr s'"
      by (auto simp: rbind_eq_Inr)
    then show ?thesis by (intro exI [of _ "[((ts, s'), ps)]"]) (simp add: v string_at_def)
  next
    case False
    from json(2) obtain rs where rs: "try_map (\<lambda>(t, x). translate res types x (pointer_of (ts @ [t])) []) (children v) = Ok rs"
      "v' = rebuild v (map fst rs)" "ps = concat (map snd rs)"
      unfolding translate_children [OF False] by (auto simp: rbind_eq_Inr)
    have len: "length (map fst rs) = length (children v)" using try_map_length [OF rs(1)] by simp
    show ?thesis
      unfolding rs(2,3) doc_strings_children [OF False] doc_strings_children [OF children_rebuild(2) [OF False len]]
        children_rebuild(1) [OF False len]
      by (rule translate_parts [OF json(1) rs(1)])
  qed
qed

text \<open>Translation changes strings only.\<close>

fun shape :: "json \<Rightarrow> json" where
  "shape (JStr _) = JStr []"
| "shape (JArr items) = JArr (map shape items)"
| "shape (JObj es) = JObj (map (\<lambda>(k, x). (k, shape x)) es)"
| "shape v = v"

lemma shape_null [simp]: "shape v = JNull \<longleftrightarrow> v = JNull"
  by (cases v) simp_all

lemma tokens_get_shape: "tokens_get ts (shape v) = map_option shape (tokens_get ts v)"
proof (induction ts arbitrary: v)
  case (Cons t ts)
  show ?case
  proof (cases v)
    case (JArr xs)
    then show ?thesis by (cases "pointer_index t") (simp_all add: Cons.IH)
  next
    case (JObj es)
    have "map_of (map (\<lambda>(k, x). (k, shape x)) es) t = map_option shape (map_of es t)" by (simp add: map_of_map)
    then show ?thesis by (cases "map_of es t") (simp_all add: JObj Cons.IH)
  qed simp_all
qed simp

lemma shape_rebuild:
  assumes "\<not> is_string v" "length vs = length (children v)" "\<forall>i < length vs. shape (vs ! i) = shape (snd (children v ! i))"
  shows "shape (rebuild v vs) = shape v"
proof (cases v)
  case (JArr items)
  with assms(2,3) show ?thesis by (simp add: list_eq_iff_nth_eq nth_enumerate_eq)
next
  case (JObj es)
  with assms(2,3) show ?thesis by (simp add: list_eq_iff_nth_eq split_def)
qed (use assms(1) in simp_all)

lemma translate_shape: "translate res types v (pointer_of ts) [] = Ok (v', ps) \<Longrightarrow> shape v' = shape v"
proof (induction v arbitrary: v' ps ts rule: json_children_induct)
  case (json v)
  show ?case
  proof (cases "is_string v")
    case True
    then obtain s where "v = JStr s" by (cases v) auto
    with json(2) show ?thesis by (auto simp: rbind_eq_Inr)
  next
    case False
    from json(2) obtain rs where rs: "try_map (\<lambda>(t, x). translate res types x (pointer_of (ts @ [t])) []) (children v) = Ok rs"
      "v' = rebuild v (map fst rs)" unfolding translate_children [OF False] by (auto simp: rbind_eq_Inr)
    have all: "length rs = length (children v)" "\<And>i. i < length rs \<Longrightarrow>
        (case children v ! i of (t, x) \<Rightarrow> translate res types x (pointer_of (ts @ [t])) []) = Ok (rs ! i)"
      using rs(1) by (simp_all add: try_map_Inr_iff list_all2_conv_all_nth)
    have "shape (map fst rs ! i) = shape (snd (children v ! i))" if i: "i < length rs" for i
    proof -
      obtain t x where c: "children v ! i = (t, x)" by (cases "children v ! i")
      then have "(t, x) \<in> set (children v)" using i all(1) by (metis nth_mem)
      moreover have "translate res types x (pointer_of (ts @ [t])) [] = Ok (fst (rs ! i), snd (rs ! i))"
        using all(2) [OF i] c by simp
      ultimately have "shape (fst (rs ! i)) = shape x" by (rule json(1))
      with i c show ?thesis by simp
    qed
    with all(1) show ?thesis unfolding rs(2) by (intro shape_rebuild [OF False]) simp_all
  qed
qed

section \<open>Secrets reach secret sinks only\<close>

definition secret_reference ::
  "resource_request index_map \<Rightarrow> resource_type list \<Rightarrow> raw_placeholder \<Rightarrow> bool" where
  "secret_reference res types p \<longleftrightarrow> rp_root p = ''resources'' \<and>
     (\<exists>key out rest r ty. reference_of p = Ok (key, out, rest) \<and> map_of res key = Some r \<and>
        find (\<lambda>t. rt_id t = rs_ty r) types = Some ty \<and> output_kind_of ty out = Some OSecret)"

definition has_secret :: "resource_request index_map \<Rightarrow> resource_type list \<Rightarrow> string \<Rightarrow> bool" where
  "has_secret res types s \<longleftrightarrow> (\<exists>parts p. Template_parse s = Ok parts \<and> Placeholder p \<in> set parts \<and> secret_reference res types p)"

lemma translate_reference_secret:
  "translate_resource_placeholder p res types = Ok (text, sec) \<Longrightarrow> rp_root p = ''resources'' \<Longrightarrow>
     sec \<longleftrightarrow> secret_reference res types p"
  by (auto simp: translate_resource_placeholder_def secret_reference_def output_kind_at_def rbind_eq_Inr
      split: if_splits option.splits)

lemma translate_parts_secret:
  "try_fold (translate_part res types) parts (out, secret) = Ok (out', secret') \<Longrightarrow>
     secret' \<noteq> None \<longleftrightarrow> secret \<noteq> None \<or> (\<exists>p. Placeholder p \<in> set parts \<and> secret_reference res types p)"
proof (induction parts arbitrary: out secret)
  case (Cons part parts)
  from Cons.prems obtain o2 s2 where step: "translate_part res types part (out, secret) = Ok (o2, s2)"
    and rest: "try_fold (translate_part res types) parts (o2, s2) = Ok (out', secret')" by (auto simp: rbind_eq_Inr)
  have "s2 \<noteq> None \<longleftrightarrow> secret \<noteq> None \<or> (\<exists>p. part = Placeholder p \<and> secret_reference res types p)"
  proof (cases part)
    case (Literal l)
    with step show ?thesis by (simp add: translate_part_def)
  next
    case (Placeholder p)
    show ?thesis
    proof (cases "rp_root p = ''resources''")
      case True
      with step Placeholder obtain tx sec where t: "translate_resource_placeholder p res types = Ok (tx, sec)"
        "s2 = (if sec \<and> secret = None then Some (rp_text p) else secret)"
        by (auto simp: translate_part_def rbind_eq_Inr)
      from translate_reference_secret [OF t(1) True] t(2) Placeholder show ?thesis by (cases secret) auto
    qed (use step Placeholder in \<open>simp add: translate_part_def secret_reference_def\<close>)
  qed
  with Cons.IH [OF rest] show ?case by auto
qed simp

lemma translate_string_secret:
  assumes "translate_string s q res types [] = Ok (out, ps)"
  shows "ps = (if has_secret res types s then [q] else []) \<and> (has_secret res types s \<longrightarrow> is_secret_sink q)"
proof -
  from assms obtain parts where parts: "Template_parse s = Ok parts"
    by (auto simp: translate_string_def parse_at_def Let_def rbind_eq_Inr)
  then have has: "has_secret res types s \<longleftrightarrow> (\<exists>p. Placeholder p \<in> set parts \<and> secret_reference res types p)"
    by (simp add: has_secret_def)
  show ?thesis
  proof (cases "Template_is_literal parts")
    case True
    then have "\<not> has_secret res types s" unfolding has by (auto simp: Template_is_literal_def list_all_iff)
    with assms parts True show ?thesis by (simp add: translate_string_def parse_at_def)
  next
    case False
    with assms parts obtain r where "try_fold (translate_part res types) parts ([], None) = Ok r"
      by (auto simp: translate_string_def parse_at_def Let_def rbind_eq_Inr)
    then obtain o2 secret where f: "try_fold (translate_part res types) parts ([], None) = Ok (o2, secret)" by (cases r) simp
    note sec = translate_parts_secret [OF f, simplified]
    show ?thesis
    proof (cases secret)
      case None
      with assms parts False f have "ps = []" by (simp add: translate_string_def parse_at_def)
      with sec None has show ?thesis by auto
    next
      case (Some ph)
      with assms parts False f have "is_secret_sink q" "ps = [q]"
        by (simp_all add: translate_string_def parse_at_def fail_if_def Let_def split: if_splits)
      with sec Some has show ?thesis by simp
    qed
  qed
qed

text \<open>Where secrets may go: container and function variables, and container file content.\<close>

fun secret_place :: "string list \<Rightarrow> bool" where
  "secret_place [a, _, b, _] \<longleftrightarrow> a = ''containers'' \<and> b = ''variables''"
| "secret_place [a, _, b, _, c] \<longleftrightarrow> a = ''containers'' \<and> b = ''files'' \<and> c = ''content''"
| "secret_place [a, b, _] \<longleftrightarrow> a = ''function'' \<and> b = ''variables''"
| "secret_place _ \<longleftrightarrow> False"

lemma escape_pointer_inject [simp]: "escape_pointer s = escape_pointer t \<longleftrightarrow> s = t"
  by (metis unescape_escape)

lemma escape_pointer_eq:
  "escape_pointer t = ''containers'' \<longleftrightarrow> t = ''containers''" "escape_pointer t = ''variables'' \<longleftrightarrow> t = ''variables''"
  "escape_pointer t = ''files'' \<longleftrightarrow> t = ''files''" "escape_pointer t = ''content'' \<longleftrightarrow> t = ''content''"
  "escape_pointer t = ''function'' \<longleftrightarrow> t = ''function''"
  using escape_pointer_inject [of t "''containers''"] escape_pointer_inject [of t "''variables''"]
    escape_pointer_inject [of t "''files''"] escape_pointer_inject [of t "''content''"]
    escape_pointer_inject [of t "''function''"] by simp_all

lemma trim_pointer: "t \<noteq> [] \<Longrightarrow> dropWhile (\<lambda>c. c = CHR ''/'') (pointer_of (t # ts)) = escape_pointer t @ pointer_of ts"
  by (cases t) auto

lemma is_secret_sink_place:
  assumes "t \<noteq> []"
  shows "is_secret_sink (pointer_of (t # ts)) \<longleftrightarrow> secret_place (t # ts)"
proof -
  have "split_on (CHR ''/'') (dropWhile (\<lambda>c. c = CHR ''/'') (pointer_of (t # ts))) = map escape_pointer (t # ts)"
    unfolding trim_pointer [OF assms] split_on_pointer_of
    by (simp add: split_on_no_sep escape_pointer_no_slash)
  then show ?thesis unfolding is_secret_sink_def
    by (cases "t # ts" rule: secret_place.cases) (simp_all add: escape_pointer_eq)
qed

section \<open>Content that is set aside\<close>

lemma digit_char: "is_ascii_digit c \<Longrightarrow> digit (byte c - 48) = c"
  by (auto simp: is_ascii_digit_def digit_def)

lemma dec_digits_val:
  "t \<noteq> [] \<Longrightarrow> list_all is_ascii_digit t \<Longrightarrow> hd t \<noteq> CHR ''0'' \<or> length t = 1 \<Longrightarrow> dec (digits_val t) = t"
proof (induction t rule: rev_induct)
  case (snoc c s)
  have c: "byte c - 48 < 10" "is_ascii_digit c" using snoc.prems(2) by (auto simp: is_ascii_digit_def)
  show ?case
  proof (cases "s = []")
    case True
    then show ?thesis using c by (simp add: digits_val_def dec.simps digit_char)
  next
    case False
    then have h: "hd s \<noteq> CHR ''0''" using snoc.prems(3) by (auto simp: length_Suc_conv)
    then have s: "dec (digits_val s) = s" using snoc False by simp
    have "digits_val s \<noteq> 0"
    proof
      assume "digits_val s = 0"
      with s have "s = dec 0" by simp
      moreover have "dec 0 = ''0''" by code_simp
      ultimately show False using h by simp
    qed
    then show ?thesis using c s by (simp add: dec.simps [of "10 * digits_val s + (byte c - 48)"] digit_char)
  qed
qed simp

lemma pointer_index_dec: "pointer_index t = Some i \<Longrightarrow> t = dec i"
proof -
  assume t: "pointer_index t = Some i"
  then have p: "parse_usize t = Some i" "\<not> prefix ''+'' t" "prefix ''0'' t \<longrightarrow> length t = 1"
    by (auto simp: pointer_index_def split: if_splits)
  from p(2) have "strip_plus t = t" by (cases t) (auto simp: strip_plus_def)
  with p(1) have "t \<noteq> []" "list_all is_ascii_digit t" "digits_val t = i"
    by (auto simp: parse_usize_def Let_def split: if_splits)
  moreover from this p(3) have "hd t \<noteq> CHR ''0'' \<or> length t = 1" by (cases t) auto
  ultimately show "t = dec i" using dec_digits_val by metis
qed

lemma tokens_get_put_parallel: "ts \<parallel> us \<Longrightarrow> tokens_get us (tokens_put ts x v) = tokens_get us v"
proof (induction ts arbitrary: us v)
  case (Cons t ts)
  then obtain u us' where us: "us = u # us'" by (cases us) auto
  then have tail: "t = u \<Longrightarrow> ts \<parallel> us'" using Cons.prems by (auto simp: parallel_def)
  show ?case
  proof (cases v)
    case (JArr xs)
    show ?thesis
    proof (cases "pointer_index t = pointer_index u")
      case True
      then have "t = u \<or> pointer_index u = None" using pointer_index_dec by (cases "pointer_index u") auto
      with tail True show ?thesis by (cases "pointer_index u") (auto simp: JArr us Cons.IH)
    next
      case False
      then show ?thesis by (cases "pointer_index t"; cases "pointer_index u") (auto simp: JArr us)
    qed
  next
    case (JObj es)
    show ?thesis
    proof (cases "t = u")
      case True
      with tail show ?thesis by (cases "map_of es u") (simp_all add: JObj us map_of_obj_update Cons.IH)
    qed (simp add: JObj us map_of_obj_update)
  qed (simp_all add: us)
qed simp

text \<open>Setting aside replaces the values by \<open>null\<close> and keeps them; putting back restores them.\<close>

lemma pointer_get_of [simp]: "pointer_get (pointer_of ts) v = tokens_get ts v"
  by (simp add: pointer_get_def)

lemma pointer_put_of [simp]: "pointer_put (pointer_of ts) x v = tokens_put ts x v"
  by (simp add: pointer_put_def)

lemma set_aside_other:
  "\<forall>us \<in> set tss. us \<parallel> ts \<Longrightarrow> tokens_get ts (fst (set_aside v (map pointer_of tss))) = tokens_get ts v"
  by (induction tss arbitrary: v) (auto simp: tokens_get_put_parallel split_def Let_def split: option.splits)

definition separate :: "string list list \<Rightarrow> bool" where
  "separate tss \<longleftrightarrow> sorted_wrt parallel tss"

lemma separate_distinct: "distinct tss \<Longrightarrow> \<forall>ts \<in> set tss. length ts = n \<Longrightarrow> separate tss"
  unfolding separate_def by (induction tss) (auto intro: not_equal_is_parallel)

lemma set_aside_kept:
  "separate tss \<Longrightarrow> \<forall>ts \<in> set tss. tokens_get ts v \<noteq> None \<Longrightarrow>
     snd (set_aside v (map pointer_of tss)) = map (\<lambda>ts. (pointer_of ts, the (tokens_get ts v))) tss"
proof (induction tss arbitrary: v)
  case (Cons ts tss)
  have get: "tokens_get us (tokens_put ts JNull v) = tokens_get us v" if "us \<in> set tss" for us
    using Cons.prems(1) that by (simp add: separate_def tokens_get_put_parallel)
  have "separate tss" using Cons.prems(1) by (simp add: separate_def)
  with Cons.IH [of "tokens_put ts JNull v"] Cons.prems(2) get show ?case by (auto simp: split_def)
qed simp

lemma set_aside_null:
  "separate tss \<Longrightarrow> \<forall>ts \<in> set tss. tokens_get ts v \<noteq> None \<Longrightarrow> ts \<in> set tss \<Longrightarrow>
     tokens_get ts (fst (set_aside v (map pointer_of tss))) = Some JNull"
proof (induction tss arbitrary: v)
  case (Cons us tss)
  have get: "tokens_get us' (tokens_put us JNull v) = tokens_get us' v" if "us' \<in> set tss" for us'
    using Cons.prems(1) that by (simp add: separate_def tokens_get_put_parallel)
  have sep: "separate tss" "\<forall>us' \<in> set tss. us' \<parallel> us" using Cons.prems(1) by (auto simp: separate_def)
  have eq: "fst (set_aside v (map pointer_of (us # tss))) = fst (set_aside (tokens_put us JNull v) (map pointer_of tss))"
    using Cons.prems(2) by (auto simp: split_def Let_def)
  show ?case
  proof (cases "ts = us")
    case True
    then show ?thesis unfolding eq using set_aside_other [OF sep(2)] tokens_get_put [of us v] Cons.prems(2) by simp
  next
    case False
    with Cons.prems(3) have "ts \<in> set tss" by simp
    then show ?thesis unfolding eq using Cons.IH [OF sep(1)] get Cons.prems(2) by simp
  qed
qed simp

lemma put_back_all:
  assumes "separate tss" "\<forall>ts \<in> set tss. tokens_get ts v \<noteq> None"
  shows "\<exists>v'. try_fold put_back (map (\<lambda>ts. (pointer_of ts, c ts)) tss) v = Ok v' \<and>
    (\<forall>ts \<in> set tss. tokens_get ts v' = Some (c ts)) \<and> (\<forall>us. (\<forall>ts \<in> set tss. ts \<parallel> us) \<longrightarrow> tokens_get us v' = tokens_get us v)"
  using assms
proof (induction tss arbitrary: v)
  case (Cons ts tss)
  let ?v = "tokens_put ts (c ts) v"
  have get: "tokens_get us ?v = tokens_get us v" if "us \<in> set tss" for us
    using Cons.prems(1) that by (simp add: separate_def tokens_get_put_parallel)
  have sep: "separate tss" "\<forall>us \<in> set tss. us \<parallel> ts" using Cons.prems(1) by (auto simp: separate_def)
  have "\<forall>us \<in> set tss. tokens_get us ?v \<noteq> None" using get Cons.prems(2) by simp
  from Cons.IH [OF sep(1) this] obtain v' where v': "try_fold put_back (map (\<lambda>ts. (pointer_of ts, c ts)) tss) ?v = Ok v'"
    "\<forall>us \<in> set tss. tokens_get us v' = Some (c us)"
    "\<forall>us. (\<forall>ts \<in> set tss. ts \<parallel> us) \<longrightarrow> tokens_get us v' = tokens_get us ?v" by blast
  have "put_back (pointer_of ts, c ts) v = Ok ?v" using Cons.prems(2) by (simp add: put_back_def)
  moreover have "tokens_get ts v' = Some (c ts)" using v'(3) sep(2) tokens_get_put [of ts v] Cons.prems(2) by simp
  moreover have "tokens_get us v' = tokens_get us v" if "\<forall>x \<in> set (ts # tss). x \<parallel> us" for us
    using that v'(3) by (simp add: tokens_get_put_parallel)
  ultimately show ?case using v'(1,2) by simp
qed simp

section \<open>The converted module\<close>

text \<open>An \<open>IndexMap\<close> has distinct keys.\<close>

definition index_maps_ok :: "workload \<Rightarrow> bool" where
  "index_maps_ok w \<longleftrightarrow> (\<forall>cs. wl_containers w = Some cs \<longrightarrow> distinct (map fst cs) \<and>
     (\<forall>(cid, c) \<in> set cs. distinct (map fst (ct_files c))))"

definition literal_file :: "mounted_file \<Rightarrow> bool" where
  "literal_file f \<longleftrightarrow> fl_no_expand f = Some True \<and> fl_content f \<noteq> None"

definition content_tokens :: "string \<Rightarrow> string \<Rightarrow> string list" where
  "content_tokens cid target = [''containers'', cid, ''files'', target, ''content'']"

definition no_expand_tokens :: "workload \<Rightarrow> string list list" where
  "no_expand_tokens w = concat (map (\<lambda>(cid, c). map (\<lambda>(target, f). content_tokens cid target)
     (filter (\<lambda>(target, f). literal_file f) (ct_files c))) (case_option [] id (wl_containers w)))"

lemma no_expand_pointers_of: "no_expand_pointers w [] = map pointer_of (no_expand_tokens w)"
proof -
  have "file_pointers [] cid files =
      map (pointer_of \<circ> (\<lambda>(target, f). content_tokens cid target)) (filter (\<lambda>(target, f). literal_file f) files)" for cid files
  proof -
    have ptr: "pointer_of (content_tokens cid target) =
        ''/containers/'' @ escape_pointer cid @ ''/files/'' @ escape_pointer target @ ''/content''" for target
      by (simp add: content_tokens_def)
    have "file_pointers [] cid files = List.map_filter (\<lambda>(target, f).
        if literal_file f then Some (pointer_of (content_tokens cid target)) else None) files"
      unfolding file_pointers_def literal_file_def ptr by (simp only: append_Nil)
    also have "\<dots> = map (pointer_of \<circ> (\<lambda>(target, f). content_tokens cid target)) (filter (\<lambda>(target, f). literal_file f) files)"
      by (induction files) (simp_all add: map_filter_simps split_def)
    finally show ?thesis .
  qed
  then show ?thesis by (simp add: no_expand_pointers_def no_expand_tokens_def map_concat comp_def split_def)
qed

lemma in_no_expand_tokens:
  "ts \<in> set (no_expand_tokens w) \<longleftrightarrow> (\<exists>cs cid c target f. wl_containers w = Some cs \<and> (cid, c) \<in> set cs \<and>
     (target, f) \<in> set (ct_files c) \<and> literal_file f \<and> ts = content_tokens cid target)"
  by (cases "wl_containers w") (force simp: no_expand_tokens_def)+

lemma separate_no_expand:
  assumes "index_maps_ok w"
  shows "separate (no_expand_tokens w)"
proof (rule separate_distinct)
  have "distinct (concat (map (\<lambda>(cid, c). map (\<lambda>(target, f). content_tokens cid target)
      (filter (\<lambda>(target, f). literal_file f) (ct_files c))) cs))"
    if "distinct (map fst cs)" "\<forall>(cid, c) \<in> set cs. distinct (map fst (ct_files c))" for cs
    using that
  proof (induction cs)
    case (Cons e cs)
    obtain cid c where e: "e = (cid, c)" by (cases e)
    have "distinct (map (\<lambda>(target, f). content_tokens cid target) (filter (\<lambda>(target, f). literal_file f) (ct_files c)))"
    proof -
      have "distinct (map (content_tokens cid) (map fst (filter (\<lambda>(target, f). literal_file f) (ct_files c))))"
        unfolding distinct_map [of "content_tokens cid"] using Cons.prems(2)
        by (simp add: e distinct_map_filter inj_on_def content_tokens_def)
      then show ?thesis by (simp add: comp_def split_def)
    qed
    moreover have "cid \<notin> fst ` set cs" using Cons.prems(1) by (simp add: e)
    ultimately show ?case using Cons by (auto simp: e content_tokens_def intro: rev_image_eqI)
  qed simp
  from this [of "case_option [] id (wl_containers w)"] show "distinct (no_expand_tokens w)"
    using assms unfolding no_expand_tokens_def index_maps_ok_def by (cases "wl_containers w") simp_all
  show "\<forall>ts \<in> set (no_expand_tokens w). length ts = 5" by (auto simp: in_no_expand_tokens content_tokens_def)
qed

lemma map_of_fields [simp]:
  "map_of (opt_field k f x @ ys) l = (if l = k \<and> x \<noteq> None then map_option f x else map_of ys l)"
  "map_of (some_field k g xs @ ys) l = (if l = k \<and> xs \<noteq> [] then Some (g xs) else map_of ys l)"
  by (cases x) (auto simp: opt_field_def some_field_def)

lemma map_of_field_last [simp]:
  "map_of (opt_field k f x) l = (if l = k then map_option f x else None)"
  "map_of (some_field k g xs) l = (if l = k \<and> xs \<noteq> [] then Some (g xs) else None)"
  by (cases x) (auto simp: opt_field_def some_field_def)

lemma content_in_spec:
  assumes "index_maps_ok w" "wl_containers w = Some cs" "(cid, c) \<in> set cs" "(target, f) \<in> set (ct_files c)"
  shows "tokens_get (content_tokens cid target) (JObj (module_spec w)) = map_option JStr (fl_content f)"
proof -
  have c: "map_of cs cid = Some c" and f: "map_of (ct_files c) target = Some f"
    using assms by (auto simp: index_maps_ok_def intro!: map_of_is_SomeI)
  have "ct_files c \<noteq> []" using assms(4) by auto
  with c f assms(2) show ?thesis
    by (cases "fl_content f") (simp_all add: content_tokens_def module_spec_def container_value_def file_value_def map_value_def map_of_map
        del: map_of_append)
qed

text \<open>The document that is translated, and how conversion ends.\<close>

definition open_spec :: "workload \<Rightarrow> json" where
  "open_spec w = fst (set_aside (JObj (module_spec w)) (no_expand_pointers w []))"

lemma content_kept:
  assumes "index_maps_ok w" "ts \<in> set (no_expand_tokens w)"
  shows "tokens_get ts (JObj (module_spec w)) \<noteq> None"
  using assms content_in_spec by (auto simp: in_no_expand_tokens literal_file_def)

lemma translate_object_result:
  "translate res types (JObj es) q paths = Ok (v, ps) \<Longrightarrow> \<exists>es'. v = JObj es'"
  by (auto simp: rbind_eq_Inr)

lemma set_aside_object:
  "\<forall>ts \<in> set tss. ts \<noteq> [] \<Longrightarrow> \<exists>es'. fst (set_aside (JObj es) (map pointer_of tss)) = JObj es' \<and> map fst es' = map fst es"
proof (induction tss arbitrary: es)
  case (Cons ts tss)
  then obtain t us where ts: "ts = t # us" by (cases ts) auto
  have IH: "\<exists>es'. fst (set_aside (JObj es) (map pointer_of tss)) = JObj es' \<and> map fst es' = map fst es" for es
    by (rule Cons.IH) (use Cons.prems in simp)
  show ?case using IH [of es] IH [of "obj_update t (tokens_put us JNull) es"]
    by (cases "tokens_get ts (JObj es)") (simp_all add: ts split_def Let_def del: pointer_of_simps)
qed simp

lemma put_back_object:
  assumes "try_fold put_back (map (\<lambda>ts. (pointer_of ts, c ts)) tss) (JObj es) = Ok v" "\<forall>ts \<in> set tss. ts \<noteq> []"
  shows "\<exists>es'. v = JObj es'"
proof (rule try_fold_invariant [where I = "\<lambda>v. \<exists>es'. v = JObj es'", OF assms(1)])
  fix x s t assume x: "x \<in> set (map (\<lambda>ts. (pointer_of ts, c ts)) tss)" "\<exists>es'. s = JObj es'" "put_back x s = Ok t"
  then obtain ts where ts: "ts \<in> set tss" "x = (pointer_of ts, c ts)" by auto
  with assms(2) obtain u us where "ts = u # us" by (cases ts) auto
  with x ts(2) show "\<exists>es'. t = JObj es'" by (auto simp: put_back_def simp del: pointer_of_simps split: if_splits)
qed simp

lemma to_module_Err:
  assumes "translate (wl_resources w) types (open_spec w) [] [] = Err e"
  shows "to_module w types = Err (Invalid e)"
  using assms by (simp add: to_module_def open_spec_def split_def)

lemma to_module_Ok:
  assumes w: "index_maps_ok w" and t: "translate (wl_resources w) types (open_spec w) [] [] = Ok (spec, paths)"
  shows "\<exists>es. to_module w types = Ok \<lparr>cw_id = md_name (wl_metadata w),
      cw_module = \<lparr>mo_class = Workload_class w, mo_spec = es, mo_externals = module_externals w\<rparr>, cw_secret_paths = paths\<rparr>
    \<and> (\<forall>ts \<in> set (no_expand_tokens w). tokens_get ts (JObj es) = tokens_get ts (JObj (module_spec w)))
    \<and> (\<forall>us. (\<forall>ts \<in> set (no_expand_tokens w). ts \<parallel> us) \<longrightarrow> tokens_get us (JObj es) = tokens_get us spec)"
proof -
  let ?tss = "no_expand_tokens w" and ?c = "\<lambda>ts. the (tokens_get ts (JObj (module_spec w)))"
  note sep = separate_no_expand [OF w]
  have some: "\<forall>ts \<in> set ?tss. tokens_get ts (JObj (module_spec w)) \<noteq> None" using content_kept [OF w] by blast
  have ne: "\<forall>ts \<in> set ?tss. ts \<noteq> []" by (auto simp: in_no_expand_tokens content_tokens_def)
  have kept: "snd (set_aside (JObj (module_spec w)) (no_expand_pointers w [])) = map (\<lambda>ts. (pointer_of ts, ?c ts)) ?tss"
    unfolding no_expand_pointers_of by (rule set_aside_kept [OF sep some])
  have sa: "set_aside (JObj (module_spec w)) (no_expand_pointers w []) = (open_spec w, map (\<lambda>ts. (pointer_of ts, ?c ts)) ?tss)"
    unfolding open_spec_def kept [symmetric] by (rule prod.collapse [symmetric])
  have "tokens_get ts spec \<noteq> None" if "ts \<in> set ?tss" for ts
  proof -
    have "tokens_get ts (open_spec w) = Some JNull"
      unfolding open_spec_def no_expand_pointers_of by (rule set_aside_null [OF sep some that])
    moreover have "shape spec = shape (open_spec w)" using translate_shape [of _ _ _ "[]"] t by simp
    ultimately show ?thesis using tokens_get_shape [of ts spec] tokens_get_shape [of ts "open_spec w"]
      by (cases "tokens_get ts spec") auto
  qed
  then have here: "\<forall>ts \<in> set ?tss. tokens_get ts spec \<noteq> None" ..
  obtain v where v:
    "try_fold put_back (map (\<lambda>ts. (pointer_of ts, ?c ts)) ?tss) spec = Ok v"
    "\<forall>ts \<in> set ?tss. tokens_get ts v = Some (?c ts)"
    "\<forall>us. (\<forall>ts \<in> set ?tss. ts \<parallel> us) \<longrightarrow> tokens_get us v = tokens_get us spec"
    using put_back_all [OF sep here, of ?c] by (elim exE conjE)
  obtain es0 where "open_spec w = JObj es0"
    unfolding open_spec_def no_expand_pointers_of using set_aside_object [OF ne, of "module_spec w"] by (elim exE conjE)
  then have "translate (wl_resources w) types (JObj es0) [] [] = Ok (spec, paths)" using t by (simp only:)
  from translate_object_result [OF this] obtain es1 where "spec = JObj es1" by (elim exE)
  then have "try_fold put_back (map (\<lambda>ts. (pointer_of ts, ?c ts)) ?tss) (JObj es1) = Ok v" using v(1) by (simp only:)
  from put_back_object [OF this ne] obtain es where es: "v = JObj es" by (elim exE)
  have "to_module w types = Ok \<lparr>cw_id = md_name (wl_metadata w),
      cw_module = \<lparr>mo_class = Workload_class w, mo_spec = es, mo_externals = module_externals w\<rparr>, cw_secret_paths = paths\<rparr>"
    unfolding to_module_def Let_def sa prod.case t map_err_simps rbind_simps v(1) es json.case ..
  moreover have "\<forall>ts \<in> set ?tss. tokens_get ts (JObj es) = tokens_get ts (JObj (module_spec w))"
    using v(2) some es by auto
  moreover have "\<forall>us. (\<forall>ts \<in> set ?tss. ts \<parallel> us) \<longrightarrow> tokens_get us (JObj es) = tokens_get us spec"
    using v(3) unfolding es .
  ultimately show ?thesis by (intro exI [of _ es] conjI)
qed

lemma to_module_result:
  assumes "index_maps_ok w" "to_module w types = Ok c"
  obtains spec where "translate (wl_resources w) types (open_spec w) [] [] = Ok (spec, cw_secret_paths c)"
    "cw_module c = \<lparr>mo_class = Workload_class w, mo_spec = mo_spec (cw_module c), mo_externals = module_externals w\<rparr>"
    "\<forall>ts \<in> set (no_expand_tokens w). tokens_get ts (JObj (mo_spec (cw_module c))) = tokens_get ts (JObj (module_spec w))"
    "\<forall>us. (\<forall>ts \<in> set (no_expand_tokens w). ts \<parallel> us) \<longrightarrow> tokens_get us (JObj (mo_spec (cw_module c))) = tokens_get us spec"
proof (cases "translate (wl_resources w) types (open_spec w) [] []")
  case (Inl e)
  with to_module_Err assms(2) show thesis by simp
next
  case (Inr r)
  obtain spec paths where "r = (spec, paths)" by (cases r)
  with Inr have t: "translate (wl_resources w) types (open_spec w) [] [] = Ok (spec, paths)" by simp
  obtain es where es: "to_module w types = Ok \<lparr>cw_id = md_name (wl_metadata w),
      cw_module = \<lparr>mo_class = Workload_class w, mo_spec = es, mo_externals = module_externals w\<rparr>, cw_secret_paths = paths\<rparr>"
    "\<forall>ts \<in> set (no_expand_tokens w). tokens_get ts (JObj es) = tokens_get ts (JObj (module_spec w))"
    "\<forall>us. (\<forall>ts \<in> set (no_expand_tokens w). ts \<parallel> us) \<longrightarrow> tokens_get us (JObj es) = tokens_get us spec"
    using to_module_Ok [OF assms(1) t] by (elim exE conjE)
  have c: "c = \<lparr>cw_id = md_name (wl_metadata w),
      cw_module = \<lparr>mo_class = Workload_class w, mo_spec = es, mo_externals = module_externals w\<rparr>, cw_secret_paths = paths\<rparr>"
    using es(1) assms(2) by (simp only: sum.inject)
  have sel: "cw_secret_paths c = paths" "mo_spec (cw_module c) = es"
    "cw_module c = \<lparr>mo_class = Workload_class w, mo_spec = es, mo_externals = module_externals w\<rparr>"
    unfolding c by simp_all
  show thesis by (rule that [of spec, unfolded sel(1,2)]) (rule t sel(3) es(2,3))+
qed

section \<open>What translated placeholders mean\<close>

definition name_segment :: "string \<Rightarrow> segment" where
  "name_segment n =
     (if list_all (\<lambda>c. is_ascii_alphanumeric c \<or> c = CHR ''-'' \<or> c = CHR ''_'') n then SName n else SQuoted n)"

lemma segment_text_name: "segment_text n = segment_string (name_segment n)"
  by (simp add: segment_text_def name_segment_def)

lemma segment_key_name [simp]: "segment_key (name_segment n) = Some n"
  by (simp add: name_segment_def)

definition clean_name :: "string \<Rightarrow> bool" where
  "clean_name n \<longleftrightarrow> n \<noteq> [] \<and> is_utf8 n \<and> '']'' \<notin> set (utf8_chars n) \<and> CHR 0x27 \<notin> set n"

lemma alphanumeric_name_char:
  assumes "is_ascii_alphanumeric c \<or> c = CHR ''-'' \<or> c = CHR ''_''"
  shows "byte c < 128" "is_name_char [c]" "c \<noteq> CHR ''}''"
  using assms by (auto simp: ascii_defs is_name_char_def is_whitespace_def Let_def)

lemma name_segment_clean:
  assumes "clean_name n"
  shows "parsed_segment (name_segment n)" "plain_segment (name_segment n)"
proof -
  have dotted: "is_utf8 n \<and> list_all is_name_char (utf8_chars n) \<and> CHR ''}'' \<notin> set n"
    if d: "list_all (\<lambda>c. is_ascii_alphanumeric c \<or> c = CHR ''-'' \<or> c = CHR ''_'') n"
  proof -
    have "list_all (\<lambda>c. byte c < 128) n" using d alphanumeric_name_char(1) by (auto simp: list_all_iff)
    then have "utf8_chars n = map (\<lambda>c. [c]) n" "is_utf8 n" by (rule utf8_chars_ascii, rule is_utf8_ascii)
    with d alphanumeric_name_char show ?thesis by (auto simp: list_all_iff)
  qed
  show "parsed_segment (name_segment n)" "plain_segment (name_segment n)"
    using assms dotted by (auto simp: name_segment_def clean_name_def)
qed

lemma valid_object_id_clean:
  assumes "is_valid_object_id i"
  shows "clean_name i"
proof -
  have chars: "byte c < 128" "c \<noteq> CHR '']''" "c \<noteq> CHR 0x27" if "c \<in> set i" for c
    using valid_object_id_chars [OF assms that] by (auto simp: id_alnum_def ascii_defs)
  then have "list_all (\<lambda>c. byte c < 128) i" by (simp add: list_all_iff)
  then have "utf8_chars i = map (\<lambda>c. [c]) i" "is_utf8 i" by (rule utf8_chars_ascii, rule is_utf8_ascii)
  moreover have "i \<noteq> []" using valid_object_id_length [OF assms] by auto
  ultimately show ?thesis using chars by (auto simp: clean_name_def)
qed

text \<open>A root and printed segments make a placeholder that parses.\<close>

lemma printed_placeholder:
  assumes "parsed_segment (SName root)" "CHR ''}'' \<notin> set root" "list_all parsed_segment segs" "list_all plain_segment segs"
  shows "good_placeholder \<lparr>rp_text = ''${'' @ (root @ concat (map segment_string segs)) @ ''}'', rp_segments = SName root # segs\<rparr>"
  unfolding good_placeholder_def
proof (intro exI [of _ "root @ concat (map segment_string segs)"] conjI allI)
  show "parse_path (root @ concat (map segment_string segs)) =
      Ok (rp_segments \<lparr>rp_text = ''${'' @ (root @ concat (map segment_string segs)) @ ''}'', rp_segments = SName root # segs\<rparr>)"
    using parse_path_print [OF assms(1,3)] by simp
  show "find_placeholder_end ((root @ concat (map segment_string segs)) @ CHR ''}'' # r) =
      Some (length (root @ concat (map segment_string segs)))" for r
    using find_end_skip [OF parsed_name_plain [OF assms(1,2)], of 0] find_end_path [OF assms(3,4)]
    by (simp add: find_placeholder_end_def)
qed simp

definition clean_reference :: "raw_placeholder \<Rightarrow> bool" where
  "clean_reference p \<longleftrightarrow> list_all plain_segment (rp_segments p) \<and> SQuoted [] \<notin> set (rp_segments p)"

lemma clean_segment_key:
  assumes "parsed_segment s" "plain_segment s" "s \<noteq> SQuoted []" "segment_key s = Some k"
  shows "clean_name k"
proof (cases s)
  case (SName n)
  with assms have n: "parsed_segment (SName k)" "plain_segment (SName k)" by auto
  then have "set k \<inter> {CHR 0x27, CHR 0x22, CHR ''}''} = {}" by (intro parsed_name_plain) simp_all
  with n show ?thesis by (auto simp: clean_name_def list_all_iff is_name_char_def)
qed (use assms in \<open>auto simp: clean_name_def\<close>)

lemma reference_clean:
  assumes "reference_of p = Ok (key, out, rest)" "list_all parsed_segment (rp_segments p)" "clean_reference p"
  shows "clean_name key" "clean_name out" "list_all parsed_segment rest" "list_all plain_segment rest"
proof -
  from assms(1) obtain a k b where s: "rp_segments p = a # k # b # rest" "segment_key k = Some key" "segment_key b = Some out"
    by (auto simp: reference_of_def Let_def rbind_eq_Inr split: list.splits)
  with assms(2,3) show "clean_name key" "clean_name out" "list_all parsed_segment rest" "list_all plain_segment rest"
    by (auto simp: clean_reference_def intro: clean_segment_key)
qed

text \<open>The placeholder of the set that stands for a reference of the workload.\<close>

definition set_target :: "resource_request \<Rightarrow> string \<Rightarrow> string \<times> string" where
  "set_target r key = (case rs_id r of Some i \<Rightarrow> (''shared'', i) | None \<Rightarrow> (''externals'', key))"

definition set_expr :: "resource_request \<Rightarrow> string \<Rightarrow> segment list \<Rightarrow> expr" where
  "set_expr r key path = (case rs_id r of Some i \<Rightarrow> EShared i path | None \<Rightarrow> EExternals key path)"

definition set_placeholder :: "resource_request index_map \<Rightarrow> raw_placeholder \<Rightarrow> raw_placeholder" where
  "set_placeholder res p = (case reference_of p of
     Inl _ \<Rightarrow> p
   | Inr (key, out, rest) \<Rightarrow>
       (case map_of res key of
          None \<Rightarrow> p
        | Some r \<Rightarrow> \<lparr>rp_text = translated_text r key out rest,
            rp_segments = SName (fst (set_target r key)) # name_segment (snd (set_target r key)) # name_segment out # rest\<rparr>))"

fun set_part :: "resource_request index_map \<Rightarrow> part \<Rightarrow> part" where
  "set_part res (Literal l) = Literal l"
| "set_part res (Placeholder p) = Placeholder (if rp_root p = ''resources'' then set_placeholder res p else p)"

definition ids_ok :: "resource_request index_map \<Rightarrow> bool" where
  "ids_ok res \<longleftrightarrow> (\<forall>key r i. (key, r) \<in> set res \<and> rs_id r = Some i \<longrightarrow> is_valid_object_id i)"

lemma root_names:
  "parsed_segment (SName ''shared'')" "parsed_segment (SName ''externals'')"
  "CHR ''}'' \<notin> set ''shared''" "CHR ''}'' \<notin> set ''externals''"
  using name_segment_clean(1) [of "''shared''"] name_segment_clean(1) [of "''externals''"]
  by (simp_all add: name_segment_def ascii_defs clean_name_def is_utf8_ascii utf8_chars_ascii)

lemma set_placeholder_good:
  assumes "ids_ok res" "list_all parsed_segment (rp_segments p)" "clean_reference p"
    "reference_of p = Ok (key, out, rest)" "map_of res key = Some r"
  shows "good_placeholder (set_placeholder res p)"
    "Expr_interpret (set_placeholder res p) DSet = Ok (set_expr r key (name_segment out # rest))"
    "rp_text (set_placeholder res p) = translated_text r key out rest"
proof -
  note c = reference_clean [OF assms(4,2,3)]
  have name: "clean_name (snd (set_target r key))"
    using c(1) assms(1) map_of_SomeD [OF assms(5)] valid_object_id_clean
    by (auto simp: set_target_def ids_ok_def split: option.splits)
  let ?segs = "name_segment (snd (set_target r key)) # name_segment out # rest"
  have eq: "set_placeholder res p =
      \<lparr>rp_text = ''${'' @ (fst (set_target r key) @ concat (map segment_string ?segs)) @ ''}'', rp_segments = SName (fst (set_target r key)) # ?segs\<rparr>"
    using assms(4,5) by (simp add: set_placeholder_def translated_text_def segment_text_name set_target_def split: option.splits)
  show "good_placeholder (set_placeholder res p)" unfolding eq
    by (rule printed_placeholder) (use root_names name c name_segment_clean in \<open>auto simp: set_target_def split: option.splits\<close>)
  show "Expr_interpret (set_placeholder res p) DSet = Ok (set_expr r key (name_segment out # rest))"
    unfolding eq by (simp add: Expr_interpret_def rp_root_def second_key_def set_target_def set_expr_def split: option.splits)
  show "rp_text (set_placeholder res p) = translated_text r key out rest"
    using assms(4,5) by (simp add: set_placeholder_def)
qed

lemma translate_reference_Ok:
  assumes "translate_resource_placeholder p res types = Ok (tx, sec)"
  obtains key out rest r where "reference_of p = Ok (key, out, rest)" "map_of res key = Some r"
    "tx = translated_text r key out rest"
  using assms by (auto simp: translate_resource_placeholder_def rbind_eq_Inr split: if_splits)

lemma set_placeholder_text:
  "translate_resource_placeholder p res types = Ok (tx, sec) \<Longrightarrow> rp_text (set_placeholder res p) = tx"
  by (erule translate_reference_Ok) (simp add: set_placeholder_def)

lemma translate_string_fold:
  assumes "translate_string s q res types paths = Ok (out, ps)" "Template_parse s = Ok parts" "\<not> Template_is_literal parts"
  shows "\<exists>secret. try_fold (translate_part res types) parts ([], None) = Ok (out, secret)"
proof -
  from assms obtain r where "try_fold (translate_part res types) parts ([], None) = Ok r"
    by (auto simp: translate_string_def parse_at_def Let_def rbind_eq_Inr)
  then obtain o2 secret where f: "try_fold (translate_part res types) parts ([], None) = Ok (o2, secret)" by (cases r) simp
  with assms have "o2 = out"
    by (cases secret) (simp_all add: translate_string_def parse_at_def fail_if_def Let_def split: if_splits)
  with f show ?thesis by simp
qed

lemma translate_parts_text:
  "try_fold (translate_part res types) parts (out, secret) = Ok (out', secret') \<Longrightarrow>
     out' = out @ unparse (map (set_part res) parts) \<and>
     (\<forall>p. Placeholder p \<in> set parts \<and> rp_root p = ''resources'' \<longrightarrow> is_ok (translate_resource_placeholder p res types))"
proof (induction parts arbitrary: out secret)
  case (Cons part parts)
  from Cons.prems obtain o2 s2 where step: "translate_part res types part (out, secret) = Ok (o2, s2)"
    and rest: "try_fold (translate_part res types) parts (o2, s2) = Ok (out', secret')" by (auto simp: rbind_eq_Inr)
  have "o2 = out @ unparse_part (set_part res part) \<and>
      (\<forall>p. part = Placeholder p \<and> rp_root p = ''resources'' \<longrightarrow> is_ok (translate_resource_placeholder p res types))"
  proof (cases part)
    case (Literal l)
    with step show ?thesis by (simp add: translate_part_def escape_literal_def)
  next
    case (Placeholder p)
    show ?thesis
    proof (cases "rp_root p = ''resources''")
      case True
      with step Placeholder obtain tx sec where "translate_resource_placeholder p res types = Ok (tx, sec)" "o2 = out @ tx"
        by (auto simp: translate_part_def rbind_eq_Inr)
      with set_placeholder_text True Placeholder show ?thesis by simp
    qed (use step Placeholder in \<open>simp add: translate_part_def\<close>)
  qed
  with Cons.IH [OF rest] show ?case by auto
qed simp

lemma good_parts_set:
  "good_parts parts \<Longrightarrow>
   \<forall>p. Placeholder p \<in> set parts \<and> rp_root p = ''resources'' \<longrightarrow> good_placeholder (set_placeholder res p) \<Longrightarrow>
   good_parts (map (set_part res) parts)"
proof (induction parts rule: good_parts.induct)
  case (3 l ps)
  have "map (set_part res) ps = [] \<or> \<not> is_literal_part (hd (map (set_part res) ps))"
  proof (cases ps)
    case (Cons q qs)
    with 3(2) obtain p where "q = Placeholder p" by (cases q) auto
    then show ?thesis by (simp add: Cons)
  qed simp
  with 3 show ?case by simp
qed auto

text \<open>The string that translation gives, and its placeholders.\<close>

lemma translate_string_template:
  assumes t: "translate_string s q res types paths = Ok (s', paths')" and utf8: "is_utf8 s" and ids: "ids_ok res"
    and parts: "Template_parse s = Ok parts"
    and clean: "\<forall>p. Placeholder p \<in> set parts \<and> rp_root p = ''resources'' \<longrightarrow> clean_reference p"
  shows "Template_parse s' = Ok (map (set_part res) parts)"
    and "Placeholder p \<in> set parts \<Longrightarrow> rp_root p = ''resources'' \<Longrightarrow>
      \<exists>key out rest r. reference_of p = Ok (key, out, rest) \<and> map_of res key = Some r \<and>
        Expr_interpret (set_placeholder res p) DSet = Ok (set_expr r key (name_segment out # rest))"
proof -
  have res: "\<exists>key out rest r. reference_of p = Ok (key, out, rest) \<and> map_of res key = Some r \<and> good_placeholder (set_placeholder res p) \<and>
      Expr_interpret (set_placeholder res p) DSet = Ok (set_expr r key (name_segment out # rest))"
    if "is_ok (translate_resource_placeholder p res types)" "Placeholder p \<in> set parts" "rp_root p = ''resources''" for p
  proof -
    from that(1) obtain tx sec where "translate_resource_placeholder p res types = Ok (tx, sec)" by (auto simp: is_ok_iff)
    then obtain key out rest r where r: "reference_of p = Ok (key, out, rest)" "map_of res key = Some r"
      by (rule translate_reference_Ok)
    have "list_all parsed_segment (rp_segments p)" using Template_parse_parsed [OF parts utf8 that(2)] .
    moreover have "clean_reference p" using clean that(2,3) by blast
    ultimately show ?thesis using set_placeholder_good(1,2) [OF ids _ _ r] r by blast
  qed
  show "Template_parse s' = Ok (map (set_part res) parts)"
  proof (cases "Template_is_literal parts")
    case True
    have "set_part res x = x" if "x \<in> set parts" for x
      using True that by (cases x) (auto simp: Template_is_literal_def list_all_iff)
    then have "map (set_part res) parts = parts" by (rule map_idI)
    with t parts True show ?thesis by (simp add: translate_string_def parse_at_def)
  next
    case False
    from translate_string_fold [OF t parts False] obtain sec where
      f: "try_fold (translate_part res types) parts ([], None) = Ok (s', sec)" ..
    have "good_parts (map (set_part res) parts)"
      by (rule good_parts_set [OF Template_parse_good [OF parts]]) (use translate_parts_text [OF f] res in blast)
    then show ?thesis using translate_parts_text [OF f] Template_parse_unparse by simp
  qed
  assume p: "Placeholder p \<in> set parts" "rp_root p = ''resources''"
  then have "\<not> Template_is_literal parts"
    by (auto simp: Template_is_literal_def list_all_iff intro!: bexI [of _ "Placeholder p"])
  from translate_string_fold [OF t parts this] obtain sec where
    f: "try_fold (translate_part res types) parts ([], None) = Ok (s', sec)" ..
  with p translate_parts_text [OF f] res [of p] show "\<exists>key out rest r. reference_of p = Ok (key, out, rest) \<and> map_of res key = Some r \<and>
      Expr_interpret (set_placeholder res p) DSet = Ok (set_expr r key (name_segment out # rest))" by blast
qed

section \<open>A small workload\<close>

definition sample_type :: resource_type where
  "sample_type = \<lparr>rt_id = ''postgres'', rt_name = ''Postgres'', rt_use = Direct, rt_category = ''db'',
     rt_inputs_schema = open_inputs, rt_outputs_schema = outputs [(''host'', ''string'', True)] [(''password'', True)] False\<rparr>"

definition sample_request :: resource_request where
  "sample_request = \<lparr>rs_ty = ''postgres'', rs_class = None, rs_id = None, rs_params = None, rs_metadata = None\<rparr>"

definition sample_file :: mounted_file where
  "sample_file = \<lparr>fl_mode = None, fl_source = None, fl_content = Some ''${raw'', fl_no_expand = Some True\<rparr>"

definition sample_container :: container where
  "sample_container = \<lparr>ct_image = ''x'', ct_command = None, ct_args = None,
     ct_variables = [(''P'', ''${resources.db.password}'')], ct_files = [(''f'', sample_file)],
     ct_resources = None, ct_liveness_probe = None, ct_readiness_probe = None\<rparr>"

definition sample_workload :: workload where
  "sample_workload = \<lparr>wl_api_version = API_VERSION, wl_kind = ''Workload'',
     wl_metadata = \<lparr>md_name = ''web'', md_class = None, md_annotations = []\<rparr>,
     wl_containers = Some [(''c'', sample_container)], wl_function = None, wl_service = None, wl_triggers = [],
     wl_resources = [(''db'', sample_request)], wl_deploy = None, wl_target = None\<rparr>"

definition sample_reference :: raw_placeholder where
  "sample_reference = \<lparr>rp_text = ''${resources.db.password}'',
     rp_segments = [SName ''resources'', SName ''db'', SName ''password'']\<rparr>"

lemma Template_parse_plain: "CHR ''$'' \<notin> set s \<Longrightarrow> Template_parse s = Ok (if s = [] then [] else [Literal s])"
proof -
  assume "CHR ''$'' \<notin> set s"
  then have n: "split_once (CHR ''$'') s = None" by simp
  show ?thesis unfolding Template_parse_def template_loop.simps [of s] n option.case by (simp add: push_part_def)
qed

lemma translate_string_plain:
  "CHR ''$'' \<notin> set s \<Longrightarrow> translate_string s q res types paths = Ok (s, paths)"
  by (simp add: translate_string_def parse_at_def Template_parse_plain Template_is_literal_def)

lemma sample_parse: "Template_parse ''${resources.db.password}'' = Ok [Placeholder sample_reference]"
  by (simp add: Template_parse_def template_loop.simps find_placeholder_end_def parse_path_def is_cont_def
      is_name_char_def is_whitespace_def strip_prefix_def push_part_def sample_reference_def)

lemma sample_kind: "output_kind_of sample_type ''password'' = Some OSecret"
  by (simp add: output_kind_of_def declared_def section_of_def sample_type_def outputs_def outputs_section_def)

lemma sample_translate:
  "translate_resource_placeholder sample_reference [(''db'', sample_request)] [sample_type] =
     Ok (''${externals.db.password}'', True)"
  using sample_kind
  by (simp add: translate_resource_placeholder_def reference_of_def sample_reference_def output_kind_at_def
      translated_text_def segment_text_def sample_request_def ascii_defs)
     (simp add: sample_type_def)

lemma sample_translate_string:
  "translate_string ''${resources.db.password}'' ''/containers/c/variables/P'' [(''db'', sample_request)] [sample_type] [] =
     Ok (''${externals.db.password}'', [''/containers/c/variables/P''])"
proof -
  have sink: "is_secret_sink ''/containers/c/variables/P''" by (simp add: is_secret_sink_def)
  have root: "rp_root sample_reference = ''resources''" by (simp add: rp_root_def sample_reference_def)
  show ?thesis
    by (simp add: translate_string_def parse_at_def sample_parse Template_is_literal_def translate_part_def root
        sample_translate sink fail_if_def del: replace_str.simps)
qed

definition sample_deploy :: json where
  "sample_deploy = JObj [(''status'', JStr ''available''), (''timeout'', JStr ''5m'')]"

definition sample_spec :: "string \<Rightarrow> json \<Rightarrow> json_map" where
  "sample_spec var content =
     [(''containers'', JObj [(''c'', JObj [(''image'', JStr ''x''), (''variables'', JObj [(''P'', JStr var)]),
        (''files'', JObj [(''f'', JObj [(''content'', content), (''noExpand'', JBool True)])])])]),
      (''deploy'', sample_deploy)]"

lemma sample_module_spec: "module_spec sample_workload = sample_spec ''${resources.db.password}'' (JStr ''${raw'')"
  by (simp add: module_spec_def sample_workload_def sample_spec_def sample_deploy_def opt_field_def some_field_def
      map_value_def container_value_def sample_container_def file_value_def sample_file_def effective_triggers_def
      first_port_def deploy_spec_def)

lemma sample_tokens: "no_expand_tokens sample_workload = [content_tokens ''c'' ''f'']"
  by (simp add: no_expand_tokens_def sample_workload_def sample_container_def sample_file_def literal_file_def)

lemma sample_open_spec: "open_spec sample_workload = JObj (sample_spec ''${resources.db.password}'' JNull)"
proof -
  have g: "tokens_get (content_tokens ''c'' ''f'') (JObj (sample_spec v (JStr ''${raw''))) = Some (JStr ''${raw'')" for v
    by (simp add: content_tokens_def sample_spec_def)
  show ?thesis
    by (simp add: open_spec_def no_expand_pointers_of sample_tokens sample_module_spec g del: pointer_of_simps)
       (simp add: content_tokens_def sample_spec_def obj_update_def)
qed

lemma sample_translate_spec:
  "translate [(''db'', sample_request)] [sample_type] (JObj (sample_spec ''${resources.db.password}'' JNull)) [] [] =
     Ok (JObj (sample_spec ''${externals.db.password}'' JNull), [''/containers/c/variables/P''])"
  by (simp add: sample_spec_def sample_deploy_def translate_string_plain sample_translate_string)

lemma sample_index_maps: "index_maps_ok sample_workload"
  by (simp add: index_maps_ok_def sample_workload_def sample_container_def)

lemma sample_resources: "wl_resources sample_workload = [(''db'', sample_request)]"
  by (simp add: sample_workload_def)

lemma sample_converted: "\<exists>c. to_module sample_workload [sample_type] = Ok c"
proof -
  have "translate (wl_resources sample_workload) [sample_type] (open_spec sample_workload) [] [] =
      Ok (JObj (sample_spec ''${externals.db.password}'' JNull), [''/containers/c/variables/P''])"
    unfolding sample_resources sample_open_spec by (rule sample_translate_spec)
  from to_module_Ok [OF sample_index_maps this] show ?thesis by (elim exE conjE) (rule exI)
qed

section \<open>Properties\<close>

lemma module_spec_keys: "k \<in> fst ` set (module_spec w) \<Longrightarrow> k \<noteq> []"
  by (auto simp: module_spec_def opt_field_def some_field_def split: option.splits if_splits)

lemma open_spec_tokens:
  assumes "(ts, s) \<in> set (doc_strings (open_spec w) [])"
  obtains t us where "ts = t # us" "t \<noteq> []"
proof -
  have "\<forall>ts \<in> set (no_expand_tokens w). ts \<noteq> []" by (auto simp: in_no_expand_tokens content_tokens_def)
  from set_aside_object [OF this, of "module_spec w"] obtain es where es: "open_spec w = JObj es" "map fst es = map fst (module_spec w)"
    unfolding open_spec_def no_expand_pointers_of by (elim exE conjE)
  have "(ts, s) \<in> set (strings_of [] es)" using assms doc_strings_children [of "JObj es" "[]"] by (simp add: es(1))
  then obtain t x where t: "(t, x) \<in> set es" "(ts, s) \<in> set (doc_strings x [t])" by auto
  from doc_strings_tokens [OF t(2)] obtain vs where "ts = t # vs" by auto
  moreover have "t \<in> set (map fst (module_spec w))" using t(1) by (auto simp: es(2) [symmetric] intro: rev_image_eqI)
  then have "t \<noteq> []" using module_spec_keys by simp
  ultimately show thesis by (rule that)
qed

lemma string_at_secrets:
  assumes "list_all2 (string_at res types) xs zs"
  shows "concat (map snd zs) = map (pointer_of \<circ> fst) (filter (\<lambda>(ts, s). has_secret res types s) xs)"
    "\<forall>(ts, s) \<in> set xs. has_secret res types s \<longrightarrow> is_secret_sink (pointer_of ts)"
  using assms by (induction rule: list_all2_induct)
    (auto simp: string_at_def split_def dest!: translate_string_secret split: if_splits)

text \<open>
  C9: conversion keeps secrets where they may go. The secret paths of a converted workload are
  exactly the pointers of the strings that refer to an output declared secret, in document order, and
  each of them is a container variable, the content of a container file, or a function variable.
\<close>

theorem converted_secret_paths:
  assumes "index_maps_ok w" "to_module w types = Ok c"
  shows "cw_secret_paths c = map (pointer_of \<circ> fst)
      (filter (\<lambda>(ts, s). has_secret (wl_resources w) types s) (doc_strings (open_spec w) []))
    \<and> (\<forall>ts s. (ts, s) \<in> set (doc_strings (open_spec w) []) \<and> has_secret (wl_resources w) types s \<longrightarrow> secret_place ts)"
proof -
  obtain spec where t: "translate (wl_resources w) types (open_spec w) (pointer_of []) [] = Ok (spec, cw_secret_paths c)"
    by (rule to_module_result [OF assms]) simp
  from translate_strings [OF t] obtain zs where zs: "list_all2 (string_at (wl_resources w) types) (doc_strings (open_spec w) []) zs"
    "cw_secret_paths c = concat (map snd zs)" by blast
  have "secret_place ts" if s: "(ts, s) \<in> set (doc_strings (open_spec w) [])" "has_secret (wl_resources w) types s" for ts s
  proof -
    obtain t us where ts: "ts = t # us" "t \<noteq> []" using s(1) by (rule open_spec_tokens)
    have "is_secret_sink (pointer_of ts)" using string_at_secrets(2) [OF zs(1)] s by blast
    then show ?thesis unfolding ts(1) is_secret_sink_place [OF ts(2)] .
  qed
  moreover have "cw_secret_paths c = map (pointer_of \<circ> fst)
      (filter (\<lambda>(ts, s). has_secret (wl_resources w) types s) (doc_strings (open_spec w) []))"
    using zs(2) string_at_secrets(1) [OF zs(1)] by (simp only:)
  ultimately show ?thesis by blast
qed

theorem converted_secret_paths_witness:
  "index_maps_ok sample_workload \<and> (\<exists>c. to_module sample_workload [sample_type] = Ok c \<and>
     cw_secret_paths c = map (pointer_of \<circ> fst)
       (filter (\<lambda>(ts, s). has_secret (wl_resources sample_workload) [sample_type] s) (doc_strings (open_spec sample_workload) [])))"
proof -
  obtain c where c: "to_module sample_workload [sample_type] = Ok c" using sample_converted ..
  from converted_secret_paths [OF sample_index_maps c] c sample_index_maps show ?thesis by blast
qed

text \<open>
  C26: conversion never panics: the content it sets aside is there to be put back. What files with
  \<open>noExpand\<close> hold is in the module byte for byte, whatever looks like a placeholder in it.
\<close>

theorem converted_literal_content:
  assumes "index_maps_ok w"
  shows "(\<forall>m. to_module w types \<noteq> Err (Panicked m))
    \<and> (\<forall>c cs cid ct target f content. to_module w types = Ok c \<and> wl_containers w = Some cs \<and> (cid, ct) \<in> set cs \<and>
         (target, f) \<in> set (ct_files ct) \<and> fl_no_expand f = Some True \<and> fl_content f = Some content \<longrightarrow>
         pointer_get (''/containers/'' @ escape_pointer cid @ ''/files/'' @ escape_pointer target @ ''/content'')
           (JObj (mo_spec (cw_module c))) = Some (JStr content))"
proof (intro conjI allI impI)
  fix m show "to_module w types \<noteq> Err (Panicked m)"
  proof (cases "translate (wl_resources w) types (open_spec w) [] []")
    case (Inr r)
    obtain spec paths where "r = (spec, paths)" by (cases r)
    with to_module_Ok [OF assms] Inr have "is_ok (to_module w types)" by (fastforce simp: is_ok_iff)
    then show ?thesis by (auto simp: is_ok_iff)
  qed (simp add: to_module_Err)
next
  fix c cs cid ct target f content
  assume h: "to_module w types = Ok c \<and> wl_containers w = Some cs \<and> (cid, ct) \<in> set cs \<and>
    (target, f) \<in> set (ct_files ct) \<and> fl_no_expand f = Some True \<and> fl_content f = Some content"
  then have "literal_file f" by (simp add: literal_file_def)
  with h have "content_tokens cid target \<in> set (no_expand_tokens w)" unfolding in_no_expand_tokens by blast
  then have "tokens_get (content_tokens cid target) (JObj (mo_spec (cw_module c))) =
      tokens_get (content_tokens cid target) (JObj (module_spec w))"
    using to_module_result [OF assms, of types c] h by metis
  also have "\<dots> = Some (JStr content)" using content_in_spec [OF assms] h by auto
  finally show "pointer_get (''/containers/'' @ escape_pointer cid @ ''/files/'' @ escape_pointer target @ ''/content'')
      (JObj (mo_spec (cw_module c))) = Some (JStr content)"
    using pointer_get_of [of "content_tokens cid target"] by (simp add: content_tokens_def del: pointer_get_of)
qed

theorem converted_literal_content_witness:
  "\<exists>c. to_module sample_workload [sample_type] = Ok c \<and>
     pointer_get ''/containers/c/files/f/content'' (JObj (mo_spec (cw_module c))) = Some (JStr ''${raw'')"
proof -
  obtain c where c: "to_module sample_workload [sample_type] = Ok c" using sample_converted ..
  have "wl_containers sample_workload = Some [(''c'', sample_container)]" "ct_files sample_container = [(''f'', sample_file)]"
    "fl_no_expand sample_file = Some True" "fl_content sample_file = Some ''${raw''"
    by (simp_all add: sample_workload_def sample_container_def sample_file_def)
  with converted_literal_content [OF sample_index_maps, of "[sample_type]"] c
  have "pointer_get (''/containers/'' @ escape_pointer ''c'' @ ''/files/'' @ escape_pointer ''f'' @ ''/content'')
      (JObj (mo_spec (cw_module c))) = Some (JStr ''${raw'')" by fastforce
  with c show ?thesis by simp
qed



text \<open>
  The names a printed path cannot carry: a quote in an output name leaves the translated placeholder
  unterminated, and an empty key gives an empty path segment.
\<close>

lemma translated_quote_unreadable:
  "Template_parse (translated_text sample_request ''db'' [CHR ''a'', CHR 0x27, CHR ''b''] []) = Err (Syntax ''unterminated `${`'')"
  by (simp add: translated_text_def sample_request_def segment_text_def ascii_defs Template_parse_def template_loop.simps
      find_placeholder_end_def strip_prefix_def)

lemma translated_empty_key_unreadable:
  "Template_parse (translated_text sample_request [] ''host'' []) = Err (Syntax ''empty path segment'')"
  by (simp add: translated_text_def sample_request_def segment_text_def ascii_defs Template_parse_def template_loop.simps
      find_placeholder_end_def strip_prefix_def parse_path_def is_cont_def is_name_char_def is_whitespace_def)

end
