(* ===== verification/Workload_Valid.thy ===== *)
theory Workload_Valid
  imports Workload_Correct
begin

text \<open>
  What \<open>Workload::validate\<close> accepts, as a predicate on documents, and the grammar of durations.
\<close>

section \<open>Durations\<close>

definition duration_term :: "string \<times> string \<Rightarrow> bool" where
  "duration_term = (\<lambda>(d, u). is_digits d \<and> u \<in> set duration_units)"

definition duration_text :: "(string \<times> string) list \<Rightarrow> string" where
  "duration_text ps = concat (map (\<lambda>(d, u). d @ u) ps)"

lemma duration_text_simps [simp]:
  "duration_text [] = []"
  "duration_text (p # ps) = fst p @ snd p @ duration_text ps"
  by (simp_all add: duration_text_def split_def)

lemma unit_hd: "u \<in> set duration_units \<Longrightarrow> u \<noteq> [] \<and> \<not> is_ascii_digit (hd u)"
  by (auto simp: duration_units_def ascii_defs)

lemma duration_text_hd: "list_all duration_term ps \<Longrightarrow> duration_text ps = [] \<or> is_ascii_digit (hd (duration_text ps))"
  by (cases ps) (auto simp: duration_term_def is_digits_def list_all_iff split_def)

lemma find_unit:
  assumes "u \<in> set duration_units" "r = [] \<or> is_ascii_digit (hd r)"
  shows "find (\<lambda>v. prefix v (u @ r)) duration_units = Some u"
proof -
  have "\<not> prefix ''s'' r" using assms(2) by (cases r) (auto simp: ascii_defs)
  with assms(1) show ?thesis by (auto simp: duration_units_def)
qed

lemma duration_loop_text: "list_all duration_term ps \<Longrightarrow> duration_loop (duration_text ps)"
proof (induction ps)
  case Nil
  show ?case by (simp add: duration_loop.simps)
next
  case (Cons p ps)
  obtain d u where p: "p = (d, u)" by (cases p)
  have d: "d \<noteq> []" "list_all is_ascii_digit d" and u: "u \<in> set duration_units" and ps: "list_all duration_term ps"
    using Cons.prems by (auto simp: p duration_term_def is_digits_def)
  let ?r = "duration_text ps"
  have "takeWhile is_ascii_digit (d @ u @ ?r) = d"
    using takeWhile_stop(1) [OF d(2), of "u @ ?r"] unit_hd [OF u] by simp
  moreover have "find (\<lambda>v. prefix v (u @ ?r)) duration_units = Some u" by (rule find_unit [OF u duration_text_hd [OF ps]])
  ultimately show ?case using d Cons.IH [OF ps] by (simp add: p duration_loop.simps [of "d @ u @ ?r"])
qed

lemma duration_loop_terms: "duration_loop s \<Longrightarrow> \<exists>ps. list_all duration_term ps \<and> s = duration_text ps"
proof (induction s rule: duration_loop.induct)
  case (1 s)
  show ?case
  proof (cases "s = []")
    case False
    let ?d = "takeWhile is_ascii_digit s" and ?r = "drop (length (takeWhile is_ascii_digit s)) s"
    from 1(2) False obtain u where u: "length ?d \<noteq> 0" "find (\<lambda>v. prefix v ?r) duration_units = Some u"
      "duration_loop (drop (length u) ?r)"
      by (subst (asm) duration_loop.simps) (auto simp: Let_def split: if_splits option.splits)
    from 1(1) [OF False refl u(1) refl u(2,3)] obtain ps where ps: "list_all duration_term ps" "drop (length u) ?r = duration_text ps"
      by blast
    from u(2) have "prefix u ?r" "u \<in> set duration_units" by (auto simp: find_Some_iff)
    then obtain z where z: "?r = u @ z" by (auto elim: prefixE)
    have "z = duration_text ps" using ps(2) unfolding z by simp
    then have r: "?r = u @ duration_text ps" using z by (simp only:)
    have "duration_term (?d, u)" using u(1) \<open>u \<in> set duration_units\<close>
      by (auto simp: duration_term_def is_digits_def list_all_iff dest: set_takeWhileD)
    moreover have "s = ?d @ ?r" by (simp add: dropWhile_eq_drop [symmetric])
    ultimately show ?thesis using ps(1) r by (intro exI [of _ "(?d, u) # ps"]) simp
  qed (intro exI [of _ "[]"], simp)
qed

lemma is_duration_iff: "is_duration s \<longleftrightarrow> (\<exists>ps. ps \<noteq> [] \<and> list_all duration_term ps \<and> s = duration_text ps)"
proof
  assume "is_duration s"
  then obtain ps where "list_all duration_term ps" "s = duration_text ps" "s \<noteq> []"
    unfolding is_duration_def using duration_loop_terms by blast
  then show "\<exists>ps. ps \<noteq> [] \<and> list_all duration_term ps \<and> s = duration_text ps" by (cases ps) auto
next
  assume "\<exists>ps. ps \<noteq> [] \<and> list_all duration_term ps \<and> s = duration_text ps"
  then obtain ps where ps: "ps \<noteq> []" "list_all duration_term ps" "s = duration_text ps" by blast
  then have "s \<noteq> []" by (cases ps) (auto simp: duration_term_def is_digits_def split_def)
  with ps duration_loop_text show "is_duration s" by (simp add: is_duration_def)
qed

section \<open>Valid documents\<close>

definition file_ok :: "mounted_file \<Rightarrow> bool" where
  "file_ok f \<longleftrightarrow> (fl_source f = None) \<noteq> (fl_content f = None)"

definition quantities_ok :: "quantities \<Rightarrow> bool" where
  "quantities_ok q \<longleftrightarrow> (\<forall>v. qt_memory q = Some v \<or> qt_cpu q = Some v \<longrightarrow> is_quantity v)"

definition container_ok :: "container \<Rightarrow> bool" where
  "container_ok c \<longleftrightarrow> ct_image c \<noteq> [] \<and> (\<forall>(target, f) \<in> set (ct_files c). file_ok f) \<and>
     (\<forall>r q. ct_resources c = Some r \<and> (cs_limits r = Some q \<or> cs_requests r = Some q) \<longrightarrow> quantities_ok q)"

fun package_ok :: "package \<Rightarrow> bool" where
  "package_ok (Zip artifact runtime handler) \<longleftrightarrow> artifact \<noteq> [] \<and> runtime \<noteq> [] \<and> handler \<noteq> []"
| "package_ok (Image img) \<longleftrightarrow> img \<noteq> []"

definition function_ok :: "function_workload \<Rightarrow> bool" where
  "function_ok f \<longleftrightarrow> package_ok (fn_package f) \<and> is_quantity (fn_memory f) \<and> is_duration (fn_timeout f)"

text \<open>Text without placeholders, and text whose placeholders have the roots a workload may use.\<close>

definition plain_text :: "string \<Rightarrow> bool" where
  "plain_text s \<longleftrightarrow> (\<exists>t. Template_parse s = Ok t \<and> Template_placeholders t = [])"

definition workload_text :: "string \<Rightarrow> bool" where
  "workload_text s \<longleftrightarrow> (\<exists>t. Template_parse s = Ok t \<and>
     (\<forall>p \<in> set (Template_placeholders t). rp_root p \<in> {''resources'', ''values'', ''pod''}))"

definition texts_ok :: "(string \<Rightarrow> bool) \<Rightarrow> json \<Rightarrow> bool" where
  "texts_ok P v \<longleftrightarrow> (\<forall>s \<in> snd ` set (doc_strings v []). P s)"

definition resource_ok :: "resource_request \<Rightarrow> bool" where
  "resource_ok r \<longleftrightarrow> (\<forall>i. rs_id r = Some i \<longrightarrow> is_valid_object_id i) \<and>
     (\<forall>params. rs_params r = Some params \<longrightarrow> texts_ok plain_text params)"

fun trigger_ok :: "workload \<Rightarrow> trigger \<Rightarrow> bool" where
  "trigger_ok w (Http h) \<longleftrightarrow> (\<forall>port. ht_port h = Some port \<longrightarrow> wl_function w = None \<and>
     (\<exists>s. wl_service w = Some s \<and> port \<in> fst ` set (sv_ports s)))"
| "trigger_ok w (Schedule s) \<longleftrightarrow> is_cron (st_cron s)"
| "trigger_ok w (Queue t) \<longleftrightarrow> qu_resource t \<in> fst ` set (wl_resources w)"
| "trigger_ok w (Topic t) \<longleftrightarrow> tp_resource t \<in> fst ` set (wl_resources w)"
| "trigger_ok w (Stream t) \<longleftrightarrow> sm_resource t \<in> fst ` set (wl_resources w)"

definition valid_workload :: "workload \<Rightarrow> bool" where
  "valid_workload w \<longleftrightarrow>
     (wl_containers w = None) \<noteq> (wl_function w = None) \<and> wl_containers w \<noteq> Some []
     \<and> (\<forall>cs. wl_containers w = Some cs \<longrightarrow> (\<forall>(cid, c) \<in> set cs. container_ok c))
     \<and> (wl_service w = None \<or> wl_function w = None)
     \<and> (\<forall>f. wl_function w = Some f \<longrightarrow> function_ok f)
     \<and> (\<forall>(key, r) \<in> set (wl_resources w). resource_ok r)
     \<and> (\<forall>(name, t) \<in> set (wl_triggers w). trigger_ok w t)
     \<and> (\<forall>d t. wl_deploy w = Some d \<and> dp_timeout d = Some t \<longrightarrow> is_duration t)
     \<and> texts_ok workload_text (fst (set_aside (workload_value w) (no_expand_pointers w [])))"

section \<open>Validation accepts exactly these\<close>

lemma try_fold_unit: "try_fold f xs () = Ok () \<longleftrightarrow> (\<forall>x \<in> set xs. f x () = Ok ())"
  by (induction xs) (auto simp: rbind_eq_Inr)

lemma rbind_unit: "rbind r k = Ok () \<longleftrightarrow> r = Ok () \<and> k () = Ok ()"
  for r :: "'e + unit" by (cases r) auto

lemma fail_if_Ok [simp]: "fail_if b path message = Ok () \<longleftrightarrow> \<not> b"
  by (simp add: fail_if_def)

lemmas check_simps = try_fold_unit rbind_unit fail_if_Ok

lemma texts_children:
  assumes "\<not> is_string v"
  shows "(\<forall>s \<in> snd ` set (doc_strings v ts). P s) \<longleftrightarrow> (\<forall>(t, x) \<in> set (children v). \<forall>s \<in> snd ` set (doc_strings x (ts @ [t])). P s)"
  unfolding doc_strings_children [OF assms] by fastforce

lemma reject_string_Ok: "reject_string s path = Ok () \<longleftrightarrow> plain_text s"
  by (auto simp: reject_string_def parse_at_def plain_text_def rbind_eq_Inr)

lemma reject_placeholders_Ok: "reject_placeholders v path = Ok () \<longleftrightarrow> (\<forall>s \<in> snd ` set (doc_strings v ts). plain_text s)"
proof (induction v arbitrary: path ts rule: json_children_induct)
  case (json v)
  show ?case
  proof (cases v)
    case (JArr items)
    then have n: "\<not> is_string v" by simp
    have "(reject_placeholders (snd x) path = Ok ()) \<longleftrightarrow> (\<forall>s \<in> snd ` set (doc_strings (snd x) (ts @ [dec (fst x)])). plain_text s)"
      if "x \<in> set (enumerate 0 items)" for x path
      by (rule json [of "dec (fst x)"]) (use that in \<open>auto simp: JArr split_def intro!: rev_image_eqI\<close>)
    then show ?thesis unfolding texts_children [OF n] by (simp add: JArr check_simps split_def cong: ball_cong)
  next
    case (JObj es)
    then have n: "\<not> is_string v" by simp
    have "(reject_placeholders (snd x) path = Ok ()) \<longleftrightarrow> (\<forall>s \<in> snd ` set (doc_strings (snd x) (ts @ [fst x])). plain_text s)"
      if "x \<in> set es" for x path
      by (rule json [of "fst x"]) (use that in \<open>simp add: JObj\<close>)
    then show ?thesis unfolding texts_children [OF n] by (simp add: JObj check_simps split_def cong: ball_cong)
  qed (simp_all add: reject_string_Ok doc_strings_children)
qed

lemma check_root_Ok: "check_root path p = Ok () \<longleftrightarrow> rp_root p \<in> {''resources'', ''values'', ''pod''}"
  by (simp add: check_root_def)

lemma check_placeholders_Ok: "check_placeholders v path = Ok () \<longleftrightarrow> (\<forall>s \<in> snd ` set (doc_strings v ts). workload_text s)"
proof (induction v arbitrary: path ts rule: json_children_induct)
  case (json v)
  show ?case
  proof (cases v)
    case (JStr s)
    have "check_placeholders v path = Ok () \<longleftrightarrow> workload_text s"
      by (auto simp: JStr parse_at_def workload_text_def rbind_eq_Inr check_simps check_root_Ok simp del: insert_iff)
    then show ?thesis by (simp add: JStr)
  next
    case (JArr items)
    then have n: "\<not> is_string v" by simp
    have "(check_placeholders (snd x) path = Ok ()) \<longleftrightarrow> (\<forall>s \<in> snd ` set (doc_strings (snd x) (ts @ [dec (fst x)])). workload_text s)"
      if "x \<in> set (enumerate 0 items)" for x path
      by (rule json [of "dec (fst x)"]) (use that in \<open>auto simp: JArr split_def intro!: rev_image_eqI\<close>)
    then show ?thesis unfolding texts_children [OF n] by (simp add: JArr check_simps split_def cong: ball_cong)
  next
    case (JObj es)
    then have n: "\<not> is_string v" by simp
    have "(check_placeholders (snd x) path = Ok ()) \<longleftrightarrow> (\<forall>s \<in> snd ` set (doc_strings (snd x) (ts @ [fst x])). workload_text s)"
      if "x \<in> set es" for x path
      by (rule json [of "fst x"]) (use that in \<open>simp add: JObj\<close>)
    then show ?thesis unfolding texts_children [OF n] by (simp add: JObj check_simps split_def cong: ball_cong)
  qed (simp_all add: doc_strings_children)
qed

lemma check_parts_Ok:
  "check_file cid e () = Ok () \<longleftrightarrow> file_ok (snd e)"
  "check_quantities cid (field, q) () = Ok () \<longleftrightarrow> (\<forall>x. q = Some x \<longrightarrow> quantities_ok x)"
  "check_package p = Ok () \<longleftrightarrow> package_ok p"
  "check_function f = Ok () \<longleftrightarrow> function_ok f"
  "check_deploy w = Ok () \<longleftrightarrow> (\<forall>d t. wl_deploy w = Some d \<and> dp_timeout d = Some t \<longrightarrow> is_duration t)"
proof -
  show p: "check_package p = Ok () \<longleftrightarrow> package_ok p" for p by (cases p) (simp_all add: check_simps del: try_fold.simps)
  show "check_file cid e () = Ok () \<longleftrightarrow> file_ok (snd e)" by (auto simp: check_file_def file_ok_def split_def)
  show "check_quantities cid (field, q) () = Ok () \<longleftrightarrow> (\<forall>x. q = Some x \<longrightarrow> quantities_ok x)"
    by (cases q) (auto simp: check_quantities_def check_quantity_def check_simps quantities_ok_def simp del: try_fold.simps split: option.splits)
  show "check_function f = Ok () \<longleftrightarrow> function_ok f" by (simp add: check_function_def check_simps p function_ok_def)
  show "check_deploy w = Ok () \<longleftrightarrow> (\<forall>d t. wl_deploy w = Some d \<and> dp_timeout d = Some t \<longrightarrow> is_duration t)"
    by (cases "wl_deploy w") (auto simp: check_deploy_def split: option.splits)
qed

lemma check_container_Ok: "check_container (cid, c) () = Ok () \<longleftrightarrow> container_ok c"
  by (cases "ct_resources c")
    (auto simp: check_container_def check_simps check_parts_Ok container_ok_def split_def simp del: try_fold.simps)

lemma check_resource_Ok: "check_resource (key, r) () = Ok () \<longleftrightarrow> resource_ok r"
  using reject_placeholders_Ok [of _ _ "[]"]
  by (cases "rs_id r"; cases "rs_params r") (simp_all add: check_resource_def check_simps resource_ok_def texts_ok_def)

lemma check_trigger_Ok: "check_trigger w (name, t) () = Ok () \<longleftrightarrow> trigger_ok w t"
  by (cases t) (auto simp: check_trigger_def check_http_def check_simps map_of_eq_None_iff Let_def split: option.splits)

lemma check_shape_Ok:
  "check_shape w = Ok () \<longleftrightarrow> (wl_containers w = None) \<noteq> (wl_function w = None) \<and> wl_containers w \<noteq> Some []"
  by (cases "wl_containers w"; cases "wl_function w") (simp_all add: check_shape_def)

lemma validate_Ok: "validate w = Ok () \<longleftrightarrow> valid_workload w"
proof -
  let ?doc = "fst (set_aside (workload_value w) (no_expand_pointers w []))"
  have f: "case_option (Ok ()) check_function (wl_function w) = Ok () \<longleftrightarrow> (\<forall>f. wl_function w = Some f \<longrightarrow> function_ok f)"
    by (cases "wl_function w") (simp_all add: check_parts_Ok)
  have c: "(\<forall>x \<in> set (case_option [] id (wl_containers w)). check_container x () = Ok ()) \<longleftrightarrow>
      (\<forall>cs. wl_containers w = Some cs \<longrightarrow> (\<forall>(cid, c) \<in> set cs. container_ok c))"
    by (cases "wl_containers w") (auto simp: check_container_Ok)
  have r: "(\<forall>x \<in> set (wl_resources w). check_resource x () = Ok ()) \<longleftrightarrow> (\<forall>(key, r) \<in> set (wl_resources w). resource_ok r)"
    by (auto simp: check_resource_Ok)
  have t: "(\<forall>x \<in> set (wl_triggers w). check_trigger w x () = Ok ()) \<longleftrightarrow> (\<forall>(name, t) \<in> set (wl_triggers w). trigger_ok w t)"
    by (auto simp: check_trigger_Ok)
  have d: "check_placeholders ?doc [] = Ok () \<longleftrightarrow> texts_ok workload_text ?doc"
    unfolding texts_ok_def by (rule check_placeholders_Ok)
  show ?thesis unfolding validate_def check_simps check_shape_Ok f c r t d check_parts_Ok(5) valid_workload_def
    by (simp only: de_Morgan_conj not_not conj_assoc)
qed

section \<open>A valid document\<close>

definition sample_yaml :: "unit yaml_lib" where
  "sample_yaml = \<lparr>yl_from_str = \<lambda>_. Ok (), yl_get = \<lambda>_ _. Some (), yl_as_str = \<lambda>_. Some API_VERSION,
     yl_to_value = \<lambda>_. Ok JNull\<rparr>"

definition sample_decoders :: decoders where
  "sample_decoders = \<lparr>dc_workload = \<lambda>_. Ok sample_workload, dc_score = \<lambda>_. Err ([], []), dc_overlay = \<lambda>_. Err ([], [])\<rparr>"

lemma check_placeholders_plain: "CHR ''$'' \<notin> set s \<Longrightarrow> check_placeholders (JStr s) path = Ok ()"
  by (simp add: parse_at_def Template_parse_plain)

lemma check_placeholders_sample: "check_placeholders (JStr ''${resources.db.password}'') path = Ok ()"
  unfolding check_placeholders.simps parse_at_def sample_parse
  by (simp add: check_root_def rp_root_def sample_reference_def)

lemma sample_document:
  "fst (set_aside (workload_value sample_workload) (no_expand_pointers sample_workload [])) =
   JObj [(''apiVersion'', JStr API_VERSION), (''kind'', JStr ''Workload''), (''metadata'', JObj [(''name'', JStr ''web'')]),
     (''containers'', snd (hd (sample_spec ''${resources.db.password}'' JNull))),
     (''resources'', JObj [(''db'', JObj [(''type'', JStr ''postgres'')])])]"
  (is "_ = JObj ?es")
proof -
  have v: "workload_value sample_workload = JObj [(''apiVersion'', JStr API_VERSION), (''kind'', JStr ''Workload''),
      (''metadata'', JObj [(''name'', JStr ''web'')]), (''containers'', snd (hd (sample_spec ''${resources.db.password}'' (JStr ''${raw'')))),
      (''resources'', JObj [(''db'', JObj [(''type'', JStr ''postgres'')])])]"
    by (simp add: workload_value_def sample_workload_def metadata_value_def map_value_def some_field_def opt_field_def
        container_value_def sample_container_def file_value_def sample_file_def sample_spec_def resource_request_value_def
        sample_request_def)
  have g: "tokens_get (content_tokens ''c'' ''f'') (workload_value sample_workload) = Some (JStr ''${raw'')"
    unfolding v by (simp add: content_tokens_def sample_spec_def)
  show ?thesis
    by (simp add: no_expand_pointers_of sample_tokens g del: pointer_of_simps)
       (simp add: v content_tokens_def sample_spec_def obj_update_def)
qed

lemma sample_valid: "validate sample_workload = Ok ()"
proof -
  have c: "check_container (''c'', sample_container) () = Ok ()"
    unfolding check_container_Ok by (simp add: container_ok_def sample_container_def sample_file_def file_ok_def)
  have r: "check_resource (''db'', sample_request) () = Ok ()"
    unfolding check_resource_Ok by (simp add: resource_ok_def sample_request_def)
  have d: "check_placeholders (fst (set_aside (workload_value sample_workload) (no_expand_pointers sample_workload []))) [] = Ok ()"
    unfolding sample_document
    by (simp add: sample_spec_def check_placeholders_plain check_placeholders_sample API_VERSION_def del: check_placeholders.simps(1))
  show ?thesis unfolding validate_def d check_simps
    by (simp add: sample_workload_def check_shape_def c r check_deploy_def)
qed

section \<open>Properties\<close>

text \<open>
  C23: validation accepts exactly the documents that follow the rules: containers or a function but
  not both, files with one source, well-formed quantities, durations and schedules, triggers that
  name declared resources and service ports, valid shared IDs, parameters without placeholders, and
  everywhere else, file content with \<open>noExpand\<close> apart, only text that parses with placeholders of the
  roots \<open>resources\<close>, \<open>values\<close> and \<open>pod\<close>. A document that \<open>parse\<close> returns has passed it.
\<close>

theorem validate_accepts:
  "(validate w = Ok () \<longleftrightarrow> valid_workload w) \<and> (Workload_parse yl dc document overlay = Ok w \<longrightarrow> valid_workload w)"
proof -
  have "validate w = Ok ()" if p: "Workload_parse yl dc document overlay = Ok w"
    using p by (auto simp: Workload_parse_def rbind_eq_Inr)
  with validate_Ok show ?thesis by blast
qed

theorem validate_accepts_witness:
  "Workload_parse sample_yaml sample_decoders [] None = Ok sample_workload \<and> valid_workload sample_workload"
proof -
  have p: "Workload_parse sample_yaml sample_decoders [] None = Ok sample_workload"
    using sample_valid by (simp add: Workload_parse_def parse_document_def yaml_str_def parse_yaml_def sample_yaml_def
        sample_decoders_def fail_if_def) (simp add: sample_workload_def)
  with validate_accepts [of sample_workload sample_yaml sample_decoders "[]" None] show ?thesis by blast
qed

text \<open>
  C39: the duration check accepts exactly the non-empty sequences of digits with a unit, and the
  defaults of a function pass the checks.
\<close>

theorem duration_grammar:
  "(is_duration s \<longleftrightarrow> (\<exists>ps. ps \<noteq> [] \<and> (\<forall>d u. (d, u) \<in> set ps \<longrightarrow> d \<noteq> [] \<and> (\<forall>c. c \<in> set d \<longrightarrow> is_ascii_digit c) \<and>
       u \<in> {''ms'', ''s'', ''m'', ''h''}) \<and> s = concat (map (\<lambda>(d, u). d @ u) ps)))
   \<and> is_duration default_timeout \<and> is_quantity default_memory"
proof -
  have "list_all duration_term ps \<longleftrightarrow> (\<forall>d u. (d, u) \<in> set ps \<longrightarrow> d \<noteq> [] \<and> (\<forall>c. c \<in> set d \<longrightarrow> is_ascii_digit c) \<and>
       u \<in> {''ms'', ''s'', ''m'', ''h''})" for ps
    by (auto simp: list_all_iff duration_term_def is_digits_def duration_units_def)
  then have "is_duration s \<longleftrightarrow> (\<exists>ps. ps \<noteq> [] \<and> (\<forall>d u. (d, u) \<in> set ps \<longrightarrow> d \<noteq> [] \<and> (\<forall>c. c \<in> set d \<longrightarrow> is_ascii_digit c) \<and>
       u \<in> {''ms'', ''s'', ''m'', ''h''}) \<and> s = concat (map (\<lambda>(d, u). d @ u) ps))"
    unfolding is_duration_iff duration_text_def by simp
  moreover have "is_duration default_timeout" unfolding is_duration_iff
    by (rule exI [of _ "[(''30'', ''s'')]"]) (simp add: duration_term_def is_digits_def duration_units_def ascii_defs default_timeout_def)
  moreover have m: "strip_suffix ''Mi'' default_memory = Some ''256''" by (simp add: default_memory_def)
  have "is_quantity default_memory" unfolding is_quantity_def list_ex_iff
    by (rule bexI [of _ "''Mi''"], unfold m) (simp_all add: is_decimal_def is_digits_def ascii_defs quantity_suffixes_def)
  ultimately show ?thesis by blast
qed

theorem duration_grammar_witness: "is_duration ''1h30m''"
proof -
  have "\<exists>ps. ps \<noteq> [] \<and> (\<forall>d u. (d, u) \<in> set ps \<longrightarrow> d \<noteq> [] \<and> (\<forall>c. c \<in> set d \<longrightarrow> is_ascii_digit c) \<and>
       u \<in> {''ms'', ''s'', ''m'', ''h''}) \<and> ''1h30m'' = concat (map (\<lambda>(d, u). d @ u) ps)"
    by (rule exI [of _ "[(''1'', ''h''), (''30'', ''m'')]"]) (auto simp: ascii_defs)
  with duration_grammar [of "''1h30m''"] show ?thesis by blast
qed

end
