(* ===== verification/Overrides.thy ===== *)
theory Overrides
  imports Workload
begin

text \<open>
  Deploy-time overrides (\<open>crates/core/src/workload/overrides.rs\<close>): images, artifacts and
  properties applied to a workload, and the check that nothing left for deploy time is missing.
  \<open>slot\<close> of the source returns a mutable reference; here the caller's use of it is an argument, a
  function from the value found to a result and the value written. Reading YAML and deserializing a
  workload are arguments.
\<close>

definition FUNCTION_NAME :: string where
  "FUNCTION_NAME = ''main''"

record overrides =
  or_images :: "string index_map"
  or_artifacts :: "string index_map"
  or_properties :: "string index_map"

definition Overrides_is_empty :: "overrides \<Rightarrow> bool" where
  "Overrides_is_empty ov \<longleftrightarrow> or_images ov = [] \<and> or_artifacts ov = [] \<and> or_properties ov = []"

section \<open>Images and artifacts\<close>

definition set_image :: "string \<Rightarrow> string \<Rightarrow> container index_map \<Rightarrow> container index_map" where
  "set_image name img cs = map (\<lambda>(k, c). if k = name then (k, c\<lparr>ct_image := img\<rparr>) else (k, c)) cs"

definition override_image :: "string \<times> string \<Rightarrow> workload \<Rightarrow> workload_error + workload" where
  "override_image = (\<lambda>(name, img) w.
     let path = ''images.'' @ name;
         missing = WorkloadError_new path (''the workload has no container or function `'' @ name @ ''`'') in
     case (if name = FUNCTION_NAME then wl_function w else None) of
       Some f \<Rightarrow>
         (case fn_package f of
            Image _ \<Rightarrow> Ok (w\<lparr>wl_function := Some (f\<lparr>fn_package := Image img\<rparr>)\<rparr>)
          | Zip _ _ _ \<Rightarrow>
              Err (WorkloadError_new path ''function `main` is a zip package; supply an artifact instead''))
     | None \<Rightarrow>
         (case wl_containers w of
            None \<Rightarrow> Err missing
          | Some cs \<Rightarrow>
              if map_of cs name = None then Err missing
              else Ok (w\<lparr>wl_containers := Some (set_image name img cs)\<rparr>)))"

definition override_artifact :: "string \<times> string \<Rightarrow> workload \<Rightarrow> workload_error + workload" where
  "override_artifact = (\<lambda>(name, artifact) w.
     let path = ''artifacts.'' @ name in
     case (if name = FUNCTION_NAME then wl_function w else None) of
       None \<Rightarrow> Err (WorkloadError_new path (''the workload has no function `'' @ name @
         ''`; a function is named `'' @ FUNCTION_NAME @ ''`''))
     | Some f \<Rightarrow>
         (case fn_package f of
            Zip _ runtime handler \<Rightarrow>
              Ok (w\<lparr>wl_function := Some (f\<lparr>fn_package := Zip artifact runtime handler\<rparr>)\<rparr>)
          | Image _ \<Rightarrow>
              Err (WorkloadError_new path ''function `main` is an image package; supply an image instead'')))"

section \<open>Properties\<close>

definition list_index :: "string \<Rightarrow> json list \<Rightarrow> nat option" where
  "list_index key items =
     (case parse_usize key of None \<Rightarrow> None | Some i \<Rightarrow> if i < length items then Some i else None)"

definition or_map :: "json \<Rightarrow> json" where
  "or_map v = (if is_null v then JObj [] else v)"

fun slot_at ::
  "(string \<Rightarrow> workload_error) \<Rightarrow> string list \<Rightarrow> (json \<Rightarrow> 'a \<times> json) \<Rightarrow> json \<Rightarrow> workload_error + ('a \<times> json)" where
  "slot_at err [] f node = Ok (f node)"
| "slot_at err [key] f node =
     (case node of
        JObj es \<Rightarrow>
          (let (a, v) = f (case_option JNull id (map_of es key)) in Ok (a, JObj (obj_insert key v es)))
      | JArr items \<Rightarrow>
          (case list_index key items of
             Some i \<Rightarrow> (let (a, v) = f (items ! i) in Ok (a, JArr (items[i := v])))
           | None \<Rightarrow> Err (err (''`'' @ key @ ''` is not an index of the list'')))
      | _ \<Rightarrow> Err (err (''cannot set `'' @ key @ ''` here'')))"
| "slot_at err (key # k # keys) f node =
     (case node of
        JObj es \<Rightarrow>
          rbind (slot_at err (k # keys) f (or_map (case_option (JObj []) id (map_of es key)))) (\<lambda>(a, v).
            Ok (a, JObj (obj_insert key v es)))
      | JArr items \<Rightarrow>
          (case list_index key items of
             Some i \<Rightarrow>
               rbind (slot_at err (k # keys) f (or_map (items ! i))) (\<lambda>(a, v). Ok (a, JArr (items[i := v])))
           | None \<Rightarrow> Err (err (''`'' @ key @ ''` is not an index of the list'')))
      | _ \<Rightarrow> Err (err (''cannot descend into `'' @ key @ ''`'')))"

definition slot :: "json \<Rightarrow> string \<Rightarrow> (json \<Rightarrow> 'a \<times> json) \<Rightarrow> workload_error + ('a \<times> json)" where
  "slot doc path f =
     (let err = (\<lambda>message. WorkloadError_new (''properties.'' @ path) message);
          keys = split_on (CHR ''.'') path in
      if list_ex (\<lambda>k. k = []) keys then Err (err ''a path is keys separated by single dots'')
      else slot_at err keys f doc)"

definition property_value :: "(string \<Rightarrow> json option) \<Rightarrow> string \<Rightarrow> json \<Rightarrow> bool \<times> json" where
  "property_value yaml raw current =
     (let v = (if is_string current then None else yaml raw) in
      ((case v of None \<Rightarrow> False | Some v \<Rightarrow> \<not> is_string v), case_option (JStr raw) id v))"

definition set_property ::
  "(string \<Rightarrow> json option) \<Rightarrow> json \<Rightarrow> string \<Rightarrow> string \<Rightarrow> workload_error + (bool \<times> json)" where
  "set_property yaml doc path raw = slot doc path (property_value yaml raw)"

definition set_slot :: "json \<Rightarrow> string \<Rightarrow> json \<Rightarrow> workload_error + json" where
  "set_slot doc path v = rbind (slot doc path (\<lambda>_. ((), v))) (\<lambda>(_, doc). Ok doc)"

definition override_property ::
  "(string \<Rightarrow> json option) \<Rightarrow> (json \<Rightarrow> string + workload) \<Rightarrow> string \<times> string \<Rightarrow> json \<Rightarrow> workload_error + json" where
  "override_property yaml from_value = (\<lambda>(path, raw) doc.
     rbind (set_property yaml doc path raw) (\<lambda>(as_yaml, doc').
     if as_yaml \<and> \<not> is_ok (from_value doc') then
       rbind (set_slot doc path (JStr raw)) (\<lambda>as_string.
       Ok (if is_ok (from_value as_string) then as_string else doc'))
     else Ok doc'))"

section \<open>The whole operation\<close>

definition supplied_container :: "string \<times> container \<Rightarrow> unit \<Rightarrow> workload_error + unit" where
  "supplied_container = (\<lambda>(cid, c) u.
     fail_if (ct_image c = ''.'') (''containers.'' @ cid @ ''.image'')
       (''supplied at deploy time: pass `--image '' @ cid @ ''=<ref>`''))"

definition check_supplied :: "workload \<Rightarrow> workload_error + unit" where
  "check_supplied w =
     rbind (try_fold supplied_container (case_option [] id (wl_containers w)) ()) (\<lambda>_.
     case wl_function w of
       None \<Rightarrow> Ok ()
     | Some f \<Rightarrow>
         (case fn_package f of
            Zip artifact _ _ \<Rightarrow> fail_if (artifact = ''.'') ''function.package.artifact''
              (''supplied at deploy time: pass `--artifact '' @ FUNCTION_NAME @ ''=<uri>`'')
          | Image img \<Rightarrow> fail_if (img = ''.'') ''function.package.image''
              (''supplied at deploy time: pass `--image '' @ FUNCTION_NAME @ ''=<ref>`'')))"

definition override_properties ::
  "(string \<Rightarrow> json option) \<Rightarrow> (json \<Rightarrow> string + workload) \<Rightarrow> string index_map \<Rightarrow> workload \<Rightarrow>
   workload_error + workload" where
  "override_properties yaml from_value ps w =
     (if ps = [] then Ok w
      else
        rbind (try_fold (override_property yaml from_value) ps (workload_value w)) (\<lambda>doc.
        map_err (\<lambda>e. WorkloadError_new ''properties'' (''the result is not a workload: '' @ e)) (from_value doc)))"

definition with_overrides ::
  "(string \<Rightarrow> json option) \<Rightarrow> (json \<Rightarrow> string + workload) \<Rightarrow> workload \<Rightarrow> overrides \<Rightarrow>
   workload_error + workload" where
  "with_overrides yaml from_value w ov =
     rbind (try_fold override_image (or_images ov) w) (\<lambda>w.
     rbind (try_fold override_artifact (or_artifacts ov) w) (\<lambda>w.
     rbind (override_properties yaml from_value (or_properties ov) w) (\<lambda>w.
     rbind (validate w) (\<lambda>_.
     rbind (check_supplied w) (\<lambda>_. Ok w)))))"

end
