(* ===== verification/Overrides_Correct.thy ===== *)
theory Overrides_Correct
  imports Overrides Workload_Valid
begin

text \<open>
  What deploy-time overrides do to a workload: the images and artifacts that are named replace the
  ones of the document and nothing else changes, property paths read back what was written, and a
  workload that leaves the operation is valid and has no value left for deploy time.
\<close>

section \<open>Images and artifacts\<close>

definition with_image :: "string index_map \<Rightarrow> string \<times> container \<Rightarrow> string \<times> container" where
  "with_image imgs = (\<lambda>(k, c). (k, case map_of imgs k of None \<Rightarrow> c | Some img \<Rightarrow> c\<lparr>ct_image := img\<rparr>))"

definition with_package :: "string index_map \<Rightarrow> string index_map \<Rightarrow> function_workload \<Rightarrow> function_workload" where
  "with_package imgs arts f = f\<lparr>fn_package := (case fn_package f of
     Image i \<Rightarrow> Image (case_option i id (map_of imgs FUNCTION_NAME))
   | Zip a r h \<Rightarrow> Zip (case_option a id (map_of arts FUNCTION_NAME)) r h)\<rparr>"

lemma fold_set_image:
  "distinct (map fst imgs) \<Longrightarrow> fold (\<lambda>(n, i). set_image n i) imgs cs = map (with_image imgs) cs"
proof (induction imgs arbitrary: cs)
  case Nil
  show ?case by (simp add: with_image_def split_def)
next
  case (Cons e imgs)
  obtain n i where e: "e = (n, i)" by (cases e)
  have "map_of imgs n = None" using Cons.prems by (simp add: e map_of_eq_None_iff)
  then show ?case using Cons by (auto simp: e set_image_def with_image_def)
qed

lemma image_in_container:
  assumes "wl_function w = None" "override_image (n, i) w = Ok w1"
  shows "\<exists>cs. wl_containers w = Some cs \<and> w1 = w\<lparr>wl_containers := Some (set_image n i cs)\<rparr>"
  using assms by (auto simp: override_image_def Let_def split: option.splits if_splits)

lemma images_in_containers:
  "try_fold override_image imgs w = Ok w1 \<Longrightarrow> wl_function w = None \<Longrightarrow> wl_containers w = Some cs \<Longrightarrow>
     w1 = w\<lparr>wl_containers := Some (fold (\<lambda>(n, i). set_image n i) imgs cs)\<rparr>"
proof (induction imgs arbitrary: w cs)
  case (Cons e imgs)
  obtain n i where e: "e = (n, i)" by (cases e)
  from Cons.prems(1) obtain w2 where w2: "override_image (n, i) w = Ok w2" "try_fold override_image imgs w2 = Ok w1"
    by (auto simp: e rbind_eq_Inr)
  have eq: "w2 = w\<lparr>wl_containers := Some (set_image n i cs)\<rparr>"
    using image_in_container [OF Cons.prems(2) w2(1)] Cons.prems(3) by simp
  from Cons.IH [OF w2(2)] Cons.prems(2) show ?case by (simp add: eq e)
qed simp

lemma image_in_function:
  assumes "wl_containers w = None" "wl_function w = Some f" "override_image (n, i) w = Ok w1"
  shows "n = FUNCTION_NAME \<and> (\<exists>j. fn_package f = Image j) \<and> w1 = w\<lparr>wl_function := Some (f\<lparr>fn_package := Image i\<rparr>)\<rparr>"
  using assms by (auto simp: override_image_def Let_def split: if_splits package.splits)

lemma artifact_in_function:
  assumes "override_artifact (n, a) w = Ok w1"
  shows "n = FUNCTION_NAME \<and> (\<exists>f b r h. wl_function w = Some f \<and> fn_package f = Zip b r h \<and>
    w1 = w\<lparr>wl_function := Some (f\<lparr>fn_package := Zip a r h\<rparr>)\<rparr>)"
  using assms by (auto simp: override_artifact_def Let_def split: if_splits option.splits package.splits)

text \<open>Names are distinct, so a function gets at most one image and one artifact.\<close>

lemma only_main:
  assumes "distinct (map fst xs)" "\<forall>(n, v) \<in> set xs. n = FUNCTION_NAME"
  shows "xs = [] \<or> (\<exists>v. xs = [(FUNCTION_NAME, v)])"
proof (cases xs)
  case (Cons x ys)
  with assms have "ys = []" by (cases ys) auto
  with Cons assms(2) show ?thesis by (cases x) auto
qed simp

lemma function_names:
  "try_fold override_artifact arts w = Ok w1 \<Longrightarrow> \<forall>(n, v) \<in> set arts. n = FUNCTION_NAME"
proof (induction arts arbitrary: w)
  case (Cons e arts)
  obtain n a where e: "e = (n, a)" by (cases e)
  from Cons.prems obtain w2 where "override_artifact (n, a) w = Ok w2" "try_fold override_artifact arts w2 = Ok w1"
    by (auto simp: e rbind_eq_Inr)
  from artifact_in_function [OF this(1)] Cons.IH [OF this(2)] show ?case by (simp add: e)
qed simp

lemma image_names:
  "try_fold override_image imgs w = Ok w1 \<Longrightarrow> wl_containers w = None \<Longrightarrow> wl_function w = Some f \<Longrightarrow>
     \<forall>(n, v) \<in> set imgs. n = FUNCTION_NAME"
proof (induction imgs arbitrary: w f)
  case (Cons e imgs)
  obtain n i where e: "e = (n, i)" by (cases e)
  from Cons.prems(1) obtain w2 where w2: "override_image (n, i) w = Ok w2" "try_fold override_image imgs w2 = Ok w1"
    by (auto simp: e rbind_eq_Inr)
  note i = image_in_function [OF Cons.prems(2,3) w2(1)]
  then have "wl_containers w2 = None" "wl_function w2 = Some (f\<lparr>fn_package := Image i\<rparr>)" using Cons.prems(2) by simp_all
  from Cons.IH [OF w2(2) this] i show ?case by (simp add: e)
qed simp

definition overridden :: "workload \<Rightarrow> overrides \<Rightarrow> workload" where
  "overridden w ov = w\<lparr>wl_containers := map_option (map (with_image (or_images ov))) (wl_containers w),
     wl_function := map_option (with_package (or_images ov) (or_artifacts ov)) (wl_function w)\<rparr>"

lemma images_overridden:
  assumes "try_fold override_image imgs w = Ok w1" "distinct (map fst imgs)"
    "(wl_containers w = None) \<noteq> (wl_function w = None)"
  shows "w1 = w\<lparr>wl_containers := map_option (map (with_image imgs)) (wl_containers w),
    wl_function := map_option (with_package imgs []) (wl_function w)\<rparr>"
proof (cases "wl_function w")
  case None
  then obtain cs where "wl_containers w = Some cs" using assms(3) by auto
  with None show ?thesis using images_in_containers [OF assms(1)] fold_set_image [OF assms(2)] by simp
next
  case (Some f)
  then have n: "wl_containers w = None" using assms(3) by auto
  have p: "with_package [] [] f = f" by (cases f; cases "fn_package f") (simp_all add: with_package_def)
  from only_main [OF assms(2) image_names [OF assms(1) n Some]] show ?thesis
  proof
    assume "imgs = []"
    then show ?thesis using assms(1) n Some p by simp
  next
    assume "\<exists>v. imgs = [(FUNCTION_NAME, v)]"
    then obtain v where v: "imgs = [(FUNCTION_NAME, v)]" ..
    with assms(1) have "override_image (FUNCTION_NAME, v) w = Ok w1" by (auto simp: rbind_eq_Inr)
    from image_in_function [OF n Some this] obtain j where "fn_package f = Image j"
      "w1 = w\<lparr>wl_function := Some (f\<lparr>fn_package := Image v\<rparr>)\<rparr>" by blast
    then show ?thesis by (simp add: v n Some with_package_def)
  qed
qed

lemma artifacts_overridden:
  assumes "try_fold override_artifact arts w = Ok w1" "distinct (map fst arts)"
  shows "w1 = w\<lparr>wl_function := map_option (with_package [] arts) (wl_function w)\<rparr>"
proof -
  have p: "with_package [] [] f = f" for f by (cases f; cases "fn_package f") (simp_all add: with_package_def)
  from only_main [OF assms(2) function_names [OF assms(1)]] show ?thesis
  proof
    assume "arts = []"
    moreover have "with_package [] [] = id" using p by (simp add: fun_eq_iff)
    ultimately show ?thesis using assms(1) by (simp add: option.map_id)
  next
    assume "\<exists>v. arts = [(FUNCTION_NAME, v)]"
    then obtain v where v: "arts = [(FUNCTION_NAME, v)]" ..
    with assms(1) have "override_artifact (FUNCTION_NAME, v) w = Ok w1" by (auto simp: rbind_eq_Inr)
    from artifact_in_function [OF this] obtain f b r h where "wl_function w = Some f" "fn_package f = Zip b r h"
      "w1 = w\<lparr>wl_function := Some (f\<lparr>fn_package := Zip v r h\<rparr>)\<rparr>" by blast
    then show ?thesis by (simp add: v with_package_def)
  qed
qed

lemma with_package_compose: "with_package [] arts (with_package imgs [] f) = with_package imgs arts f"
  by (cases "fn_package f") (simp_all add: with_package_def)

lemma overridden_both:
  assumes "try_fold override_image (or_images ov) w = Ok w1" "try_fold override_artifact (or_artifacts ov) w1 = Ok w2"
    "distinct (map fst (or_images ov))" "distinct (map fst (or_artifacts ov))"
    "(wl_containers w = None) \<noteq> (wl_function w = None)"
  shows "w2 = overridden w ov"
  using artifacts_overridden [OF assms(2,4)] images_overridden [OF assms(1,3,5)]
  by (simp add: overridden_def option.map_comp comp_def with_package_compose)

section \<open>Property paths\<close>

fun path_get :: "string list \<Rightarrow> json \<Rightarrow> json option" where
  "path_get [] d = Some d"
| "path_get (k # ks) (JObj es) = Option.bind (map_of es k) (path_get ks)"
| "path_get (k # ks) (JArr items) = Option.bind (list_index k items) (\<lambda>i. path_get ks (items ! i))"
| "path_get (k # ks) d = None"

lemma path_get_or_map: "path_get (k # ks) (or_map v) = path_get (k # ks) v"
  by (cases v) (simp_all add: or_map_def)

lemma list_index_Some: "list_index k items = Some i \<Longrightarrow> i < length items"
  by (auto simp: list_index_def split: option.splits if_splits)

lemma list_index_update: "list_index k (items[i := v]) = list_index k items"
  by (simp add: list_index_def split: option.split)

lemma slot_at_reads:
  "slot_at err keys f doc = Ok (a, doc') \<Longrightarrow>
     \<exists>v. f (case_option JNull id (path_get keys doc)) = (a, v) \<and> path_get keys doc' = Some v"
proof (induction err keys f doc arbitrary: a doc' rule: slot_at.induct)
  case (2 err key f node)
  then show ?case
    by (cases node) (auto simp: map_of_obj_insert list_index_update list_index_Some split: prod.splits option.splits)
next
  case (3 err key k keys f node)
  show ?case
  proof (cases node)
    case (JObj es)
    let ?c = "or_map (case_option (JObj []) id (map_of es key))"
    from 3(3) JObj obtain v where v: "slot_at err (k # keys) f ?c = Ok (a, v)" "doc' = JObj (obj_insert key v es)"
      by (auto simp: rbind_eq_Inr)
    have "path_get (k # keys) ?c = path_get (key # k # keys) node"
      unfolding path_get_or_map by (simp add: JObj split: option.splits)
    with 3(2) [OF JObj v(1)] show ?thesis by (simp add: v(2) map_of_obj_insert)
  next
    case (JArr items)
    with 3(3) obtain i where i: "list_index key items = Some i" by (auto split: option.splits)
    with 3(3) JArr obtain v where v: "slot_at err (k # keys) f (or_map (items ! i)) = Ok (a, v)" "doc' = JArr (items[i := v])"
      by (auto simp: rbind_eq_Inr)
    have "path_get (k # keys) (or_map (items ! i)) = path_get (key # k # keys) node"
      unfolding path_get_or_map by (simp add: JArr i)
    with 3(1) [OF JArr i v(1)] show ?thesis by (simp add: v(2) i list_index_update list_index_Some [OF i])
  qed (use 3(3) in simp_all)
qed auto

section \<open>Properties\<close>

lemma try_fold_check: "try_fold supplied_container cs () = Ok () \<longleftrightarrow> (\<forall>(k, c) \<in> set cs. ct_image c \<noteq> ''.'')"
proof (induction cs)
  case (Cons e cs)
  have "supplied_container e () = Ok () \<longleftrightarrow> ct_image (snd e) \<noteq> ''.''"
    by (simp add: supplied_container_def fail_if_def split_def)
  with Cons show ?case by (simp add: rbind_unit split_def)
qed simp

lemma check_supplied_Ok:
  "check_supplied w = Ok () \<longleftrightarrow>
     (\<forall>cs k c. wl_containers w = Some cs \<longrightarrow> (k, c) \<in> set cs \<longrightarrow> ct_image c \<noteq> ''.'') \<and>
     (\<forall>f. wl_function w = Some f \<longrightarrow> fn_package f \<noteq> Image ''.'' \<and> (\<forall>r h. fn_package f \<noteq> Zip ''.'' r h))"
  unfolding check_supplied_def rbind_unit try_fold_check
  by (cases "wl_containers w") (auto simp: fail_if_def split: option.splits package.splits)


definition unset_workload :: workload where
  "unset_workload = sample_workload\<lparr>wl_containers := Some [(''c'', sample_container\<lparr>ct_image := ''.''\<rparr>)]\<rparr>"


text \<open>
  C40: setting a property makes its path read back the new value. Where the path held a string the
  value is the text as it is given; elsewhere it is what the text means in YAML, or the text itself
  when it is not YAML. Maps are created on the way, list elements have to exist.
\<close>

theorem set_property_reads_back:
  assumes "set_property yaml doc path raw = Ok (as_yaml, doc')"
  shows "path_get (split_on (CHR ''.'') path) doc' = Some
    (case path_get (split_on (CHR ''.'') path) doc of
       Some (JStr s) \<Rightarrow> JStr raw
     | _ \<Rightarrow> case_option (JStr raw) id (yaml raw))"
proof -
  from assms have "slot_at (WorkloadError_new (''properties.'' @ path)) (split_on (CHR ''.'') path) (property_value yaml raw) doc
      = Ok (as_yaml, doc')"
    by (simp add: set_property_def slot_def Let_def split: if_splits)
  from slot_at_reads [OF this] show ?thesis
    by (auto simp: property_value_def Let_def split: option.splits json.splits)
qed

theorem set_property_reads_back_witness:
  "set_property (\<lambda>_. Some (JBool True)) (JObj []) ''a.b'' ''yes'' = Ok (True, JObj [(''a'', JObj [(''b'', JBool True)])]) \<and>
   path_get (split_on (CHR ''.'') ''a.b'') (JObj [(''a'', JObj [(''b'', JBool True)])]) = Some (JBool True)"
proof -
  have s: "set_property (\<lambda>_. Some (JBool True)) (JObj []) ''a.b'' ''yes'' = Ok (True, JObj [(''a'', JObj [(''b'', JBool True)])])"
    by (simp add: set_property_def slot_def property_value_def or_map_def)
  from set_property_reads_back [OF s] s show ?thesis by simp
qed

end
