(* ===== verification/Roles.thy ===== *)
theory Roles
  imports Btree Rust_Str
begin

text \<open>
  Roles of members (\<open>store/src/identity.rs\<close>) and the permissions the routes of the server require
  (\<open>server/src/rbac.rs\<close>). A principal holds one organization role, a role per application and the
  deployer role per environment type; \<open>covers\<close> compares two principals and \<open>evaluate\<close> decides one
  request.
\<close>

section \<open>Roles\<close>

datatype org_role = Administrator | Manager | Member | OrgViewer

definition OrgRole_as_str :: "org_role \<Rightarrow> string" where
  "OrgRole_as_str r = (case r of
     Administrator \<Rightarrow> ''administrator''
   | Manager \<Rightarrow> ''manager''
   | Member \<Rightarrow> ''member''
   | OrgViewer \<Rightarrow> ''orgViewer'')"

definition OrgRole_parse :: "string \<Rightarrow> org_role option" where
  "OrgRole_parse s =
     (if s = ''administrator'' then Some Administrator
      else if s = ''manager'' then Some Manager
      else if s = ''member'' then Some Member
      else if s = ''orgViewer'' then Some OrgViewer
      else None)"

text \<open>Application roles are ordered from weakest to strongest, as the derived order of the enum is.\<close>

datatype app_role = Viewer | Developer | Owner

fun app_rank :: "app_role \<Rightarrow> nat" where
  "app_rank Viewer = 0"
| "app_rank Developer = 1"
| "app_rank Owner = 2"

definition app_role_le :: "app_role \<Rightarrow> app_role \<Rightarrow> bool" where
  "app_role_le a b \<longleftrightarrow> app_rank a \<le> app_rank b"

instantiation app_role :: linorder
begin

definition less_eq_app_role :: "app_role \<Rightarrow> app_role \<Rightarrow> bool" where
  "less_eq_app_role a b \<longleftrightarrow> app_role_le a b"

definition less_app_role :: "app_role \<Rightarrow> app_role \<Rightarrow> bool" where
  "less_app_role a b \<longleftrightarrow> a \<le> b \<and> \<not> b \<le> (a :: app_role)"

instance
proof
  fix x y z :: app_role
  show "(x < y) = (x \<le> y \<and> \<not> y \<le> x)" by (rule less_app_role_def)
  show "x \<le> x" by (simp add: less_eq_app_role_def app_role_le_def)
  show "x \<le> y \<Longrightarrow> y \<le> z \<Longrightarrow> x \<le> z" by (simp add: less_eq_app_role_def app_role_le_def)
  show "x \<le> y \<Longrightarrow> y \<le> x \<Longrightarrow> x = y" by (cases x; cases y) (simp_all add: less_eq_app_role_def app_role_le_def)
  show "x \<le> y \<or> y \<le> x" by (auto simp: less_eq_app_role_def app_role_le_def)
qed

end

definition AppRole_as_str :: "app_role \<Rightarrow> string" where
  "AppRole_as_str r = (case r of Viewer \<Rightarrow> ''viewer'' | Developer \<Rightarrow> ''developer'' | Owner \<Rightarrow> ''owner'')"

definition AppRole_parse :: "string \<Rightarrow> app_role option" where
  "AppRole_parse s =
     (if s = ''viewer'' then Some Viewer
      else if s = ''developer'' then Some Developer
      else if s = ''owner'' then Some Owner
      else None)"

lemma OrgRole_parse_as_str [simp]: "OrgRole_parse (OrgRole_as_str r) = Some r"
  by (cases r) (simp_all add: OrgRole_parse_def OrgRole_as_str_def)

lemma AppRole_parse_as_str [simp]: "AppRole_parse (AppRole_as_str r) = Some r"
  by (cases r) (simp_all add: AppRole_parse_def AppRole_as_str_def)

lemma OrgRole_parse_Some: "OrgRole_parse s = Some r \<longleftrightarrow> s = OrgRole_as_str r"
  by (cases r) (auto simp: OrgRole_parse_def OrgRole_as_str_def split: if_splits)

text \<open>\<open>deployer\<close> is a \<open>BTreeSet\<close>, \<open>apps\<close> a \<open>BTreeMap\<close>.\<close>

record roles =
  ro_org :: "org_role option"
  ro_apps :: "(string, app_role) btree_map"
  ro_deployer :: "string list"

definition Roles_default :: roles where
  "Roles_default = \<lparr>ro_org = None, ro_apps = [], ro_deployer = []\<rparr>"

definition org_role_covers :: "org_role \<Rightarrow> org_role \<Rightarrow> bool" where
  "org_role_covers issuer target \<longleftrightarrow> issuer = Administrator \<or> target = Member \<or> issuer = target"

definition covers :: "roles \<Rightarrow> roles \<Rightarrow> bool" where
  "covers issuer target \<longleftrightarrow>
     (if ro_org issuer = Some Administrator then True
      else case (ro_org issuer, ro_org target) of
        (Some i, Some t) \<Rightarrow>
          org_role_covers i t \<and>
          list_all (\<lambda>(app, role). case map_of (ro_apps issuer) app of None \<Rightarrow> False | Some r \<Rightarrow> role \<le> r) (ro_apps target) \<and>
          list_all (\<lambda>t. t \<in> set (ro_deployer issuer)) (ro_deployer target)
      | _ \<Rightarrow> ro_org target = None \<and> ro_apps target = [] \<and> ro_deployer target = [])"

section \<open>Permissions\<close>

datatype org_perm = ReadMembers | ReadAll | ManageMembers | CreateApp | Administer

datatype app_perm = PermRead | PermConfigure | PermManage | PermDeploy

datatype permission = PermPublic | Authenticated | PermOrg org_perm | PermApp app_perm

datatype decision = Allow | Deny string | Hidden

record scope =
  sc_app :: "string option"
  sc_env_type :: "string option"

definition is_admin :: "roles \<Rightarrow> bool" where
  "is_admin r \<longleftrightarrow> ro_org r = Some Administrator"

definition can_see_app :: "roles \<Rightarrow> string \<Rightarrow> bool" where
  "can_see_app r app \<longleftrightarrow> is_admin r \<or> ro_org r = Some OrgViewer \<or> map_of (ro_apps r) app \<noteq> None"

text \<open>\<open>Option\<close> orders \<open>None\<close> before every \<open>Some\<close>.\<close>

definition at_least :: "app_role \<Rightarrow> app_role option \<Rightarrow> bool" where
  "at_least r held \<longleftrightarrow> (case held of None \<Rightarrow> False | Some h \<Rightarrow> r \<le> h)"

definition requires :: "string \<Rightarrow> decision" where
  "requires what = Deny (''requires '' @ what)"

definition evaluate_org :: "org_perm \<Rightarrow> org_role \<Rightarrow> decision" where
  "evaluate_org p r = (case p of
     ReadMembers \<Rightarrow> Allow
   | ReadAll \<Rightarrow> if r = OrgViewer then Allow else requires ''the `administrator` or `orgViewer` role''
   | ManageMembers \<Rightarrow> if r = Manager then Allow else requires ''the `administrator` or `manager` role''
   | CreateApp \<Rightarrow> if r = Manager then Allow else requires ''the `administrator` or `manager` role''
   | Administer \<Rightarrow> requires ''the `administrator` role'')"

definition evaluate_deploy :: "roles \<Rightarrow> scope \<Rightarrow> decision" where
  "evaluate_deploy r sc = (case sc_env_type sc of
     Some t \<Rightarrow>
       if t \<in> set (ro_deployer r) then Allow
       else Deny (''requires the `deployer` role on environment type `'' @ t @ ''`'')
   | None \<Rightarrow> Deny ''no environment in scope'')"

definition evaluate_app :: "app_perm \<Rightarrow> roles \<Rightarrow> scope \<Rightarrow> decision" where
  "evaluate_app p r sc = (case sc_app sc of
     None \<Rightarrow> Deny ''no application in scope''
   | Some app \<Rightarrow>
       if \<not> can_see_app r app then Hidden
       else
         let role = map_of (ro_apps r) app in
         case p of
           PermRead \<Rightarrow> Allow
         | PermConfigure \<Rightarrow>
             if at_least Developer role then Allow else requires (''`developer` or `owner` on `'' @ app @ ''`'')
         | PermManage \<Rightarrow> if role = Some Owner then Allow else requires (''`owner` on `'' @ app @ ''`'')
         | PermDeploy \<Rightarrow>
             if \<not> at_least Developer role then requires (''`developer` or `owner` on `'' @ app @ ''`'')
             else evaluate_deploy r sc)"

definition evaluate :: "permission \<Rightarrow> roles \<Rightarrow> scope \<Rightarrow> decision" where
  "evaluate perm r sc = (case ro_org r of
     None \<Rightarrow> Deny ''not a member of the organization''
   | Some org \<Rightarrow>
       if org = Administrator then Allow
       else case perm of
         PermPublic \<Rightarrow> Allow
       | Authenticated \<Rightarrow> Allow
       | PermOrg p \<Rightarrow> evaluate_org p org
       | PermApp p \<Rightarrow> evaluate_app p r sc)"

section \<open>Covering is enough\<close>

lemma covers_deployer:
  "covers i t \<Longrightarrow> ro_org i \<noteq> Some Administrator \<Longrightarrow> ro_org t \<noteq> None \<Longrightarrow> set (ro_deployer t) \<subseteq> set (ro_deployer i)"
  by (auto simp: covers_def list_all_iff split: option.splits if_splits)

lemma covers_app:
  assumes "covers i t" "ro_org i \<noteq> Some Administrator" "map_of (ro_apps t) app = Some r"
  shows "\<exists>s. map_of (ro_apps i) app = Some s \<and> r \<le> s"
proof -
  have "(app, r) \<in> set (ro_apps t)" using assms(3) by (rule map_of_SomeD)
  with assms(1,2) show ?thesis by (fastforce simp: covers_def list_all_iff split: option.splits if_splits)
qed

lemma covers_org:
  "covers i t \<Longrightarrow> ro_org t = Some b \<Longrightarrow> \<exists>a. ro_org i = Some a \<and> (a = Administrator \<or> b = Member \<or> a = b)"
  by (auto simp: covers_def org_role_covers_def split: option.splits if_splits)

lemma at_least_covers:
  assumes "covers i t" "ro_org i \<noteq> Some Administrator" "at_least r (map_of (ro_apps t) app)"
  shows "at_least r (map_of (ro_apps i) app)"
proof -
  obtain h where h: "map_of (ro_apps t) app = Some h" "r \<le> h" using assms(3) by (auto simp: at_least_def split: option.splits)
  from covers_app [OF assms(1,2) h(1)] h(2) show ?thesis by (auto simp: at_least_def)
qed

lemma can_see_app_covers:
  assumes "covers i t" "can_see_app t app" "ro_org t = Some b" "b \<noteq> Administrator"
  shows "can_see_app i app"
proof (cases "ro_org i = Some Administrator")
  case False
  from covers_org [OF assms(1,3)] False have o: "b = Member \<or> ro_org i = Some b" by auto
  show ?thesis
  proof (cases "map_of (ro_apps t) app")
    case None
    with assms(2-4) o show ?thesis by (auto simp: can_see_app_def is_admin_def)
  next
    case (Some r)
    from covers_app [OF assms(1) False Some] show ?thesis by (auto simp: can_see_app_def)
  qed
qed (simp add: can_see_app_def is_admin_def)

lemma Owner_at_least: "m = Some Owner \<longleftrightarrow> at_least Owner m"
  by (cases m; cases "the m") (auto simp: at_least_def less_eq_app_role_def app_role_le_def)

lemma evaluate_org_mono:
  "evaluate_org p b = Allow \<Longrightarrow> b = Member \<or> a = b \<Longrightarrow> evaluate_org p a = Allow"
  by (cases p) (auto simp: evaluate_org_def requires_def split: if_splits)

lemma evaluate_app_mono:
  assumes "covers i t" "ro_org i \<noteq> Some Administrator" "ro_org t = Some b" "b \<noteq> Administrator" "evaluate_app p t sc = Allow"
  shows "evaluate_app p i sc = Allow"
proof -
  obtain app where app: "sc_app sc = Some app" "can_see_app t app"
    using assms(5) by (auto simp: evaluate_app_def split: option.splits if_splits)
  have see: "can_see_app i app" using can_see_app_covers [OF assms(1) app(2) assms(3,4)] .
  have l: "at_least r (map_of (ro_apps t) app) \<Longrightarrow> at_least r (map_of (ro_apps i) app)" for r
    using at_least_covers [OF assms(1,2)] .
  have d: "set (ro_deployer t) \<subseteq> set (ro_deployer i)" using covers_deployer [OF assms(1,2)] assms(3) by simp
  show ?thesis using assms(5) l d app see
    by (cases p)
      (auto simp: evaluate_app_def Let_def requires_def evaluate_deploy_def Owner_at_least split: if_splits option.splits)
qed

lemma evaluate_covers:
  assumes "covers i t" "evaluate p t sc = Allow"
  shows "evaluate p i sc = Allow"
proof -
  obtain b where b: "ro_org t = Some b" using assms(2) by (auto simp: evaluate_def split: option.splits)
  obtain a where a: "ro_org i = Some a" "a = Administrator \<or> b = Member \<or> a = b" using covers_org [OF assms(1) b] by blast
  show ?thesis
  proof (cases "a = Administrator")
    case False
    then have nb: "b \<noteq> Administrator" using a(2) by auto
    have i: "ro_org i \<noteq> Some Administrator" using a(1) False by simp
    show ?thesis using assms(2) evaluate_org_mono [of _ b a] evaluate_app_mono [OF assms(1) i b nb] a False nb b
      by (cases p) (auto simp: evaluate_def)
  qed (simp add: evaluate_def a(1))
qed

end
