(* ===== verification/Identity.thy ===== *)
theory Identity
  imports Roles "HOL-Library.Sublist"
begin

text \<open>
  Members, tokens, sessions, invitations and roles of an installation: \<open>store/src/identity.rs\<close>,
  \<open>store/src/audit.rs\<close> and the \<open>IdentityStore\<close> of \<open>store/src/sqlite_identity.rs\<close>, with the tables of
  \<open>migrations/0001_initial.sql\<close>. A database is a record of tables, a table its rows in insertion
  order. Statements are written out one by one with the constraints the schema gives them; a
  transaction returns the changed database or an error, in which case nothing changed. All rows
  belong to the store's organization, so the \<open>org_id\<close> columns are left out, and so is the random ID
  of an audit entry. The clock is read once per transaction and is an argument.
\<close>

section \<open>Errors\<close>

datatype db_error = UniqueViolation | ForeignKeyViolation | CheckViolation

datatype store_error =
    AlreadyOwned string
  | SchemaTooNew int int
  | NotFound string
  | AlreadyExists string
  | StaleGeneration int int
  | Busy string
  | Detached string
  | RecoveryRequired string
  | MigrationRequired string string string
  | PermitInvalid string
  | ApprovalRequired string
  | IdempotencyMismatch string
  | Invalid string
  | Conflict string
  | Forbidden string
  | Corrupt string
  | Database db_error
  | Migrate string
  | Io string string

section \<open>Data\<close>

record principal =
  p_id :: string
  p_kind :: string
  p_name :: string
  p_email :: "string option"
  p_role :: org_role
  p_identity :: "string option"
  p_created_at :: int
  p_created_by :: "string option"

record new_principal =
  np_id :: string
  np_kind :: string
  np_name :: string
  np_email :: "string option"
  np_role :: org_role

record token_info =
  ti_id :: string
  ti_description :: "string option"
  ti_expires_at :: "int option"
  ti_created_at :: int
  ti_created_by :: string
  ti_last_used_at :: "int option"
  ti_revoked_at :: "int option"

record invitation =
  inv_id :: string
  inv_role :: org_role
  inv_email :: "string option"
  inv_provider :: "string option"
  inv_subject :: "string option"
  inv_login :: "string option"
  inv_expires_at :: int
  inv_created_at :: int
  inv_created_by :: string
  inv_consumed_at :: "int option"

record new_invitation =
  ni_id :: string
  ni_role :: org_role
  ni_email :: "string option"
  ni_provider :: "string option"
  ni_subject :: "string option"
  ni_login :: "string option"
  ni_code_hash :: string
  ni_expires_at :: int

record external_identity =
  ei_provider :: string
  ei_subject :: string
  ei_login :: "string option"
  ei_verified_emails :: "string list"
  ei_name :: string

datatype audit_outcome = Accepted | Succeeded | Failed | Denied

definition AuditOutcome_as_str :: "audit_outcome \<Rightarrow> string" where
  "AuditOutcome_as_str o' = (case o' of
     Accepted \<Rightarrow> ''accepted'' | Succeeded \<Rightarrow> ''succeeded'' | Failed \<Rightarrow> ''failed'' | Denied \<Rightarrow> ''denied'')"

record audit_intent =
  au_org :: string
  au_actor :: "string option"
  au_request_id :: "string option"
  au_method :: string
  au_path :: string
  au_action :: string
  au_target :: "string option"
  au_outcome :: audit_outcome
  au_status_code :: "nat option"
  au_reason :: "string option"

definition AuditIntent_accepted :: "string \<Rightarrow> string \<Rightarrow> string \<Rightarrow> string \<Rightarrow> string \<Rightarrow> audit_intent" where
  "AuditIntent_accepted org actor meth path action =
     \<lparr>au_org = org, au_actor = Some actor, au_request_id = None, au_method = meth, au_path = path,
      au_action = action, au_target = None, au_outcome = Accepted, au_status_code = None, au_reason = None\<rparr>"

record audit_entry =
  ae_seq :: int
  ae_at :: int
  ae_actor_id :: "string option"
  ae_request_id :: "string option"
  ae_operation_id :: "string option"
  ae_method :: string
  ae_path :: string
  ae_action :: string
  ae_target :: "string option"
  ae_outcome :: string
  ae_status_code :: "nat option"
  ae_reason :: "string option"
  ae_correlates :: "string option"

record audit_filter =
  af_from :: "int option"
  af_to :: "int option"
  af_user_id :: "string option"
  af_path_prefix :: "string option"
  af_method :: "string option"
  af_before :: "int option"
  af_limit :: nat

record sealed =
  sl_key_id :: string
  sl_nonce :: string
  sl_ciphertext :: string

record app_record =
  ap_id :: string
  ap_name :: string
  ap_created_at :: int
  ap_created_by :: "string option"
  ap_state :: string

record env_type_record =
  et_id :: string
  et_description :: string
  et_protected :: bool
  et_created_at :: int

section \<open>Tables\<close>

record principal_row =
  pr_id :: string
  pr_type :: string
  pr_name :: string
  pr_email :: "string option"
  pr_org_role :: string
  pr_created_at :: int
  pr_created_by :: "string option"

record identity_row =
  ir_provider :: string
  ir_subject :: string
  ir_principal :: string
  ir_login :: "string option"
  ir_email :: "string option"
  ir_created_at :: int

record invitation_row =
  iv_id :: string
  iv_org_role :: string
  iv_email :: "string option"
  iv_provider :: "string option"
  iv_subject :: "string option"
  iv_login :: "string option"
  iv_code_hash :: string
  iv_expires_at :: int
  iv_created_at :: int
  iv_created_by :: string
  iv_consumed_at :: "int option"
  iv_consumed_by :: "string option"

record token_row =
  tk_principal :: string
  tk_id :: string
  tk_description :: "string option"
  tk_token_hash :: string
  tk_expires_at :: "int option"
  tk_created_at :: int
  tk_created_by :: string
  tk_last_used_at :: "int option"
  tk_revoked_at :: "int option"

record session_row =
  se_jti :: string
  se_principal :: string
  se_issued_at :: int
  se_expires_at :: int
  se_revoked_at :: "int option"

record signing_key_row =
  sk_id :: string
  sk_purpose :: string
  sk_algorithm :: string
  sk_sealed :: sealed
  sk_created_at :: int
  sk_retired_at :: "int option"

record app_role_row =
  rr_app :: string
  rr_principal :: string
  rr_role :: string

record env_role_row =
  er_env_type :: string
  er_principal :: string

text \<open>Of an environment the store of identities reads its application, its ID and its type.\<close>

record env_row =
  ev_app :: string
  ev_id :: string
  ev_type :: string

record identity_db =
  db_org :: string
  db_principals :: "principal_row list"
  db_identities :: "identity_row list"
  db_invitations :: "invitation_row list"
  db_tokens :: "token_row list"
  db_sessions :: "session_row list"
  db_signing_keys :: "signing_key_row list"
  db_app_roles :: "app_role_row list"
  db_env_roles :: "env_role_row list"
  db_apps :: "app_record list"
  db_env_types :: "env_type_record list"
  db_envs :: "env_row list"
  db_audit_seq :: int
  db_audit :: "audit_entry list"

definition update_where :: "('a \<Rightarrow> bool) \<Rightarrow> ('a \<Rightarrow> 'a) \<Rightarrow> 'a list \<Rightarrow> 'a list" where
  "update_where P f = map (\<lambda>r. if P r then f r else r)"

section \<open>Reading\<close>

definition check_org :: "identity_db \<Rightarrow> string \<Rightarrow> store_error + unit" where
  "check_org db org = (if org = db_org db then Ok () else Err (NotFound (''organization `'' @ org @ ''`'')))"

definition is_new :: "identity_db \<Rightarrow> bool" where
  "is_new db \<longleftrightarrow> length (db_principals db) = 0"

definition linked_identity :: "identity_db \<Rightarrow> string \<Rightarrow> string option" where
  "linked_identity db who =
     map_option (\<lambda>i. ir_provider i @ '':'' @ ir_subject i) (find (\<lambda>i. ir_principal i = who) (db_identities db))"

definition principal_from_row :: "identity_db \<Rightarrow> principal_row \<Rightarrow> store_error + principal" where
  "principal_from_row db r =
     rbind (ok_or (Corrupt (''role `'' @ pr_org_role r @ ''`'')) (OrgRole_parse (pr_org_role r))) (\<lambda>role.
     Ok \<lparr>p_id = pr_id r, p_kind = pr_type r, p_name = pr_name r, p_email = pr_email r, p_role = role,
         p_identity = linked_identity db (pr_id r), p_created_at = pr_created_at r, p_created_by = pr_created_by r\<rparr>)"

definition fetch_principal :: "identity_db \<Rightarrow> string \<Rightarrow> store_error + principal option" where
  "fetch_principal db i = (case find (\<lambda>p. pr_id p = i) (db_principals db) of
     None \<Rightarrow> Ok None
   | Some r \<Rightarrow> rbind (principal_from_row db r) (\<lambda>p. Ok (Some p)))"

definition require_principal :: "identity_db \<Rightarrow> string \<Rightarrow> store_error + principal" where
  "require_principal db i = rbind (fetch_principal db i) (ok_or (NotFound (''user `'' @ i @ ''`'')))"

definition app_role_of :: "app_role_row \<Rightarrow> (string \<times> app_role) option" where
  "app_role_of r = map_option (\<lambda>role. (rr_app r, role)) (AppRole_parse (rr_role r))"

definition roles_in :: "identity_db \<Rightarrow> string \<Rightarrow> store_error + roles" where
  "roles_in db who = rbind (fetch_principal db who) (\<lambda>found. case found of
     None \<Rightarrow> Ok Roles_default
   | Some p \<Rightarrow> Ok \<lparr>ro_org = Some (p_role p),
       ro_apps = bt_of (List.map_filter app_role_of (filter (\<lambda>r. rr_principal r = who) (db_app_roles db))),
       ro_deployer = bs_of (map er_env_type (filter (\<lambda>r. er_principal r = who) (db_env_roles db)))\<rparr>)"

definition token_from_row :: "token_row \<Rightarrow> token_info" where
  "token_from_row r = \<lparr>ti_id = tk_id r, ti_description = tk_description r, ti_expires_at = tk_expires_at r,
     ti_created_at = tk_created_at r, ti_created_by = tk_created_by r, ti_last_used_at = tk_last_used_at r,
     ti_revoked_at = tk_revoked_at r\<rparr>"

definition invitation_from_row :: "invitation_row \<Rightarrow> store_error + invitation" where
  "invitation_from_row r =
     rbind (ok_or (Corrupt (''role `'' @ iv_org_role r @ ''`'')) (OrgRole_parse (iv_org_role r))) (\<lambda>role.
     Ok \<lparr>inv_id = iv_id r, inv_role = role, inv_email = iv_email r, inv_provider = iv_provider r,
         inv_subject = iv_subject r, inv_login = iv_login r, inv_expires_at = iv_expires_at r,
         inv_created_at = iv_created_at r, inv_created_by = iv_created_by r, inv_consumed_at = iv_consumed_at r\<rparr>)"

section \<open>Authority\<close>

definition authority_denied :: "string \<Rightarrow> store_error" where
  "authority_denied actor =
     Forbidden (''`'' @ actor @ ''` does not hold every permission this change would grant or affect'')"

definition check_authority_for ::
  "identity_db \<Rightarrow> string option \<Rightarrow> string option \<Rightarrow> org_role option \<Rightarrow> bool \<Rightarrow> store_error + unit" where
  "check_authority_for db actor target resulting removal = (case actor of
     None \<Rightarrow> Ok ()
   | Some actor \<Rightarrow>
       rbind (roles_in db actor) (\<lambda>issuer.
       if ro_org issuer = Some Administrator then Ok ()
       else if ro_org issuer \<noteq> Some Manager then Err (authority_denied actor)
       else
         rbind (case target of Some t \<Rightarrow> roles_in db t | None \<Rightarrow> Ok Roles_default) (\<lambda>current.
         if ro_org current = Some Administrator \<or> (\<not> removal \<and> \<not> covers issuer current) then Err (authority_denied actor)
         else case resulting of
           None \<Rightarrow> Ok ()
         | Some role \<Rightarrow>
             if role = Administrator \<or> \<not> covers issuer (current\<lparr>ro_org := Some role\<rparr>) then Err (authority_denied actor)
             else Ok ())))"

definition check_authority ::
  "identity_db \<Rightarrow> string option \<Rightarrow> string option \<Rightarrow> org_role option \<Rightarrow> store_error + unit" where
  "check_authority db actor target resulting = check_authority_for db actor target resulting False"

definition check_removal_authority :: "identity_db \<Rightarrow> string option \<Rightarrow> string \<Rightarrow> store_error + unit" where
  "check_removal_authority db actor target = check_authority_for db actor (Some target) None True"

definition check_app_authority :: "identity_db \<Rightarrow> string option \<Rightarrow> string \<Rightarrow> store_error + unit" where
  "check_app_authority db actor app = (case actor of
     None \<Rightarrow> Ok ()
   | Some actor \<Rightarrow> rbind (roles_in db actor) (\<lambda>r.
       if ro_org r = Some Administrator \<or> map_of (ro_apps r) app = Some Owner then Ok ()
       else Err (Forbidden (''`'' @ actor @ ''` is not `owner` on `'' @ app @ ''`''))))"

definition check_configure_authority :: "identity_db \<Rightarrow> string option \<Rightarrow> string \<Rightarrow> store_error + unit" where
  "check_configure_authority db actor app =
     (if \<not> list_ex (\<lambda>a. ap_id a = app) (db_apps db) then Err (NotFound (''application `'' @ app @ ''`''))
      else case actor of
        None \<Rightarrow> Ok ()
      | Some actor \<Rightarrow> rbind (roles_in db actor) (\<lambda>r.
          if ro_org r = Some Administrator \<or> at_least Developer (map_of (ro_apps r) app) then Ok ()
          else Err (Forbidden (''`'' @ actor @ ''` is not `developer` or `owner` on `'' @ app @ ''`''))))"

definition values_types :: "identity_db \<Rightarrow> string \<Rightarrow> string option \<Rightarrow> string list" where
  "values_types db app env =
     bs_of (map ev_type (filter (\<lambda>e. ev_app e = app \<and> (env = None \<or> env = Some (ev_id e))) (db_envs db)))"

definition deployer_required :: "string \<Rightarrow> store_error" where
  "deployer_required t = Forbidden (''requires the `deployer` role on environment type `'' @ t @ ''`'')"

definition check_values_authority ::
  "identity_db \<Rightarrow> string option \<Rightarrow> string \<Rightarrow> string option \<Rightarrow> store_error + unit" where
  "check_values_authority db actor app env =
     rbind (check_configure_authority db actor app) (\<lambda>_.
     case actor of
       None \<Rightarrow> Ok ()
     | Some actor \<Rightarrow> rbind (roles_in db actor) (\<lambda>r.
         if ro_org r = Some Administrator then Ok ()
         else case find (\<lambda>t. t \<notin> set (ro_deployer r)) (values_types db app env) of
           None \<Rightarrow> Ok ()
         | Some t \<Rightarrow> Err (deployer_required t)))"

definition check_env_authority :: "identity_db \<Rightarrow> string option \<Rightarrow> string \<Rightarrow> string \<Rightarrow> store_error + unit" where
  "check_env_authority db actor app env_type = (case actor of
     None \<Rightarrow> Ok ()
   | Some actor \<Rightarrow> rbind (roles_in db actor) (\<lambda>r.
       if ro_org r = Some Administrator then Ok ()
       else if \<not> at_least Developer (map_of (ro_apps r) app) then
         Err (Forbidden (''`'' @ actor @ ''` is not `developer` or `owner` on `'' @ app @ ''`''))
       else if env_type \<notin> set (ro_deployer r) then Err (deployer_required env_type)
       else Ok ()))"

definition check_admin_authority :: "identity_db \<Rightarrow> string option \<Rightarrow> store_error + unit" where
  "check_admin_authority db actor = (case actor of
     None \<Rightarrow> Ok ()
   | Some actor \<Rightarrow> rbind (roles_in db actor) (\<lambda>r.
       if ro_org r = Some Administrator then Ok ()
       else Err (Forbidden (''`'' @ actor @ ''` is not an administrator''))))"

definition check_create_app_authority :: "identity_db \<Rightarrow> string option \<Rightarrow> store_error + unit" where
  "check_create_app_authority db actor = (case actor of
     None \<Rightarrow> Ok ()
   | Some actor \<Rightarrow> rbind (roles_in db actor) (\<lambda>r.
       if ro_org r = Some Administrator \<or> ro_org r = Some Manager then Ok ()
       else Err (Forbidden (''`'' @ actor @ ''` is not an administrator or manager''))))"

definition guard_last_admin :: "identity_db \<Rightarrow> string \<Rightarrow> store_error + unit" where
  "guard_last_admin db i =
     (if length (filter (\<lambda>p. pr_org_role p = ''administrator'' \<and> pr_id p \<noteq> i) (db_principals db)) = 0
      then Err (Conflict ''the organization must keep at least one administrator'')
      else Ok ())"

section \<open>Statements\<close>

type_synonym 'a tx = "identity_db \<Rightarrow> store_error + ('a \<times> identity_db)"

definition audit_insert ::
  "audit_intent \<Rightarrow> string option \<Rightarrow> string option \<Rightarrow> int \<Rightarrow> identity_db \<Rightarrow> identity_db" where
  "audit_insert intent operation correlates now db =
     db\<lparr>db_audit_seq := db_audit_seq db + 1,
        db_audit := db_audit db @ [\<lparr>ae_seq = db_audit_seq db + 1, ae_at = now, ae_actor_id = au_actor intent,
          ae_request_id = au_request_id intent, ae_operation_id = operation, ae_method = au_method intent,
          ae_path = au_path intent, ae_action = au_action intent, ae_target = au_target intent,
          ae_outcome = AuditOutcome_as_str (au_outcome intent), ae_status_code = au_status_code intent,
          ae_reason = au_reason intent, ae_correlates = correlates\<rparr>]\<rparr>"

definition audit_in :: "audit_intent \<Rightarrow> int \<Rightarrow> identity_db \<Rightarrow> identity_db" where
  "audit_in intent now db = audit_insert intent None None now db"

definition has_principal :: "identity_db \<Rightarrow> string \<Rightarrow> bool" where
  "has_principal db i \<longleftrightarrow> list_ex (\<lambda>p. pr_id p = i) (db_principals db)"

definition insert_principal ::
  "new_principal \<Rightarrow> string option \<Rightarrow> int \<Rightarrow> identity_db \<Rightarrow> store_error + identity_db" where
  "insert_principal p created_by now db =
     (if np_kind p \<noteq> ''user'' \<and> np_kind p \<noteq> ''service'' then Err (Database CheckViolation)
      else if has_principal db (np_id p) then Err (AlreadyExists (''user `'' @ np_id p @ ''`''))
      else Ok (db\<lparr>db_principals := db_principals db @
        [\<lparr>pr_id = np_id p, pr_type = np_kind p, pr_name = np_name p, pr_email = np_email p,
          pr_org_role = OrgRole_as_str (np_role p), pr_created_at = now, pr_created_by = created_by\<rparr>]\<rparr>))"

definition insert_token :: "token_row \<Rightarrow> identity_db \<Rightarrow> db_error + identity_db" where
  "insert_token t db =
     (if list_ex (\<lambda>u. tk_token_hash u = tk_token_hash t \<or> (tk_principal u = tk_principal t \<and> tk_id u = tk_id t)) (db_tokens db)
      then Err UniqueViolation
      else if \<not> has_principal db (tk_principal t) then Err ForeignKeyViolation
      else Ok (db\<lparr>db_tokens := db_tokens db @ [t]\<rparr>))"

definition insert_identity :: "identity_row \<Rightarrow> identity_db \<Rightarrow> db_error + identity_db" where
  "insert_identity i db =
     (if list_ex (\<lambda>j. (ir_provider j = ir_provider i \<and> ir_subject j = ir_subject i) \<or> ir_principal j = ir_principal i) (db_identities db)
      then Err UniqueViolation
      else if \<not> has_principal db (ir_principal i) then Err ForeignKeyViolation
      else Ok (db\<lparr>db_identities := db_identities db @ [i]\<rparr>))"

definition insert_session :: "session_row \<Rightarrow> identity_db \<Rightarrow> db_error + identity_db" where
  "insert_session s db =
     (if list_ex (\<lambda>u. se_jti u = se_jti s) (db_sessions db) then Err UniqueViolation
      else if \<not> has_principal db (se_principal s) then Err ForeignKeyViolation
      else Ok (db\<lparr>db_sessions := db_sessions db @ [s]\<rparr>))"

definition update_role :: "string \<Rightarrow> org_role \<Rightarrow> identity_db \<Rightarrow> identity_db" where
  "update_role i role db =
     db\<lparr>db_principals := update_where (\<lambda>p. pr_id p = i) (\<lambda>p. p\<lparr>pr_org_role := OrgRole_as_str role\<rparr>) (db_principals db)\<rparr>"

definition update_name :: "string \<Rightarrow> string \<Rightarrow> identity_db \<Rightarrow> identity_db" where
  "update_name i name db =
     db\<lparr>db_principals := update_where (\<lambda>p. pr_id p = i) (\<lambda>p. p\<lparr>pr_name := name\<rparr>) (db_principals db)\<rparr>"

text \<open>Deleting a principal cascades to every table that refers to principals.\<close>

definition delete_principal :: "string \<Rightarrow> identity_db \<Rightarrow> identity_db" where
  "delete_principal i db =
     db\<lparr>db_principals := filter (\<lambda>p. pr_id p \<noteq> i) (db_principals db),
        db_identities := filter (\<lambda>r. ir_principal r \<noteq> i) (db_identities db),
        db_tokens := filter (\<lambda>t. tk_principal t \<noteq> i) (db_tokens db),
        db_sessions := filter (\<lambda>s. se_principal s \<noteq> i) (db_sessions db),
        db_app_roles := filter (\<lambda>r. rr_principal r \<noteq> i) (db_app_roles db),
        db_env_roles := filter (\<lambda>r. er_principal r \<noteq> i) (db_env_roles db)\<rparr>"

definition coalesce :: "'a option \<Rightarrow> 'a \<Rightarrow> 'a option" where
  "coalesce old new = (case old of None \<Rightarrow> Some new | Some v \<Rightarrow> Some v)"

section \<open>Principals\<close>

definition create_principal :: "string \<Rightarrow> new_principal \<Rightarrow> audit_intent \<Rightarrow> int \<Rightarrow> principal tx" where
  "create_principal org p audit now db =
     rbind (check_org db org) (\<lambda>_.
     rbind (check_authority db (au_actor audit) None (Some (np_role p))) (\<lambda>_.
     rbind (insert_principal p (au_actor audit) now db) (\<lambda>db.
     let db = audit_in audit now db in
     rbind (require_principal db (np_id p)) (\<lambda>r. Ok (r, db)))))"

definition bootstrap_admin :: new_principal where
  "bootstrap_admin = \<lparr>np_id = ''bootstrap'', np_kind = ''service'', np_name = ''Bootstrap administrator'',
     np_email = None, np_role = Administrator\<rparr>"

definition create_bootstrap_admin :: "string \<Rightarrow> string \<Rightarrow> int \<Rightarrow> audit_intent \<Rightarrow> int \<Rightarrow> principal tx" where
  "create_bootstrap_admin org token_hash expires_at audit now db =
     rbind (check_org db org) (\<lambda>_.
     rbind (insert_principal bootstrap_admin None now db) (\<lambda>db.
     rbind (map_err Database (insert_token
       \<lparr>tk_principal = ''bootstrap'', tk_id = ''bootstrap'', tk_description = Some ''Created on first start'',
        tk_token_hash = token_hash, tk_expires_at = Some expires_at, tk_created_at = now, tk_created_by = ''system'',
        tk_last_used_at = None, tk_revoked_at = None\<rparr> db)) (\<lambda>db.
     let db = audit_in audit now db in
     rbind (require_principal db ''bootstrap'') (\<lambda>r. Ok (r, db)))))"

definition principal_of :: "string \<Rightarrow> string \<Rightarrow> identity_db \<Rightarrow> store_error + principal option" where
  "principal_of org i db = rbind (check_org db org) (\<lambda>_. fetch_principal db i)"

definition principals :: "string \<Rightarrow> identity_db \<Rightarrow> store_error + principal list" where
  "principals org db = rbind (check_org db org) (\<lambda>_. try_map (principal_from_row db) (sort_key pr_id (db_principals db)))"

definition set_org_role :: "string \<Rightarrow> string \<Rightarrow> org_role \<Rightarrow> audit_intent \<Rightarrow> int \<Rightarrow> principal tx" where
  "set_org_role org i role audit now db =
     rbind (check_org db org) (\<lambda>_.
     rbind (require_principal db i) (\<lambda>current.
     rbind (check_authority db (au_actor audit) (Some i) (Some role)) (\<lambda>_.
     rbind (if p_role current = Administrator \<and> role \<noteq> Administrator then guard_last_admin db i else Ok ()) (\<lambda>_.
     let db = audit_in audit now (update_role i role db) in
     rbind (require_principal db i) (\<lambda>r. Ok (r, db))))))"

definition update_principal ::
  "string \<Rightarrow> string \<Rightarrow> org_role option \<Rightarrow> string option \<Rightarrow> audit_intent \<Rightarrow> int \<Rightarrow> principal tx" where
  "update_principal org i role name audit now db =
     rbind (check_org db org) (\<lambda>_.
     rbind (require_principal db i) (\<lambda>current.
     rbind (check_authority db (au_actor audit) (Some i) role) (\<lambda>_.
     rbind (case role of
         None \<Rightarrow> Ok db
       | Some role \<Rightarrow>
           rbind (if p_role current = Administrator \<and> role \<noteq> Administrator then guard_last_admin db i else Ok ()) (\<lambda>_.
           Ok (update_role i role db))) (\<lambda>db.
     let db = audit_in audit now (case name of None \<Rightarrow> db | Some name \<Rightarrow> update_name i name db) in
     rbind (require_principal db i) (\<lambda>r. Ok (r, db))))))"

definition remove_principal :: "string \<Rightarrow> string \<Rightarrow> audit_intent \<Rightarrow> int \<Rightarrow> unit tx" where
  "remove_principal org i audit now db =
     rbind (check_org db org) (\<lambda>_.
     rbind (require_principal db i) (\<lambda>current.
     rbind (check_removal_authority db (au_actor audit) i) (\<lambda>_.
     rbind (if p_role current = Administrator then guard_last_admin db i else Ok ()) (\<lambda>_.
     Ok ((), audit_in audit now (delete_principal i db))))))"

definition set_identity :: "string \<Rightarrow> string \<Rightarrow> string \<Rightarrow> string \<Rightarrow> audit_intent \<Rightarrow> int \<Rightarrow> principal tx" where
  "set_identity org i provider subject audit now db =
     rbind (check_org db org) (\<lambda>_.
     rbind (require_principal db i) (\<lambda>current.
     rbind (check_admin_authority db (au_actor audit)) (\<lambda>_.
     if p_kind current \<noteq> ''user'' then
       Err (Invalid ''only users have an identity; service users authenticate with tokens'')
     else if (case find (\<lambda>r. ir_provider r = provider \<and> ir_subject r = subject) (db_identities db) of
                None \<Rightarrow> False | Some other \<Rightarrow> ir_principal other \<noteq> i) then
       Err (Conflict ''this identity already belongs to another member'')
     else
       rbind (map_err Database (insert_identity
         \<lparr>ir_provider = provider, ir_subject = subject, ir_principal = i, ir_login = None,
          ir_email = p_email current, ir_created_at = now\<rparr>
         (db\<lparr>db_identities := filter (\<lambda>r. ir_principal r \<noteq> i) (db_identities db)\<rparr>))) (\<lambda>db.
       let db = db\<lparr>db_sessions := update_where (\<lambda>s. se_principal s = i)
                   (\<lambda>s. s\<lparr>se_revoked_at := coalesce (se_revoked_at s) now\<rparr>) (db_sessions db)\<rparr>;
           db = audit_in audit now db in
       rbind (require_principal db i) (\<lambda>r. Ok (r, db))))))"

definition roles_of :: "string \<Rightarrow> string \<Rightarrow> identity_db \<Rightarrow> store_error + roles" where
  "roles_of org i db = rbind (check_org db org) (\<lambda>_. roles_in db i)"

section \<open>Tokens, sessions and signing keys\<close>

definition create_token ::
  "string \<Rightarrow> string \<Rightarrow> string \<Rightarrow> string option \<Rightarrow> int option \<Rightarrow> string \<Rightarrow> audit_intent \<Rightarrow> int \<Rightarrow> token_info tx" where
  "create_token org who i description expires_at token_hash audit now db =
     rbind (check_org db org) (\<lambda>_.
     rbind (require_principal db who) (\<lambda>target.
     rbind (case au_actor audit of
         Some actor \<Rightarrow>
           if actor = who then Ok ()
           else if p_kind target \<noteq> ''service'' then
             Err (Forbidden ''tokens of a user can only be created by that user'')
           else check_authority db (Some actor) (Some who) None
       | None \<Rightarrow> check_authority db None (Some who) None) (\<lambda>_.
     let t = \<lparr>tk_principal = who, tk_id = i, tk_description = description, tk_token_hash = token_hash,
              tk_expires_at = expires_at, tk_created_at = now, tk_created_by = case_option ''system'' id (au_actor audit),
              tk_last_used_at = None, tk_revoked_at = None\<rparr> in
     rbind (map_err (\<lambda>e. if e = UniqueViolation then AlreadyExists (''token `'' @ i @ ''`'') else Database e)
       (insert_token t db)) (\<lambda>db.
     Ok (token_from_row t, audit_in audit now db)))))"

definition tokens :: "string \<Rightarrow> string \<Rightarrow> identity_db \<Rightarrow> store_error + token_info list" where
  "tokens org who db = rbind (check_org db org) (\<lambda>_.
     Ok (map token_from_row (sort_key tk_id (filter (\<lambda>t. tk_principal t = who) (db_tokens db)))))"

definition revoke_token :: "string \<Rightarrow> string \<Rightarrow> string \<Rightarrow> audit_intent \<Rightarrow> int \<Rightarrow> unit tx" where
  "revoke_token org who i audit now db =
     rbind (check_org db org) (\<lambda>_.
     rbind (case au_actor audit of
         None \<Rightarrow> Ok ()
       | Some actor \<Rightarrow>
           if actor = who then Ok ()
           else
             rbind (require_principal db who) (\<lambda>target.
             rbind (roles_in db actor) (\<lambda>issuer.
             if ro_org issuer = Some Administrator then Ok ()
             else if p_kind target \<noteq> ''service'' then
               Err (Forbidden ''tokens of a user can only be revoked by that user or an administrator'')
             else check_authority db (Some actor) (Some who) None))) (\<lambda>_.
     if \<not> list_ex (\<lambda>t. tk_principal t = who \<and> tk_id t = i) (db_tokens db) then Err (NotFound (''token `'' @ i @ ''`''))
     else Ok ((), audit_in audit now (db\<lparr>db_tokens := update_where (\<lambda>t. tk_principal t = who \<and> tk_id t = i)
       (\<lambda>t. t\<lparr>tk_revoked_at := coalesce (tk_revoked_at t) now\<rparr>) (db_tokens db)\<rparr>))))"

definition TOKEN_USE_INTERVAL_MS :: int where
  "TOKEN_USE_INTERVAL_MS = 60000"

definition live_token :: "string \<Rightarrow> int \<Rightarrow> token_row \<Rightarrow> bool" where
  "live_token token_hash now t \<longleftrightarrow> tk_token_hash t = token_hash \<and> tk_revoked_at t = None \<and>
     (case tk_expires_at t of None \<Rightarrow> True | Some e \<Rightarrow> now < e)"

definition touch_token :: "string \<Rightarrow> int \<Rightarrow> identity_db \<Rightarrow> identity_db" where
  "touch_token token_hash now db = db\<lparr>db_tokens := update_where (\<lambda>t. tk_token_hash t = token_hash \<and>
     (case tk_last_used_at t of None \<Rightarrow> True | Some u \<Rightarrow> u \<le> now - TOKEN_USE_INTERVAL_MS))
     (\<lambda>t. t\<lparr>tk_last_used_at := Some now\<rparr>) (db_tokens db)\<rparr>"

text \<open>\<open>busy\<close> says that the database was busy when the use was to be recorded.\<close>

definition authenticate_token :: "bool \<Rightarrow> string \<Rightarrow> string \<Rightarrow> int \<Rightarrow> principal option tx" where
  "authenticate_token busy org token_hash now db =
     rbind (check_org db org) (\<lambda>_.
     case find (live_token token_hash now) (db_tokens db) of
       None \<Rightarrow> Ok (None, db)
     | Some t \<Rightarrow>
         let db = (if busy then db else touch_token token_hash now db) in
         rbind (fetch_principal db (tk_principal t)) (\<lambda>p. Ok (p, db)))"

definition record_session :: "string \<Rightarrow> string \<Rightarrow> string \<Rightarrow> int \<Rightarrow> audit_intent \<Rightarrow> int \<Rightarrow> unit tx" where
  "record_session org jti who expires_at audit now db =
     rbind (check_org db org) (\<lambda>_.
     rbind (map_err Database (insert_session \<lparr>se_jti = jti, se_principal = who, se_issued_at = now,
       se_expires_at = expires_at, se_revoked_at = None\<rparr> db)) (\<lambda>db.
     Ok ((), audit_in audit now db)))"

definition live_session :: "string \<Rightarrow> string \<Rightarrow> int \<Rightarrow> session_row \<Rightarrow> bool" where
  "live_session jti who now s \<longleftrightarrow> se_jti s = jti \<and> se_principal s = who \<and> se_revoked_at s = None \<and> now < se_expires_at s"

definition authenticate_session :: "string \<Rightarrow> string \<Rightarrow> string \<Rightarrow> int \<Rightarrow> identity_db \<Rightarrow> store_error + principal option" where
  "authenticate_session org jti who now db =
     rbind (check_org db org) (\<lambda>_.
     if \<not> list_ex (live_session jti who now) (db_sessions db) then Ok None
     else fetch_principal db who)"

definition revoke_session :: "string \<Rightarrow> string \<Rightarrow> audit_intent \<Rightarrow> int \<Rightarrow> unit tx" where
  "revoke_session org jti audit now db =
     rbind (check_org db org) (\<lambda>_.
     Ok ((), audit_in audit now (db\<lparr>db_sessions := update_where (\<lambda>s. se_jti s = jti)
       (\<lambda>s. s\<lparr>se_revoked_at := coalesce (se_revoked_at s) now\<rparr>) (db_sessions db)\<rparr>)))"

text \<open>\<open>key_row\<close> is the random ID of a new row.\<close>

definition signing_key :: "string \<Rightarrow> string \<Rightarrow> sealed \<Rightarrow> string \<Rightarrow> int \<Rightarrow> sealed tx" where
  "signing_key purpose algorithm generated key_row now db =
     (case sort_key (\<lambda>k. - sk_created_at k) (filter (\<lambda>k. sk_purpose k = purpose \<and> sk_retired_at k = None) (db_signing_keys db)) of
        k # _ \<Rightarrow> Ok (sk_sealed k, db)
      | [] \<Rightarrow>
          if list_ex (\<lambda>k. sk_id k = key_row) (db_signing_keys db) then Err (Database UniqueViolation)
          else Ok (generated, db\<lparr>db_signing_keys := db_signing_keys db @ [\<lparr>sk_id = key_row, sk_purpose = purpose,
            sk_algorithm = algorithm, sk_sealed = generated, sk_created_at = now, sk_retired_at = None\<rparr>]\<rparr>))"

section \<open>Invitations\<close>

definition create_invitation :: "string \<Rightarrow> new_invitation \<Rightarrow> audit_intent \<Rightarrow> int \<Rightarrow> invitation tx" where
  "create_invitation org ni audit now db =
     rbind (check_org db org) (\<lambda>_.
     rbind (ok_or (Conflict ''invitations need an inviting principal'') (au_actor audit)) (\<lambda>created_by.
     rbind (check_authority db (Some created_by) None (Some (ni_role ni))) (\<lambda>_.
     if list_ex (\<lambda>v. iv_id v = ni_id ni) (db_invitations db) then Err (Database UniqueViolation)
     else
       let v = \<lparr>iv_id = ni_id ni, iv_org_role = OrgRole_as_str (ni_role ni), iv_email = ni_email ni,
                iv_provider = ni_provider ni, iv_subject = ni_subject ni, iv_login = ni_login ni,
                iv_code_hash = ni_code_hash ni, iv_expires_at = ni_expires_at ni, iv_created_at = now,
                iv_created_by = created_by, iv_consumed_at = None, iv_consumed_by = None\<rparr>;
           db = audit_in audit now (db\<lparr>db_invitations := db_invitations db @ [v]\<rparr>) in
       rbind (invitation_from_row v) (\<lambda>r. Ok (r, db)))))"

definition invitations :: "string \<Rightarrow> identity_db \<Rightarrow> store_error + invitation list" where
  "invitations org db = rbind (check_org db org) (\<lambda>_.
     try_map invitation_from_row (sort_key (\<lambda>v. - iv_created_at v) (db_invitations db)))"

definition principal_by_identity :: "string \<Rightarrow> string \<Rightarrow> string \<Rightarrow> identity_db \<Rightarrow> store_error + principal option" where
  "principal_by_identity org provider subject db =
     rbind (check_org db org) (\<lambda>_.
     case find (\<lambda>r. ir_provider r = provider \<and> ir_subject r = subject) (db_identities db) of
       Some r \<Rightarrow> fetch_principal db (ir_principal r)
     | None \<Rightarrow> Ok None)"

definition to_ascii_lowercase :: "string \<Rightarrow> string" where
  "to_ascii_lowercase = map (\<lambda>c. if is_ascii_uppercase c then char_of (byte c + 32) else c)"

definition eq_ignore_ascii_case :: "string \<Rightarrow> string \<Rightarrow> bool" where
  "eq_ignore_ascii_case a b \<longleftrightarrow> to_ascii_lowercase a = to_ascii_lowercase b"

definition invitation_matches :: "invitation \<Rightarrow> external_identity \<Rightarrow> bool \<times> string option" where
  "invitation_matches v e = (case (inv_provider v, inv_subject v, inv_email v) of
     (Some p, Some s, _) \<Rightarrow>
       (p = ei_provider e \<and> s = ei_subject e,
        case ei_verified_emails e of [] \<Rightarrow> None | m # _ \<Rightarrow> Some m)
   | (_, _, Some invited) \<Rightarrow>
       (case find (\<lambda>m. eq_ignore_ascii_case m invited) (ei_verified_emails e) of
          Some m \<Rightarrow> (True, Some m)
        | None \<Rightarrow> (False, None))
   | _ \<Rightarrow> (False, None))"

definition email_taken :: "identity_db \<Rightarrow> string \<Rightarrow> bool" where
  "email_taken db m \<longleftrightarrow> list_ex (\<lambda>p. case pr_email p of
     None \<Rightarrow> False | Some e \<Rightarrow> to_ascii_lowercase e = to_ascii_lowercase m) (db_principals db)"

definition check_invitation ::
  "string \<Rightarrow> external_identity \<Rightarrow> int \<Rightarrow> identity_db \<Rightarrow> store_error + (invitation \<times> string option)" where
  "check_invitation code_hash e now db =
     rbind (case find (\<lambda>v. iv_code_hash v = code_hash) (db_invitations db) of
         None \<Rightarrow> Err (Conflict ''an invitation is required'')
       | Some v \<Rightarrow> invitation_from_row v) (\<lambda>v.
     if inv_consumed_at v \<noteq> None then Err (Conflict ''the invitation was already used'')
     else if inv_expires_at v \<le> now then Err (Conflict ''the invitation has expired'')
     else if \<not> is_ok (check_authority db (Some (inv_created_by v)) None (Some (inv_role v))) then
       Err (Conflict ''the invitation is no longer valid; ask for a new one'')
     else
       let (matches, email) = invitation_matches v e in
       if \<not> matches then Err (Conflict ''the invitation is for a different identity or an unverified email'')
       else if list_ex (\<lambda>r. ir_provider r = ei_provider e \<and> ir_subject r = ei_subject e) (db_identities db) then
         Err (Conflict ''this identity already belongs to a user'')
       else if list_ex (email_taken db) (ei_verified_emails e) then
         Err (Conflict (''this email already belongs to a member linked to another identity; an '' @
           ''administrator must change that binding''))
       else Ok (v, email))"

definition consume_invitation :: "string \<Rightarrow> string \<Rightarrow> int \<Rightarrow> identity_db \<Rightarrow> identity_db" where
  "consume_invitation i user now db = db\<lparr>db_invitations := update_where (\<lambda>v. iv_id v = i)
     (\<lambda>v. v\<lparr>iv_consumed_at := Some now, iv_consumed_by := Some user\<rparr>) (db_invitations db)\<rparr>"

definition accept_invitation :: "string \<Rightarrow> string \<Rightarrow> external_identity \<Rightarrow> string \<Rightarrow> int \<Rightarrow> principal tx" where
  "accept_invitation org code_hash e user now db =
     rbind (check_org db org) (\<lambda>_.
     rbind (check_invitation code_hash e now db) (\<lambda>(v, email).
     rbind (insert_principal \<lparr>np_id = user, np_kind = ''user'', np_name = ei_name e, np_email = email, np_role = inv_role v\<rparr>
       (Some (inv_created_by v)) now db) (\<lambda>db.
     rbind (map_err Database (insert_identity \<lparr>ir_provider = ei_provider e, ir_subject = ei_subject e, ir_principal = user,
       ir_login = ei_login e, ir_email = email, ir_created_at = now\<rparr> db)) (\<lambda>db.
     let audit = (AuditIntent_accepted org user ''POST'' (''/orgs/'' @ org @ ''/invitations/'' @ inv_id v)
                   ''invitation.accept'')\<lparr>au_target := Some user\<rparr>;
         db = audit_in audit now (consume_invitation (inv_id v) user now db) in
     rbind (require_principal db user) (\<lambda>r. Ok (r, db))))))"

section \<open>Applications, environment types and their roles\<close>

definition apps :: "string \<Rightarrow> identity_db \<Rightarrow> store_error + app_record list" where
  "apps org db = rbind (check_org db org) (\<lambda>_. Ok (sort_key ap_id (db_apps db)))"

definition app_by_id :: "string \<Rightarrow> string \<Rightarrow> identity_db \<Rightarrow> store_error + app_record option" where
  "app_by_id org i db = rbind (apps org db) (\<lambda>as. Ok (find (\<lambda>a. ap_id a = i) as))"

definition app_env_types :: "string \<Rightarrow> string \<Rightarrow> identity_db \<Rightarrow> store_error + string list" where
  "app_env_types org app db = rbind (check_org db org) (\<lambda>_.
     Ok (bs_of (map ev_type (filter (\<lambda>e. ev_app e = app) (db_envs db)))))"

definition env_types :: "string \<Rightarrow> identity_db \<Rightarrow> store_error + env_type_record list" where
  "env_types org db = rbind (check_org db org) (\<lambda>_. Ok (sort_key et_id (db_env_types db)))"

definition env_type :: "string \<Rightarrow> string \<Rightarrow> identity_db \<Rightarrow> store_error + env_type_record option" where
  "env_type org i db = rbind (env_types org db) (\<lambda>ts. Ok (find (\<lambda>t. et_id t = i) ts))"

definition upsert_app_role :: "string \<Rightarrow> string \<Rightarrow> app_role \<Rightarrow> identity_db \<Rightarrow> db_error + identity_db" where
  "upsert_app_role app who role db =
     (if list_ex (\<lambda>r. rr_app r = app \<and> rr_principal r = who) (db_app_roles db) then
        Ok (db\<lparr>db_app_roles := update_where (\<lambda>r. rr_app r = app \<and> rr_principal r = who)
          (\<lambda>r. r\<lparr>rr_role := AppRole_as_str role\<rparr>) (db_app_roles db)\<rparr>)
      else if \<not> list_ex (\<lambda>a. ap_id a = app) (db_apps db) \<or> \<not> has_principal db who then Err ForeignKeyViolation
      else Ok (db\<lparr>db_app_roles := db_app_roles db @
        [\<lparr>rr_app = app, rr_principal = who, rr_role = AppRole_as_str role\<rparr>]\<rparr>))"

definition set_app_role :: "string \<Rightarrow> string \<Rightarrow> string \<Rightarrow> app_role \<Rightarrow> audit_intent \<Rightarrow> int \<Rightarrow> unit tx" where
  "set_app_role org app who role audit now db =
     rbind (check_org db org) (\<lambda>_.
     rbind (check_app_authority db (au_actor audit) app) (\<lambda>_.
     rbind (require_principal db who) (\<lambda>_.
     rbind (map_err Database (upsert_app_role app who role db)) (\<lambda>db.
     Ok ((), audit_in audit now db)))))"

definition remove_app_role :: "string \<Rightarrow> string \<Rightarrow> string \<Rightarrow> audit_intent \<Rightarrow> int \<Rightarrow> unit tx" where
  "remove_app_role org app who audit now db =
     rbind (check_org db org) (\<lambda>_.
     rbind (check_app_authority db (au_actor audit) app) (\<lambda>_.
     if \<not> list_ex (\<lambda>r. rr_app r = app \<and> rr_principal r = who) (db_app_roles db) then
       Err (NotFound (''role of `'' @ who @ ''` on `'' @ app @ ''`''))
     else Ok ((), audit_in audit now (db\<lparr>db_app_roles :=
       filter (\<lambda>r. \<not> (rr_app r = app \<and> rr_principal r = who)) (db_app_roles db)\<rparr>))))"

definition app_roles :: "string \<Rightarrow> string \<Rightarrow> identity_db \<Rightarrow> store_error + (string \<times> app_role) list" where
  "app_roles org app db = rbind (check_org db org) (\<lambda>_.
     Ok (List.map_filter (\<lambda>r. map_option (\<lambda>role. (rr_principal r, role)) (AppRole_parse (rr_role r)))
       (sort_key rr_principal (filter (\<lambda>r. rr_app r = app) (db_app_roles db)))))"

definition insert_env_role :: "string \<Rightarrow> string \<Rightarrow> identity_db \<Rightarrow> db_error + identity_db" where
  "insert_env_role t who db =
     (if list_ex (\<lambda>r. er_env_type r = t \<and> er_principal r = who) (db_env_roles db) then Ok db
      else if \<not> list_ex (\<lambda>e. et_id e = t) (db_env_types db) \<or> \<not> has_principal db who then Err ForeignKeyViolation
      else Ok (db\<lparr>db_env_roles := db_env_roles db @ [\<lparr>er_env_type = t, er_principal = who\<rparr>]\<rparr>))"

definition set_env_type_role :: "string \<Rightarrow> string \<Rightarrow> string \<Rightarrow> audit_intent \<Rightarrow> int \<Rightarrow> unit tx" where
  "set_env_type_role org t who audit now db =
     rbind (check_org db org) (\<lambda>_.
     rbind (check_admin_authority db (au_actor audit)) (\<lambda>_.
     rbind (require_principal db who) (\<lambda>_.
     rbind (map_err Database (insert_env_role t who db)) (\<lambda>db.
     Ok ((), audit_in audit now db)))))"

definition remove_env_type_role :: "string \<Rightarrow> string \<Rightarrow> string \<Rightarrow> audit_intent \<Rightarrow> int \<Rightarrow> unit tx" where
  "remove_env_type_role org t who audit now db =
     rbind (check_org db org) (\<lambda>_.
     rbind (check_admin_authority db (au_actor audit)) (\<lambda>_.
     if \<not> list_ex (\<lambda>r. er_env_type r = t \<and> er_principal r = who) (db_env_roles db) then
       Err (NotFound (''role of `'' @ who @ ''` on `'' @ t @ ''`''))
     else Ok ((), audit_in audit now (db\<lparr>db_env_roles :=
       filter (\<lambda>r. \<not> (er_env_type r = t \<and> er_principal r = who)) (db_env_roles db)\<rparr>))))"

definition env_type_roles :: "string \<Rightarrow> string \<Rightarrow> identity_db \<Rightarrow> store_error + string list" where
  "env_type_roles org t db = rbind (check_org db org) (\<lambda>_.
     Ok (map er_principal (sort_key er_principal (filter (\<lambda>r. er_env_type r = t) (db_env_roles db)))))"

section \<open>The audit log\<close>

text \<open>
  SQLite's \<open>LIKE\<close> with a backslash as the escape: ASCII letters match in either case, \<open>%\<close> matches any
  text and \<open>_\<close> one character. An escape at the end matches nothing.
\<close>

fun like :: "string \<Rightarrow> string \<Rightarrow> bool" where
  "like [] t \<longleftrightarrow> t = []"
| "like [c] t \<longleftrightarrow>
     (if c = CHR ''%'' then True
      else if c = CHR 0x5C then False
      else if c = CHR ''_'' then length (utf8_chars t) = 1
      else eq_ignore_ascii_case [c] t)"
| "like (c # d # p) t \<longleftrightarrow>
     (if c = CHR ''%'' then (\<exists>s \<in> set (suffixes t). like (d # p) s)
      else if c = CHR 0x5C then (case t of [] \<Rightarrow> False | x # t \<Rightarrow> eq_ignore_ascii_case [d] [x] \<and> like p t)
      else if c = CHR ''_'' then (case utf8_chars t of [] \<Rightarrow> False | _ # cs \<Rightarrow> like (d # p) (concat cs))
      else (case t of [] \<Rightarrow> False | x # t \<Rightarrow> eq_ignore_ascii_case [c] [x] \<and> like (d # p) t))"

definition like_prefix :: "string \<Rightarrow> string" where
  "like_prefix p = replace_str ''_'' [CHR 0x5C, CHR ''_'']
     (replace_str ''%'' [CHR 0x5C, CHR ''%''] (replace_str [CHR 0x5C] [CHR 0x5C, CHR 0x5C] p)) @ ''%''"

definition audit_selected :: "audit_filter \<Rightarrow> audit_entry \<Rightarrow> bool" where
  "audit_selected f a \<longleftrightarrow>
     (case af_from f of None \<Rightarrow> True | Some t \<Rightarrow> t \<le> ae_at a) \<and>
     (case af_to f of None \<Rightarrow> True | Some t \<Rightarrow> ae_at a < t) \<and>
     (case af_user_id f of None \<Rightarrow> True | Some u \<Rightarrow> ae_actor_id a = Some u) \<and>
     (case af_path_prefix f of None \<Rightarrow> True | Some p \<Rightarrow> like (like_prefix p) (ae_path a)) \<and>
     (case af_method f of None \<Rightarrow> True | Some m \<Rightarrow> ae_method a = m) \<and>
     (case af_before f of None \<Rightarrow> True | Some b \<Rightarrow> ae_seq a < b)"

definition audit_query :: "string \<Rightarrow> audit_filter \<Rightarrow> identity_db \<Rightarrow> store_error + audit_entry list" where
  "audit_query org f db = rbind (check_org db org) (\<lambda>_.
     Ok (take (max 1 (min 1000 (af_limit f)))
       (sort_key (\<lambda>a. - ae_seq a) (filter (audit_selected f) (db_audit db)))))"

end
