(* ===== verification/Identity_Inv.thy ===== *)
theory Identity_Inv
  imports Identity
begin

text \<open>
  The store of identities as a state machine. \<open>run_op\<close> is one transaction, \<open>identity_run\<close> any sequence
  of them interleaved with the changes the rest of the store makes to applications, environment types
  and environments. The locale \<open>identity_invariant\<close> lists what a property has to survive, statement by
  statement; what survives the statements survives every run.
\<close>

section \<open>Operations and runs\<close>

datatype identity_op =
    CreatePrincipal new_principal
  | CreateBootstrapAdmin string int
  | SetOrgRole string org_role
  | UpdatePrincipal string "org_role option" "string option"
  | RemovePrincipal string
  | SetIdentity string string string
  | CreateToken string string "string option" "int option" string
  | RevokeToken string string
  | AuthenticateToken bool string
  | RecordSession string string int
  | RevokeSession string
  | SigningKey string string sealed string
  | CreateInvitation new_invitation
  | AcceptInvitation string external_identity string
  | SetAppRole string string app_role
  | RemoveAppRole string string
  | SetEnvTypeRole string string
  | RemoveEnvTypeRole string string

definition state_of :: "store_error + ('a \<times> identity_db) \<Rightarrow> store_error + identity_db" where
  "state_of r = rbind r (\<lambda>(_, db). Ok db)"

fun run_op :: "string \<Rightarrow> audit_intent \<Rightarrow> int \<Rightarrow> identity_op \<Rightarrow> identity_db \<Rightarrow> store_error + identity_db" where
  "run_op org a now (CreatePrincipal p) db = state_of (create_principal org p a now db)"
| "run_op org a now (CreateBootstrapAdmin h e) db = state_of (create_bootstrap_admin org h e a now db)"
| "run_op org a now (SetOrgRole i r) db = state_of (set_org_role org i r a now db)"
| "run_op org a now (UpdatePrincipal i r n) db = state_of (update_principal org i r n a now db)"
| "run_op org a now (RemovePrincipal i) db = state_of (remove_principal org i a now db)"
| "run_op org a now (SetIdentity i p s) db = state_of (set_identity org i p s a now db)"
| "run_op org a now (CreateToken w i d e h) db = state_of (create_token org w i d e h a now db)"
| "run_op org a now (RevokeToken w i) db = state_of (revoke_token org w i a now db)"
| "run_op org a now (AuthenticateToken b h) db = state_of (authenticate_token b org h now db)"
| "run_op org a now (RecordSession j w e) db = state_of (record_session org j w e a now db)"
| "run_op org a now (RevokeSession j) db = state_of (revoke_session org j a now db)"
| "run_op org a now (SigningKey p g s k) db = state_of (signing_key p g s k now db)"
| "run_op org a now (CreateInvitation v) db = state_of (create_invitation org v a now db)"
| "run_op org a now (AcceptInvitation c e u) db = state_of (accept_invitation org c e u now db)"
| "run_op org a now (SetAppRole app w r) db = state_of (set_app_role org app w r a now db)"
| "run_op org a now (RemoveAppRole app w) db = state_of (remove_app_role org app w a now db)"
| "run_op org a now (SetEnvTypeRole t w) db = state_of (set_env_type_role org t w a now db)"
| "run_op org a now (RemoveEnvTypeRole t w) db = state_of (remove_env_type_role org t w a now db)"

text \<open>
  The rest of the store adds and deletes applications, environment types and environments; role rows
  of a deleted one cascade, and a new application comes with its owner's role.
\<close>

definition catalog_change ::
  "app_record list \<Rightarrow> env_type_record list \<Rightarrow> env_row list \<Rightarrow> (string \<times> string) option \<Rightarrow> identity_db \<Rightarrow> identity_db" where
  "catalog_change as ts es owner db =
     db\<lparr>db_apps := as, db_env_types := ts, db_envs := es,
        db_app_roles := filter (\<lambda>r. rr_app r \<in> ap_id ` set as) (db_app_roles db) @
          (case owner of None \<Rightarrow> [] | Some (app, who) \<Rightarrow> [\<lparr>rr_app = app, rr_principal = who, rr_role = ''owner''\<rparr>]),
        db_env_roles := filter (\<lambda>r. er_env_type r \<in> et_id ` set ts) (db_env_roles db)\<rparr>"

definition owner_ok :: "app_record list \<Rightarrow> (string \<times> string) option \<Rightarrow> identity_db \<Rightarrow> bool" where
  "owner_ok as owner db \<longleftrightarrow> (case owner of None \<Rightarrow> True | Some (app, who) \<Rightarrow>
     app \<in> ap_id ` set as \<and> (\<forall>r \<in> set (db_app_roles db). rr_app r \<noteq> app) \<and> has_principal db who)"

fun op_hashes :: "identity_op \<Rightarrow> string set" where
  "op_hashes (CreateBootstrapAdmin h e) = {h}"
| "op_hashes (CreateToken w i d e h) = {h}"
| "op_hashes _ = {}"

text \<open>A run in which only tokens with hashes in \<open>H\<close> are issued.\<close>

inductive identity_run :: "string set \<Rightarrow> identity_db \<Rightarrow> identity_db \<Rightarrow> bool" for H where
  start: "identity_run H db db"
| op: "identity_run H db db1 \<Longrightarrow> op_hashes op' \<subseteq> H \<Longrightarrow> run_op org a now op' db1 = Ok db2 \<Longrightarrow> identity_run H db db2"
| catalog: "identity_run H db db1 \<Longrightarrow> owner_ok as owner db1 \<Longrightarrow> identity_run H db (catalog_change as ts es owner db1)"

section \<open>What a property has to survive\<close>

definition demotes :: "identity_db \<Rightarrow> string \<Rightarrow> bool" where
  "demotes db i \<longleftrightarrow> (\<exists>p. fetch_principal db i = Ok (Some p) \<and> (p_role p = Administrator \<longrightarrow> guard_last_admin db i = Ok ()))"

definition keeps_token :: "(token_row \<Rightarrow> token_row) \<Rightarrow> bool" where
  "keeps_token f \<longleftrightarrow> (\<forall>t. tk_principal (f t) = tk_principal t \<and> tk_id (f t) = tk_id t \<and> tk_token_hash (f t) = tk_token_hash t \<and>
     (tk_revoked_at t \<noteq> None \<longrightarrow> tk_revoked_at (f t) \<noteq> None))"

definition keeps_session :: "(session_row \<Rightarrow> session_row) \<Rightarrow> bool" where
  "keeps_session f \<longleftrightarrow> (\<forall>s. se_jti (f s) = se_jti s \<and> se_principal (f s) = se_principal s \<and>
     (se_revoked_at s \<noteq> None \<longrightarrow> se_revoked_at (f s) \<noteq> None))"

locale identity_invariant =
  fixes I :: "identity_db \<Rightarrow> bool" and H :: "string set"
  assumes audit_law: "I db \<Longrightarrow> I (audit_in a now db)"
    and insert_principal_law: "I db \<Longrightarrow> insert_principal p c now db = Ok db' \<Longrightarrow> I db'"
    and insert_token_law: "I db \<Longrightarrow> tk_token_hash t \<in> H \<Longrightarrow> insert_token t db = Ok db' \<Longrightarrow> I db'"
    and insert_identity_law: "I db \<Longrightarrow> insert_identity i db = Ok db' \<Longrightarrow> I db'"
    and insert_session_law: "I db \<Longrightarrow> insert_session s db = Ok db' \<Longrightarrow> I db'"
    and update_role_law: "I db \<Longrightarrow> role \<noteq> Administrator \<longrightarrow> demotes db w \<Longrightarrow> I (update_role w role db)"
    and update_name_law: "I db \<Longrightarrow> I (update_name w n db)"
    and delete_principal_law: "I db \<Longrightarrow> demotes db w \<Longrightarrow> I (delete_principal w db)"
    and drop_identities_law: "I db \<Longrightarrow> I (db\<lparr>db_identities := filter P (db_identities db)\<rparr>)"
    and update_tokens_law: "I db \<Longrightarrow> keeps_token f \<Longrightarrow> I (db\<lparr>db_tokens := update_where Q f (db_tokens db)\<rparr>)"
    and update_sessions_law: "I db \<Longrightarrow> keeps_session g \<Longrightarrow> I (db\<lparr>db_sessions := update_where R g (db_sessions db)\<rparr>)"
    and add_key_law: "I db \<Longrightarrow> \<forall>q \<in> set (db_signing_keys db). sk_id q \<noteq> sk_id k \<Longrightarrow>
      I (db\<lparr>db_signing_keys := db_signing_keys db @ [k]\<rparr>)"
    and add_invitation_law: "I db \<Longrightarrow> \<forall>q \<in> set (db_invitations db). iv_id q \<noteq> iv_id v \<Longrightarrow> OrgRole_parse (iv_org_role v) \<noteq> None \<Longrightarrow>
      I (db\<lparr>db_invitations := db_invitations db @ [v]\<rparr>)"
    and consume_law: "I db \<Longrightarrow> I (consume_invitation n w now db)"
    and upsert_law: "I db \<Longrightarrow> upsert_app_role app w r db = Ok db' \<Longrightarrow> I db'"
    and drop_app_roles_law: "I db \<Longrightarrow> I (db\<lparr>db_app_roles := filter P' (db_app_roles db)\<rparr>)"
    and insert_env_role_law: "I db \<Longrightarrow> insert_env_role t' w db = Ok db' \<Longrightarrow> I db'"
    and drop_env_roles_law: "I db \<Longrightarrow> I (db\<lparr>db_env_roles := filter P'' (db_env_roles db)\<rparr>)"
    and catalog_law: "I db \<Longrightarrow> owner_ok as owner db \<Longrightarrow> I (catalog_change as ts es owner db)"
begin

lemma create_principal_keeps: "I db \<Longrightarrow> state_of (create_principal org p a now db) = Ok db' \<Longrightarrow> I db'"
  by (auto simp: state_of_def create_principal_def Let_def rbind_eq_Inr intro: audit_law insert_principal_law)

lemma create_bootstrap_admin_keeps:
  assumes "I db" "h \<in> H" "state_of (create_bootstrap_admin org h e a now db) = Ok db'"
  shows "I db'"
proof -
  from assms(3) obtain db1 t db2 where d: "insert_principal bootstrap_admin None now db = Ok db1"
    "insert_token t db1 = Ok db2" "tk_token_hash t = h" "db' = audit_in a now db2"
    by (auto simp: state_of_def create_bootstrap_admin_def Let_def rbind_eq_Inr map_err_eq_Inr)
  have "I db1" using assms(1) d(1) by (rule insert_principal_law)
  then have "I db2" using d(2,3) assms(2) insert_token_law by blast
  then show ?thesis by (simp add: d(4) audit_law)
qed

lemma require_principal_Ok: "require_principal db i = Ok p \<longleftrightarrow> fetch_principal db i = Ok (Some p)"
  by (auto simp: require_principal_def rbind_eq_Inr ok_or_eq_Inr)

lemma demoted_role:
  assumes "require_principal db w = Ok p" "p_role p = Administrator \<and> role \<noteq> Administrator \<longrightarrow> guard_last_admin db w = Ok ()"
  shows "role \<noteq> Administrator \<longrightarrow> demotes db w"
  using assms by (auto simp: demotes_def require_principal_Ok)

lemma set_org_role_keeps:
  assumes "I db" "state_of (set_org_role org w role a now db) = Ok db'"
  shows "I db'"
proof -
  from assms(2) obtain p where p: "require_principal db w = Ok p"
    "p_role p = Administrator \<and> role \<noteq> Administrator \<longrightarrow> guard_last_admin db w = Ok ()"
    "db' = audit_in a now (update_role w role db)"
    by (auto simp: state_of_def set_org_role_def Let_def rbind_eq_Inr split: if_splits)
  from update_role_law [OF assms(1) demoted_role [OF p(1,2)]] show ?thesis by (simp add: p(3) audit_law)
qed

lemma update_principal_keeps:
  assumes "I db" "state_of (update_principal org w role name a now db) = Ok db'"
  shows "I db'"
proof -
  from assms(2) obtain p db1 where p: "require_principal db w = Ok p"
    "(case role of None \<Rightarrow> Ok db | Some r \<Rightarrow>
       rbind (if p_role p = Administrator \<and> r \<noteq> Administrator then guard_last_admin db w else Ok ()) (\<lambda>_. Ok (update_role w r db))) = Ok db1"
    "db' = audit_in a now (case name of None \<Rightarrow> db1 | Some n \<Rightarrow> update_name w n db1)"
    by (auto simp: state_of_def update_principal_def Let_def rbind_eq_Inr)
  have "I db1"
  proof (cases role)
    case None
    with p(2) assms(1) show ?thesis by simp
  next
    case (Some r)
    with p(2) have r: "p_role p = Administrator \<and> r \<noteq> Administrator \<longrightarrow> guard_last_admin db w = Ok ()" "db1 = update_role w r db"
      by (auto simp: rbind_eq_Inr split: if_splits)
    from update_role_law [OF assms(1) demoted_role [OF p(1) r(1)]] r(2) show ?thesis by simp
  qed
  then show ?thesis by (simp add: p(3) audit_law update_name_law split: option.split)
qed

lemma remove_principal_keeps:
  assumes "I db" "state_of (remove_principal org w a now db) = Ok db'"
  shows "I db'"
proof -
  from assms(2) obtain p where p: "require_principal db w = Ok p" "p_role p = Administrator \<longrightarrow> guard_last_admin db w = Ok ()"
    "db' = audit_in a now (delete_principal w db)"
    by (auto simp: state_of_def remove_principal_def rbind_eq_Inr split: if_splits)
  then have "demotes db w" by (auto simp: demotes_def require_principal_Ok)
  from delete_principal_law [OF assms(1) this] show ?thesis by (simp add: p(3) audit_law)
qed

lemma keeps_revoked:
  "keeps_token (\<lambda>t. t\<lparr>tk_revoked_at := coalesce (tk_revoked_at t) now\<rparr>)"
  "keeps_token (\<lambda>t. t\<lparr>tk_last_used_at := u\<rparr>)"
  "keeps_session (\<lambda>s. s\<lparr>se_revoked_at := coalesce (se_revoked_at s) now\<rparr>)"
  by (auto simp: keeps_token_def keeps_session_def coalesce_def split: option.splits)

lemma set_identity_keeps:
  assumes "I db" "state_of (set_identity org w p s a now db) = Ok db'"
  shows "I db'"
proof -
  let ?drop = "db\<lparr>db_identities := filter (\<lambda>r. ir_principal r \<noteq> w) (db_identities db)\<rparr>"
  from assms(2) obtain r db1 where d: "insert_identity r ?drop = Ok db1"
    "db' = audit_in a now (db1\<lparr>db_sessions := update_where (\<lambda>s. se_principal s = w)
       (\<lambda>s. s\<lparr>se_revoked_at := coalesce (se_revoked_at s) now\<rparr>) (db_sessions db1)\<rparr>)"
    by (auto simp: state_of_def set_identity_def Let_def rbind_eq_Inr map_err_eq_Inr split: if_splits)
  have "I db1" using insert_identity_law [OF drop_identities_law [OF assms(1)] d(1)] .
  from audit_law [OF update_sessions_law [OF this keeps_revoked(3)]] show ?thesis by (simp add: d(2))
qed

lemma create_token_keeps:
  assumes "I db" "h \<in> H" "state_of (create_token org w i d e h a now db) = Ok db'"
  shows "I db'"
proof -
  from assms(3) obtain t db1 where d: "insert_token t db = Ok db1" "tk_token_hash t = h" "db' = audit_in a now db1"
    by (auto simp: state_of_def create_token_def Let_def rbind_eq_Inr map_err_eq_Inr)
  from d insert_token_law [OF assms(1) _ d(1)] assms(2) show ?thesis by (simp add: audit_law)
qed

lemma revoke_token_keeps: "I db \<Longrightarrow> state_of (revoke_token org w i a now db) = Ok db' \<Longrightarrow> I db'"
  by (auto simp: state_of_def revoke_token_def rbind_eq_Inr intro!: audit_law update_tokens_law keeps_revoked split: if_splits)

lemma authenticate_token_keeps: "I db \<Longrightarrow> state_of (authenticate_token b org h now db) = Ok db' \<Longrightarrow> I db'"
  by (auto simp: state_of_def authenticate_token_def touch_token_def Let_def rbind_eq_Inr
      intro!: update_tokens_law keeps_revoked split: if_splits option.splits)

lemma record_session_keeps: "I db \<Longrightarrow> state_of (record_session org j w e a now db) = Ok db' \<Longrightarrow> I db'"
  by (auto simp: state_of_def record_session_def rbind_eq_Inr map_err_eq_Inr intro: audit_law insert_session_law)

lemma revoke_session_keeps: "I db \<Longrightarrow> state_of (revoke_session org j a now db) = Ok db' \<Longrightarrow> I db'"
  by (auto simp: state_of_def revoke_session_def rbind_eq_Inr intro!: audit_law update_sessions_law keeps_revoked)

lemma signing_key_keeps: "I db \<Longrightarrow> state_of (signing_key p g s k now db) = Ok db' \<Longrightarrow> I db'"
  by (auto simp: state_of_def signing_key_def rbind_eq_Inr list_ex_iff intro!: add_key_law split: list.splits if_splits)

lemma create_invitation_keeps: "I db \<Longrightarrow> state_of (create_invitation org v a now db) = Ok db' \<Longrightarrow> I db'"
  by (auto simp: state_of_def create_invitation_def Let_def rbind_eq_Inr ok_or_eq_Inr list_ex_iff
      intro!: audit_law add_invitation_law split: if_splits)

lemma accept_invitation_keeps: "I db \<Longrightarrow> state_of (accept_invitation org c e u now db) = Ok db' \<Longrightarrow> I db'"
  unfolding state_of_def accept_invitation_def Let_def
  apply (clarsimp simp: rbind_eq_Inr map_err_eq_Inr)
  apply (drule (1) insert_principal_law)
  apply (drule (1) insert_identity_law)
  apply (erule audit_law [OF consume_law])
  done

lemma set_app_role_keeps: "I db \<Longrightarrow> state_of (set_app_role org app w r a now db) = Ok db' \<Longrightarrow> I db'"
  by (auto simp: state_of_def set_app_role_def rbind_eq_Inr map_err_eq_Inr intro: audit_law upsert_law)

lemma remove_app_role_keeps: "I db \<Longrightarrow> state_of (remove_app_role org app w a now db) = Ok db' \<Longrightarrow> I db'"
  by (auto simp: state_of_def remove_app_role_def rbind_eq_Inr intro!: audit_law drop_app_roles_law split: if_splits)

lemma set_env_type_role_keeps: "I db \<Longrightarrow> state_of (set_env_type_role org t w a now db) = Ok db' \<Longrightarrow> I db'"
  by (auto simp: state_of_def set_env_type_role_def rbind_eq_Inr map_err_eq_Inr intro: audit_law insert_env_role_law)

lemma remove_env_type_role_keeps: "I db \<Longrightarrow> state_of (remove_env_type_role org t w a now db) = Ok db' \<Longrightarrow> I db'"
  by (auto simp: state_of_def remove_env_type_role_def rbind_eq_Inr intro!: audit_law drop_env_roles_law split: if_splits)

lemmas op_keeps = create_principal_keeps set_org_role_keeps update_principal_keeps remove_principal_keeps
  set_identity_keeps revoke_token_keeps authenticate_token_keeps record_session_keeps revoke_session_keeps
  signing_key_keeps create_invitation_keeps accept_invitation_keeps set_app_role_keeps remove_app_role_keeps
  set_env_type_role_keeps remove_env_type_role_keeps

lemma run_op_keeps:
  assumes "I db" "op_hashes op' \<subseteq> H" "run_op org a now op' db = Ok db'"
  shows "I db'"
  using assms(2,3) by (cases op') (simp_all add: op_keeps [OF assms(1)] create_bootstrap_admin_keeps [OF assms(1)] create_token_keeps [OF assms(1)])

lemma run_keeps: "identity_run H db db' \<Longrightarrow> I db \<Longrightarrow> I db'"
proof (induction rule: identity_run.induct)
  case (op db db1 op' org a now db2)
  from op.IH [OF op.prems] op.hyps(2,3) show ?case by (rule run_op_keeps)
next
  case (catalog db db1 as owner ts es)
  from catalog.IH [OF catalog.prems] catalog.hyps(2) show ?case by (rule catalog_law)
qed

end

section \<open>Keys, references and roles\<close>

definition keyed :: "('a \<Rightarrow> 'k) \<Rightarrow> 'a list \<Rightarrow> bool" where
  "keyed k rows \<longleftrightarrow> distinct (map k rows)"

definition refers :: "('a \<Rightarrow> string) \<Rightarrow> string set \<Rightarrow> 'a list \<Rightarrow> bool" where
  "refers k ids rows \<longleftrightarrow> k ` set rows \<subseteq> ids"

definition all_rows :: "('a \<Rightarrow> bool) \<Rightarrow> 'a list \<Rightarrow> bool" where
  "all_rows P rows \<longleftrightarrow> (\<forall>r \<in> set rows. P r)"

lemma keyed_Nil [simp]: "keyed k []"
  by (simp add: keyed_def)

lemma keyed_snoc [simp]: "keyed k (rows @ [r]) \<longleftrightarrow> keyed k rows \<and> (\<forall>q \<in> set rows. k q \<noteq> k r)"
  unfolding keyed_def by (simp add: image_iff) metis

lemma keyed_filter [simp]: "keyed k rows \<Longrightarrow> keyed k (filter P rows)"
  by (simp add: keyed_def distinct_map_filter)

lemma keyed_update [simp]: "(\<And>x. k (f x) = k x) \<Longrightarrow> keyed k (update_where P f rows) = keyed k rows"
  by (simp add: keyed_def update_where_def comp_def if_distrib cong: if_cong)

lemma keyed_eqD: "keyed k rows \<Longrightarrow> a \<in> set rows \<Longrightarrow> b \<in> set rows \<Longrightarrow> k a = k b \<Longrightarrow> a = b"
  by (auto simp: keyed_def distinct_map dest: inj_onD)

lemma refers_Nil [simp]: "refers k ids []"
  by (simp add: refers_def)

lemma refers_snoc [simp]: "refers k ids (rows @ [r]) \<longleftrightarrow> refers k ids rows \<and> k r \<in> ids"
  by (auto simp: refers_def)

lemma refers_filter [simp]: "refers k ids rows \<Longrightarrow> refers k ids (filter P rows)"
  by (auto simp: refers_def)

lemma refers_cascade [simp]: "refers k ids rows \<Longrightarrow> refers k (ids - {w}) (filter (\<lambda>r. k r \<noteq> w) rows)"
  by (auto simp: refers_def)

lemma refers_insert [simp]: "refers k ids rows \<Longrightarrow> refers k (insert w ids) rows"
  by (auto simp: refers_def)

lemma image_update_where: "(\<And>x. k (f x) = k x) \<Longrightarrow> k ` set (update_where P f rows) = k ` set rows"
  unfolding set_map [symmetric] by (simp add: update_where_def comp_def if_distrib cong: if_cong)

lemma refers_update [simp]: "(\<And>x. k (f x) = k x) \<Longrightarrow> refers k ids (update_where P f rows) = refers k ids rows"
  by (simp add: refers_def image_update_where)

lemma all_rows_Nil [simp]: "all_rows P []"
  by (simp add: all_rows_def)

lemma all_rows_snoc [simp]: "all_rows P (rows @ [r]) \<longleftrightarrow> all_rows P rows \<and> P r"
  by (auto simp: all_rows_def)

lemma all_rows_filter [simp]: "all_rows P rows \<Longrightarrow> all_rows P (filter Q rows)"
  by (auto simp: all_rows_def)

lemma all_rows_update: "(\<And>r. P r \<Longrightarrow> P (f r)) \<Longrightarrow> all_rows P rows \<Longrightarrow> all_rows P (update_where Q f rows)"
  by (auto simp: all_rows_def update_where_def)

definition principal_ids :: "identity_db \<Rightarrow> string set" where
  "principal_ids db = pr_id ` set (db_principals db)"

definition principal_ok :: "principal_row \<Rightarrow> bool" where
  "principal_ok p \<longleftrightarrow> OrgRole_parse (pr_org_role p) \<noteq> None \<and> (pr_type p = ''user'' \<or> pr_type p = ''service'')"

definition wf_db :: "identity_db \<Rightarrow> bool" where
  "wf_db db \<longleftrightarrow>
     keyed pr_id (db_principals db) \<and> all_rows principal_ok (db_principals db) \<and>
     keyed (\<lambda>i. (ir_provider i, ir_subject i)) (db_identities db) \<and> keyed ir_principal (db_identities db) \<and>
     refers ir_principal (principal_ids db) (db_identities db) \<and>
     keyed tk_token_hash (db_tokens db) \<and> keyed (\<lambda>t. (tk_principal t, tk_id t)) (db_tokens db) \<and>
     refers tk_principal (principal_ids db) (db_tokens db) \<and>
     keyed se_jti (db_sessions db) \<and> refers se_principal (principal_ids db) (db_sessions db) \<and>
     keyed (\<lambda>r. (rr_app r, rr_principal r)) (db_app_roles db) \<and>
     refers rr_principal (principal_ids db) (db_app_roles db) \<and>
     all_rows (\<lambda>r. AppRole_parse (rr_role r) \<noteq> None) (db_app_roles db) \<and>
     keyed (\<lambda>r. (er_env_type r, er_principal r)) (db_env_roles db) \<and>
     refers er_principal (principal_ids db) (db_env_roles db) \<and>
     keyed iv_id (db_invitations db) \<and> all_rows (\<lambda>v. OrgRole_parse (iv_org_role v) \<noteq> None) (db_invitations db) \<and>
     keyed sk_id (db_signing_keys db)"

definition has_admin :: "identity_db \<Rightarrow> bool" where
  "has_admin db \<longleftrightarrow> (\<exists>p \<in> set (db_principals db). pr_org_role p = ''administrator'')"

definition dead_hash :: "string \<Rightarrow> identity_db \<Rightarrow> bool" where
  "dead_hash h db \<longleftrightarrow> (\<forall>t \<in> set (db_tokens db). tk_token_hash t = h \<longrightarrow> tk_revoked_at t \<noteq> None)"

lemma has_principal_iff: "has_principal db i \<longleftrightarrow> i \<in> principal_ids db"
  by (auto simp: has_principal_def principal_ids_def list_ex_iff)

lemma audit_in_frame [simp]:
  "db_principals (audit_in a now db) = db_principals db" "db_identities (audit_in a now db) = db_identities db"
  "db_invitations (audit_in a now db) = db_invitations db" "db_tokens (audit_in a now db) = db_tokens db"
  "db_sessions (audit_in a now db) = db_sessions db" "db_signing_keys (audit_in a now db) = db_signing_keys db"
  "db_app_roles (audit_in a now db) = db_app_roles db" "db_env_roles (audit_in a now db) = db_env_roles db"
  "db_org (audit_in a now db) = db_org db" "db_apps (audit_in a now db) = db_apps db"
  "db_env_types (audit_in a now db) = db_env_types db" "db_envs (audit_in a now db) = db_envs db"
  by (simp_all add: audit_in_def audit_insert_def)

lemma ids_frame [simp]:
  "principal_ids (audit_in a now db) = principal_ids db"
  "principal_ids (update_role w r db) = principal_ids db"
  "principal_ids (update_name w n db) = principal_ids db"
  "principal_ids (delete_principal w db) = principal_ids db - {w}"
  "principal_ids (db\<lparr>db_principals := db_principals db @ [p]\<rparr>) = insert (pr_id p) (principal_ids db)"
  "principal_ids (db\<lparr>db_identities := x\<rparr>) = principal_ids db"
  "principal_ids (db\<lparr>db_tokens := y\<rparr>) = principal_ids db"
  "principal_ids (db\<lparr>db_sessions := z\<rparr>) = principal_ids db"
  "principal_ids (db\<lparr>db_signing_keys := k\<rparr>) = principal_ids db"
  "principal_ids (db\<lparr>db_invitations := v\<rparr>) = principal_ids db"
  "principal_ids (db\<lparr>db_app_roles := ar\<rparr>) = principal_ids db"
  "principal_ids (db\<lparr>db_env_roles := er\<rparr>) = principal_ids db"
  "principal_ids (catalog_change as ts es owner db) = principal_ids db"
  by (auto simp: principal_ids_def update_role_def update_name_def delete_principal_def image_update_where catalog_change_def)

lemma keeps_token_simps:
  "keeps_token f \<Longrightarrow> tk_principal (f t) = tk_principal t" "keeps_token f \<Longrightarrow> tk_id (f t) = tk_id t"
  "keeps_token f \<Longrightarrow> tk_token_hash (f t) = tk_token_hash t"
  "keeps_token f \<Longrightarrow> tk_revoked_at t \<noteq> None \<Longrightarrow> tk_revoked_at (f t) \<noteq> None"
  by (simp_all add: keeps_token_def)

lemma keeps_session_simps:
  "keeps_session f \<Longrightarrow> se_jti (f s) = se_jti s" "keeps_session f \<Longrightarrow> se_principal (f s) = se_principal s"
  by (simp_all add: keeps_session_def)

text \<open>Every statement keeps the keys unique, the references valid and the roles readable.\<close>

lemma wf_insert_principal: "wf_db db \<Longrightarrow> insert_principal p c now db = Ok db' \<Longrightarrow> wf_db db'"
  by (auto simp: insert_principal_def wf_db_def has_principal_def list_ex_iff principal_ok_def split: if_splits)

lemma wf_insert_token: "wf_db db \<Longrightarrow> insert_token t db = Ok db' \<Longrightarrow> wf_db db'"
  by (auto simp: insert_token_def wf_db_def has_principal_iff list_ex_iff split: if_splits)

lemma wf_insert_identity: "wf_db db \<Longrightarrow> insert_identity i db = Ok db' \<Longrightarrow> wf_db db'"
  by (auto simp: insert_identity_def wf_db_def has_principal_iff list_ex_iff split: if_splits)

lemma wf_insert_session: "wf_db db \<Longrightarrow> insert_session s db = Ok db' \<Longrightarrow> wf_db db'"
  by (auto simp: insert_session_def wf_db_def has_principal_iff list_ex_iff split: if_splits)

lemma wf_update_role: "wf_db db \<Longrightarrow> wf_db (update_role w r db)"
  by (simp add: wf_db_def) (auto simp: update_role_def principal_ok_def intro!: all_rows_update)

lemma wf_update_name: "wf_db db \<Longrightarrow> wf_db (update_name w n db)"
  by (simp add: wf_db_def) (auto simp: update_name_def principal_ok_def intro!: all_rows_update)

lemma wf_delete_principal: "wf_db db \<Longrightarrow> wf_db (delete_principal w db)"
  by (simp add: wf_db_def) (simp add: delete_principal_def)

lemma wf_drop_identities: "wf_db db \<Longrightarrow> wf_db (db\<lparr>db_identities := filter P (db_identities db)\<rparr>)"
  by (simp add: wf_db_def)

lemma wf_update_tokens: "wf_db db \<Longrightarrow> keeps_token f \<Longrightarrow> wf_db (db\<lparr>db_tokens := update_where Q f (db_tokens db)\<rparr>)"
  by (simp add: wf_db_def keeps_token_simps)

lemma wf_update_sessions: "wf_db db \<Longrightarrow> keeps_session g \<Longrightarrow> wf_db (db\<lparr>db_sessions := update_where R g (db_sessions db)\<rparr>)"
  by (simp add: wf_db_def keeps_session_simps)

lemma wf_add_key:
  "wf_db db \<Longrightarrow> \<forall>q \<in> set (db_signing_keys db). sk_id q \<noteq> sk_id k \<Longrightarrow> wf_db (db\<lparr>db_signing_keys := db_signing_keys db @ [k]\<rparr>)"
  by (simp add: wf_db_def)

lemma wf_add_invitation:
  "wf_db db \<Longrightarrow> \<forall>q \<in> set (db_invitations db). iv_id q \<noteq> iv_id v \<Longrightarrow> OrgRole_parse (iv_org_role v) \<noteq> None \<Longrightarrow>
     wf_db (db\<lparr>db_invitations := db_invitations db @ [v]\<rparr>)"
  by (simp add: wf_db_def)

lemma wf_consume: "wf_db db \<Longrightarrow> wf_db (consume_invitation n w now db)"
  by (simp add: wf_db_def consume_invitation_def) (simp add: all_rows_update)

lemma wf_upsert: "wf_db db \<Longrightarrow> upsert_app_role app w r db = Ok db' \<Longrightarrow> wf_db db'"
  by (auto simp: upsert_app_role_def wf_db_def has_principal_iff list_ex_iff split: if_splits intro!: all_rows_update)

lemma wf_drop_app_roles: "wf_db db \<Longrightarrow> wf_db (db\<lparr>db_app_roles := filter P (db_app_roles db)\<rparr>)"
  by (simp add: wf_db_def)

lemma wf_insert_env_role: "wf_db db \<Longrightarrow> insert_env_role t w db = Ok db' \<Longrightarrow> wf_db db'"
  by (auto simp: insert_env_role_def wf_db_def has_principal_iff list_ex_iff split: if_splits)

lemma wf_drop_env_roles: "wf_db db \<Longrightarrow> wf_db (db\<lparr>db_env_roles := filter P (db_env_roles db)\<rparr>)"
  by (simp add: wf_db_def)

lemma wf_catalog:
  assumes "wf_db db" "owner_ok as owner db"
  shows "wf_db (catalog_change as ts es owner db)"
proof (cases owner)
  case None
  with assms(1) show ?thesis by (simp add: wf_db_def) (simp add: catalog_change_def)
next
  case (Some aw)
  obtain app who where "aw = (app, who)" by (cases aw)
  with Some assms show ?thesis
    by (simp add: wf_db_def owner_ok_def has_principal_iff)
      (auto simp: catalog_change_def AppRole_parse_def)
qed

lemma wf_audit: "wf_db db \<Longrightarrow> wf_db (audit_in a now db)"
  by (simp add: wf_db_def)

lemmas wf_laws = wf_audit wf_insert_principal wf_insert_token wf_insert_identity wf_insert_session wf_update_role
  wf_update_name wf_delete_principal wf_drop_identities wf_update_tokens wf_update_sessions wf_add_key
  wf_add_invitation wf_consume wf_upsert wf_drop_app_roles wf_insert_env_role wf_drop_env_roles wf_catalog

interpretation wf: identity_invariant wf_db UNIV
  by unfold_locales (rule wf_laws; assumption)+

section \<open>An administrator remains\<close>

lemma bex_update_where:
  "(\<exists>p \<in> set (update_where P f xs). Q p) \<longleftrightarrow> (\<exists>p \<in> set xs. Q (if P p then f p else p))"
  by (induction xs) (auto simp: update_where_def)

lemma fetch_principal_Some:
  "fetch_principal db w = Ok (Some p) \<Longrightarrow> \<exists>r \<in> set (db_principals db). pr_id r = w \<and> pr_org_role r = OrgRole_as_str (p_role p)"
  by (auto simp: fetch_principal_def principal_from_row_def rbind_eq_Inr ok_or_eq_Inr OrgRole_parse_Some
      find_Some_iff split: option.splits)

lemma other_admin:
  assumes "wf_db db" "has_admin db" "demotes db w"
  shows "\<exists>q \<in> set (db_principals db). pr_org_role q = ''administrator'' \<and> pr_id q \<noteq> w"
proof -
  from assms(3) obtain p where p: "fetch_principal db w = Ok (Some p)" "p_role p = Administrator \<longrightarrow> guard_last_admin db w = Ok ()"
    by (auto simp: demotes_def)
  show ?thesis
  proof (cases "p_role p = Administrator")
    case True
    with p(2) show ?thesis by (auto simp: guard_last_admin_def filter_empty_conv split: if_splits)
  next
    case False
    from fetch_principal_Some [OF p(1)] obtain r where r: "r \<in> set (db_principals db)" "pr_id r = w"
      "pr_org_role r = OrgRole_as_str (p_role p)" by blast
    with False have "pr_org_role r \<noteq> ''administrator''" by (cases "p_role p") (simp_all add: OrgRole_as_str_def)
    moreover from assms(2) obtain q where "q \<in> set (db_principals db)" "pr_org_role q = ''administrator''"
      by (auto simp: has_admin_def)
    moreover have "keyed pr_id (db_principals db)" using assms(1) by (simp add: wf_db_def)
    ultimately show ?thesis using r keyed_eqD [of pr_id "db_principals db" q r] by metis
  qed
qed

lemma admin_update_role:
  assumes "wf_db db" "has_admin db" "role \<noteq> Administrator \<longrightarrow> demotes db w"
  shows "has_admin (update_role w role db)"
proof (cases "role = Administrator")
  case True
  then show ?thesis using assms(2) by (auto simp: has_admin_def update_role_def bex_update_where OrgRole_as_str_def)
next
  case False
  with other_admin [OF assms(1,2)] assms(3) obtain q where
    "q \<in> set (db_principals db)" "pr_org_role q = ''administrator''" "pr_id q \<noteq> w" by blast
  then show ?thesis by (auto simp: has_admin_def update_role_def bex_update_where)
qed

lemma admin_delete: "wf_db db \<Longrightarrow> has_admin db \<Longrightarrow> demotes db w \<Longrightarrow> has_admin (delete_principal w db)"
  by (drule (2) other_admin) (auto simp: has_admin_def delete_principal_def)

lemma admin_frame [simp]:
  "has_admin (audit_in a now db) = has_admin db"
  "has_admin (update_name w n db) = has_admin db"
  "has_admin (db\<lparr>db_identities := x\<rparr>) = has_admin db"
  "has_admin (db\<lparr>db_tokens := y\<rparr>) = has_admin db"
  "has_admin (db\<lparr>db_sessions := z\<rparr>) = has_admin db"
  "has_admin (db\<lparr>db_signing_keys := k\<rparr>) = has_admin db"
  "has_admin (db\<lparr>db_invitations := v\<rparr>) = has_admin db"
  "has_admin (db\<lparr>db_app_roles := ar\<rparr>) = has_admin db"
  "has_admin (db\<lparr>db_env_roles := er\<rparr>) = has_admin db"
  "has_admin (consume_invitation m w now db) = has_admin db"
  "has_admin (catalog_change as ts es owner db) = has_admin db"
  by (auto simp: has_admin_def update_name_def bex_update_where catalog_change_def consume_invitation_def)

lemma admin_insert:
  "insert_principal p c now db = Ok db' \<Longrightarrow> has_admin db \<Longrightarrow> has_admin db'"
  "insert_token t db = Ok db' \<Longrightarrow> has_admin db' = has_admin db"
  "insert_identity i db = Ok db' \<Longrightarrow> has_admin db' = has_admin db"
  "insert_session s db = Ok db' \<Longrightarrow> has_admin db' = has_admin db"
  "upsert_app_role app w r db = Ok db' \<Longrightarrow> has_admin db' = has_admin db"
  "insert_env_role e w db = Ok db' \<Longrightarrow> has_admin db' = has_admin db"
  by (auto simp: insert_principal_def insert_token_def insert_identity_def insert_session_def upsert_app_role_def
      insert_env_role_def has_admin_def split: if_splits)

interpretation admin: identity_invariant "\<lambda>db. wf_db db \<and> has_admin db" UNIV
  by unfold_locales (auto simp: admin_insert admin_update_role admin_delete intro: wf_laws)

section \<open>A dead token stays dead\<close>

lemma dead_frame [simp]:
  "dead_hash h (audit_in a now db) = dead_hash h db"
  "dead_hash h (update_role w r db) = dead_hash h db"
  "dead_hash h (update_name w n db) = dead_hash h db"
  "dead_hash h (db\<lparr>db_identities := x\<rparr>) = dead_hash h db"
  "dead_hash h (db\<lparr>db_sessions := z\<rparr>) = dead_hash h db"
  "dead_hash h (db\<lparr>db_signing_keys := k\<rparr>) = dead_hash h db"
  "dead_hash h (db\<lparr>db_invitations := v\<rparr>) = dead_hash h db"
  "dead_hash h (db\<lparr>db_app_roles := ar\<rparr>) = dead_hash h db"
  "dead_hash h (db\<lparr>db_env_roles := er\<rparr>) = dead_hash h db"
  "dead_hash h (consume_invitation m w now db) = dead_hash h db"
  "dead_hash h (catalog_change as ts es owner db) = dead_hash h db"
  by (auto simp: dead_hash_def update_role_def update_name_def catalog_change_def consume_invitation_def)

lemma dead_insert:
  "insert_principal p c now db = Ok db' \<Longrightarrow> dead_hash h db' = dead_hash h db"
  "insert_token t db = Ok db' \<Longrightarrow> tk_token_hash t \<noteq> h \<Longrightarrow> dead_hash h db' = dead_hash h db"
  "insert_identity i db = Ok db' \<Longrightarrow> dead_hash h db' = dead_hash h db"
  "insert_session s db = Ok db' \<Longrightarrow> dead_hash h db' = dead_hash h db"
  "upsert_app_role app w r db = Ok db' \<Longrightarrow> dead_hash h db' = dead_hash h db"
  "insert_env_role e w db = Ok db' \<Longrightarrow> dead_hash h db' = dead_hash h db"
  by (auto simp: insert_principal_def insert_token_def insert_identity_def insert_session_def upsert_app_role_def
      insert_env_role_def dead_hash_def split: if_splits)

lemma dead_delete: "dead_hash h db \<Longrightarrow> dead_hash h (delete_principal w db)"
  by (auto simp: dead_hash_def delete_principal_def)

lemma dead_update: "dead_hash h db \<Longrightarrow> keeps_token f \<Longrightarrow> dead_hash h (db\<lparr>db_tokens := update_where Q f (db_tokens db)\<rparr>)"
  by (auto simp: dead_hash_def update_where_def keeps_token_def)

interpretation dead: identity_invariant "dead_hash h" "- {h}" for h
  by unfold_locales (auto simp: dead_insert dead_delete dead_update)

end
