(* ===== verification/Identity_Correct.thy ===== *)
theory Identity_Correct
  imports Identity_Inv
begin

text \<open>
  What the store of identities promises: its tables stay consistent and keep an administrator, a
  revoked or removed credential stays dead, nobody hands out more than they hold, and the checks made
  inside transactions agree with the permissions the routes evaluate.
\<close>

section \<open>Roles before and after\<close>

lemma roles_in_frame:
  "db_principals db' = db_principals db \<Longrightarrow> db_app_roles db' = db_app_roles db \<Longrightarrow> db_env_roles db' = db_env_roles db \<Longrightarrow>
     roles_in db' w = roles_in db w"
  by (simp add: roles_in_def fetch_principal_def principal_from_row_def rbind_def ok_or_def split: option.splits sum.splits)

text \<open>The roles a principal's rows give, once the principal is known to exist.\<close>

definition held :: "identity_db \<Rightarrow> string \<Rightarrow> org_role \<Rightarrow> roles" where
  "held db w role = \<lparr>ro_org = Some role,
     ro_apps = bt_of (List.map_filter app_role_of (filter (\<lambda>r. rr_principal r = w) (db_app_roles db))),
     ro_deployer = bs_of (map er_env_type (filter (\<lambda>r. er_principal r = w) (db_env_roles db)))\<rparr>"

lemma roles_in_held:
  assumes "wf_db db" "r \<in> set (db_principals db)" "pr_id r = w"
  shows "\<exists>role. OrgRole_parse (pr_org_role r) = Some role \<and> roles_in db w = Ok (held db w role)"
proof -
  obtain role where role: "OrgRole_parse (pr_org_role r) = Some role"
    using assms(1,2) by (auto simp: wf_db_def all_rows_def principal_ok_def)
  have k: "keyed pr_id (db_principals db)" using assms(1) by (simp add: wf_db_def)
  have "find (\<lambda>p. pr_id p = w) (db_principals db) \<noteq> None" using assms(2,3) by (auto simp: find_None_iff)
  then obtain q where q: "find (\<lambda>p. pr_id p = w) (db_principals db) = Some q" by blast
  then have "q \<in> set (db_principals db)" "pr_id q = w" by (auto simp: find_Some_iff)
  with keyed_eqD [OF k] assms(2,3) have "q = r" by metis
  with q role show ?thesis
    by (simp add: roles_in_def fetch_principal_def principal_from_row_def held_def)
qed

lemma roles_in_None: "\<not> has_principal db w \<Longrightarrow> roles_in db w = Ok Roles_default"
proof -
  assume "\<not> has_principal db w"
  then have "find (\<lambda>p. pr_id p = w) (db_principals db) = None" by (auto simp: has_principal_def list_ex_iff find_None_iff)
  then show ?thesis by (simp add: roles_in_def fetch_principal_def)
qed

text \<open>Roles are always readable, and only members hold any.\<close>

lemma roles_in_cases:
  assumes "wf_db db"
  obtains "roles_in db w = Ok Roles_default" "w \<notin> principal_ids db"
  | role where "roles_in db w = Ok (held db w role)" "w \<in> principal_ids db"
proof (cases "has_principal db w")
  case True
  then obtain r where "r \<in> set (db_principals db)" "pr_id r = w" by (auto simp: has_principal_def list_ex_iff)
  with roles_in_held [OF assms] True that(2) show ?thesis by (auto simp: has_principal_iff)
next
  case False
  with roles_in_None that(1) show ?thesis by (simp add: has_principal_iff)
qed

lemma no_rows_default:
  assumes "wf_db db" "w \<notin> principal_ids db"
  shows "held db w role = Roles_default\<lparr>ro_org := Some role\<rparr>"
proof -
  have "filter (\<lambda>r. rr_principal r = w) (db_app_roles db) = []" "filter (\<lambda>r. er_principal r = w) (db_env_roles db) = []"
    using assms by (auto simp: wf_db_def refers_def filter_empty_conv)
  then show ?thesis by (simp add: held_def Roles_default_def bt_of_def bs_of_def map_filter_simps)
qed

lemma roles_after_insert:
  assumes "wf_db db" "insert_principal p c now db = Ok db'"
  shows "roles_in db' (np_id p) = Ok (Roles_default\<lparr>ro_org := Some (np_role p)\<rparr>)"
proof -
  have w: "wf_db db'" using assms by (rule wf_insert_principal)
  have n: "np_id p \<notin> principal_ids db" and d: "db_app_roles db' = db_app_roles db" "db_env_roles db' = db_env_roles db"
    using assms(2) by (auto simp: insert_principal_def has_principal_iff split: if_splits)
  have "\<exists>r \<in> set (db_principals db'). pr_id r = np_id p \<and> pr_org_role r = OrgRole_as_str (np_role p)"
    using assms(2) by (auto simp: insert_principal_def split: if_splits)
  then obtain r where "r \<in> set (db_principals db')" "pr_id r = np_id p" "pr_org_role r = OrgRole_as_str (np_role p)" by blast
  with roles_in_held [OF w] have "roles_in db' (np_id p) = Ok (held db' (np_id p) (np_role p))" by fastforce
  then show ?thesis using no_rows_default [OF assms(1) n] d by (simp add: held_def)
qed

lemma roles_after_update:
  assumes "wf_db db" "w \<in> principal_ids db"
  shows "roles_in (update_role w role db) w = Ok (held db w role)"
proof -
  have w: "wf_db (update_role w role db)" using assms(1) by (rule wf_update_role)
  obtain r where r: "r \<in> set (db_principals db)" "pr_id r = w" using assms(2) by (auto simp: principal_ids_def)
  then have "r\<lparr>pr_org_role := OrgRole_as_str role\<rparr> \<in> set (db_principals (update_role w role db))"
    by (force simp: update_role_def update_where_def)
  from roles_in_held [OF w this, of w] r(2) have "roles_in (update_role w role db) w = Ok (held (update_role w role db) w role)" by simp
  then show ?thesis by (simp add: held_def update_role_def)
qed

section \<open>The delegation ceiling\<close>

lemma authority_covers:
  assumes "check_authority db (Some a) t res = Ok ()" "roles_in db a = Ok ra"
    "(case t of Some t \<Rightarrow> roles_in db t | None \<Rightarrow> Ok Roles_default) = Ok cur"
  shows "covers ra cur" "res = Some role \<Longrightarrow> covers ra (cur\<lparr>ro_org := Some role\<rparr>)"
proof -
  have "covers ra cur \<and> (\<forall>role. res = Some role \<longrightarrow> covers ra (cur\<lparr>ro_org := Some role\<rparr>))"
  proof (cases "ro_org ra = Some Administrator")
    case True
    then show ?thesis by (simp add: covers_def)
  next
    case False
    with assms show ?thesis
      by (auto simp: check_authority_def check_authority_for_def split: if_splits option.splits)
  qed
  then show "covers ra cur" "res = Some role \<Longrightarrow> covers ra (cur\<lparr>ro_org := Some role\<rparr>)" by blast+
qed

lemma update_name_roles: "roles_in (update_name i n db) w = roles_in db w"
proof -
  have "find P (update_where Q f xs) = map_option (\<lambda>x. if Q x then f x else x) (find P xs)"
    if "\<And>x. P (f x) = P x" for P Q :: "principal_row \<Rightarrow> bool" and f xs
    using that by (induction xs) (auto simp: update_where_def)
  then have "find (\<lambda>p. pr_id p = w) (db_principals (update_name i n db)) =
      map_option (\<lambda>x. if pr_id x = i then x\<lparr>pr_name := n\<rparr> else x) (find (\<lambda>p. pr_id p = w) (db_principals db))"
    by (simp add: update_name_def)
  then show ?thesis
    by (simp add: roles_in_def fetch_principal_def principal_from_row_def update_name_def rbind_def ok_or_def
        split: option.splits sum.splits)
qed

text \<open>Whose authority an operation may extend, and on whose authority it does so.\<close>

fun affected :: "identity_op \<Rightarrow> string option" where
  "affected (CreatePrincipal p) = Some (np_id p)"
| "affected (SetOrgRole i r) = Some i"
| "affected (UpdatePrincipal i r n) = Some i"
| "affected (CreateToken w i d e h) = Some w"
| "affected (AcceptInvitation c e u) = Some u"
| "affected _ = None"

fun authorizer :: "identity_op \<Rightarrow> audit_intent \<Rightarrow> identity_db \<Rightarrow> string option" where
  "authorizer (AcceptInvitation c e u) a db = map_option iv_created_by (find (\<lambda>v. iv_code_hash v = c) (db_invitations db))"
| "authorizer _ a db = au_actor a"

lemma create_principal_covered:
  assumes "wf_db db" "state_of (create_principal org p a now db) = Ok db'" "au_actor a = Some b" "roles_in db b = Ok ra"
  shows "\<exists>rw. roles_in db' (np_id p) = Ok rw \<and> covers ra rw"
proof -
  from assms(2,3) obtain db1 where d: "check_authority db (Some b) None (Some (np_role p)) = Ok ()"
    "insert_principal p (Some b) now db = Ok db1" "db' = audit_in a now db1"
    by (auto simp: state_of_def create_principal_def Let_def rbind_eq_Inr)
  have "roles_in db' (np_id p) = Ok (Roles_default\<lparr>ro_org := Some (np_role p)\<rparr>)"
    using roles_after_insert [OF assms(1) d(2)] roles_in_frame [of db' db1] d(3) by simp
  with authority_covers(2) [OF d(1) assms(4)] show ?thesis by simp
qed

lemma update_role_covered:
  assumes "wf_db db" "require_principal db w = Ok p" "check_authority db (Some b) (Some w) (Some role) = Ok ()"
    "roles_in db b = Ok ra"
  shows "covers ra (held db w role)"
proof -
  have "w \<in> principal_ids db"
    using assms(2) fetch_principal_Some by (fastforce simp: wf.require_principal_Ok principal_ids_def)
  then obtain cur where c: "roles_in db w = Ok (held db w cur)" using roles_in_cases [OF assms(1), of w] by metis
  have "held db w role = (held db w cur)\<lparr>ro_org := Some role\<rparr>" by (simp add: held_def)
  with authority_covers(2) [OF assms(3,4), of "held db w cur" role] c show ?thesis by simp
qed

lemma require_principal_in: "require_principal db w = Ok p \<Longrightarrow> w \<in> principal_ids db"
  using fetch_principal_Some by (fastforce simp: wf.require_principal_Ok principal_ids_def)

lemma set_org_role_covered:
  assumes "wf_db db" "state_of (set_org_role org w role a now db) = Ok db'" "au_actor a = Some b" "roles_in db b = Ok ra"
  shows "\<exists>rw. roles_in db' w = Ok rw \<and> covers ra rw"
proof -
  from assms(2,3) obtain p where p: "require_principal db w = Ok p" "check_authority db (Some b) (Some w) (Some role) = Ok ()"
    "db' = audit_in a now (update_role w role db)"
    by (auto simp: state_of_def set_org_role_def Let_def rbind_eq_Inr)
  have "roles_in db' w = Ok (held db w role)"
    using roles_after_update [OF assms(1) require_principal_in [OF p(1)]] roles_in_frame [of db' "update_role w role db"] p(3) by simp
  with update_role_covered [OF assms(1) p(1,2) assms(4)] show ?thesis by simp
qed

lemma update_principal_covered:
  assumes "wf_db db" "state_of (update_principal org w role name a now db) = Ok db'" "au_actor a = Some b" "roles_in db b = Ok ra"
  shows "\<exists>rw. roles_in db' w = Ok rw \<and> covers ra rw"
proof -
  from assms(2,3) obtain p db1 where p: "require_principal db w = Ok p" "check_authority db (Some b) (Some w) role = Ok ()"
    "(case role of None \<Rightarrow> Ok db | Some r \<Rightarrow>
       rbind (if p_role p = Administrator \<and> r \<noteq> Administrator then guard_last_admin db w else Ok ()) (\<lambda>_. Ok (update_role w r db))) = Ok db1"
    "db' = audit_in a now (case name of None \<Rightarrow> db1 | Some n \<Rightarrow> update_name w n db1)"
    by (auto simp: state_of_def update_principal_def Let_def rbind_eq_Inr)
  have "roles_in db' w = roles_in (case name of None \<Rightarrow> db1 | Some n \<Rightarrow> update_name w n db1) w"
    using roles_in_frame [of db'] p(4) by simp
  then have r: "roles_in db' w = roles_in db1 w" by (simp add: update_name_roles split: option.splits)
  have m: "w \<in> principal_ids db" using p(1) by (rule require_principal_in)
  show ?thesis
  proof (cases role)
    case None
    from roles_in_cases [OF assms(1), of w] m obtain cur where c: "roles_in db w = Ok cur" by metis
    with authority_covers(1) [OF p(2) assms(4), of cur] have "covers ra cur" by simp
    with None p(3) c r show ?thesis by simp
  next
    case (Some ro)
    with p(3) have "db1 = update_role w ro db" by (auto simp: rbind_eq_Inr split: if_splits)
    with roles_after_update [OF assms(1) m] update_role_covered [OF assms(1) p(1) _ assms(4), of ro] p(2) Some r
    show ?thesis by simp
  qed
qed

lemma create_token_covered:
  assumes "wf_db db" "state_of (create_token org w i d e h a now db) = Ok db'" "au_actor a = Some b" "roles_in db b = Ok ra"
  shows "\<exists>rw. roles_in db' w = Ok rw \<and> (rw = ra \<or> covers ra rw)"
proof -
  from assms(2,3) obtain t db1 where d: "insert_token t db = Ok db1" "db' = audit_in a now db1"
    "b = w \<or> check_authority db (Some b) (Some w) None = Ok ()"
    by (auto simp: state_of_def create_token_def Let_def rbind_eq_Inr map_err_eq_Inr split: if_splits)
  have "roles_in db' w = roles_in db w"
    using d(1,2) by (intro roles_in_frame) (auto simp: insert_token_def split: if_splits)
  moreover obtain cur where c: "roles_in db w = Ok cur" using roles_in_cases [OF assms(1), of w] by metis
  ultimately show ?thesis using d(3) assms(4) authority_covers(1) [of db b "Some w" None ra cur] by auto
qed

lemma check_invitation_authority:
  assumes "check_invitation c e now db = Ok (v, m)"
  shows "\<exists>r. find (\<lambda>v. iv_code_hash v = c) (db_invitations db) = Some r \<and> iv_created_by r = inv_created_by v \<and>
    check_authority db (Some (inv_created_by v)) None (Some (inv_role v)) = Ok ()"
proof -
  from assms obtain r where r: "find (\<lambda>v. iv_code_hash v = c) (db_invitations db) = Some r" "invitation_from_row r = Ok v"
    "is_ok (check_authority db (Some (inv_created_by v)) None (Some (inv_role v)))"
    by (auto simp: check_invitation_def rbind_eq_Inr Let_def split: option.splits if_splits prod.splits)
  from r(2) have "iv_created_by r = inv_created_by v"
    by (auto simp: invitation_from_row_def rbind_eq_Inr)
  with r show ?thesis by (auto simp: is_ok_iff)
qed

lemma accept_invitation_covered:
  assumes "wf_db db" "state_of (accept_invitation org c e u now db) = Ok db'"
    "authorizer (AcceptInvitation c e u) a db = Some b" "roles_in db b = Ok ra"
  shows "\<exists>rw. roles_in db' u = Ok rw \<and> covers ra rw"
proof -
  from assms(2) have "\<exists>v m p db1 i db2 x. check_invitation c e now db = Ok (v, m) \<and> np_id p = u \<and> np_role p = inv_role v \<and>
      insert_principal p (Some (inv_created_by v)) now db = Ok db1 \<and> insert_identity i db1 = Ok db2 \<and>
      db' = audit_in x now (consume_invitation (inv_id v) u now db2)"
    unfolding state_of_def accept_invitation_def Let_def
    by (clarsimp simp: rbind_eq_Inr map_err_eq_Inr) (intro exI conjI; (assumption | rule refl | simp))
  then obtain v m p db1 i db2 x where d: "check_invitation c e now db = Ok (v, m)" "np_id p = u" "np_role p = inv_role v"
    "insert_principal p (Some (inv_created_by v)) now db = Ok db1" "insert_identity i db1 = Ok db2"
    "db' = audit_in x now (consume_invitation (inv_id v) u now db2)" by blast
  from check_invitation_authority [OF d(1)] assms(3) have b: "b = inv_created_by v"
    "check_authority db (Some b) None (Some (inv_role v)) = Ok ()" by auto
  have "roles_in db' u = roles_in db1 u"
    using d(5,6) by (intro roles_in_frame) (auto simp: insert_identity_def consume_invitation_def split: if_splits)
  with roles_after_insert [OF assms(1) d(4)] d(2,3) have "roles_in db' u = Ok (Roles_default\<lparr>ro_org := Some (inv_role v)\<rparr>)" by simp
  with authority_covers(2) [OF b(2) assms(4)] show ?thesis by simp
qed

lemma affected_covered:
  assumes "wf_db db" "run_op org a now op' db = Ok db'" "affected op' = Some w" "authorizer op' a db = Some b" "roles_in db b = Ok ra"
  shows "\<exists>rw. roles_in db' w = Ok rw \<and> (rw = ra \<or> covers ra rw)"
proof (cases op')
  case (CreatePrincipal p)
  with assms(2-4) create_principal_covered [OF assms(1) _ _ assms(5)] show ?thesis by fastforce
next
  case (SetOrgRole i r)
  with assms(2-4) set_org_role_covered [OF assms(1) _ _ assms(5)] show ?thesis by fastforce
next
  case (UpdatePrincipal i r n)
  with assms(2-4) update_principal_covered [OF assms(1) _ _ assms(5)] show ?thesis by fastforce
next
  case (CreateToken x i d e h)
  with assms(2-4) create_token_covered [OF assms(1) _ _ assms(5)] show ?thesis by fastforce
next
  case (AcceptInvitation c e u)
  with assms(2-4) accept_invitation_covered [OF assms(1) _ _ assms(5)] show ?thesis by fastforce
qed (use assms(3) in simp_all)

section \<open>Samples\<close>

definition empty_db :: "string \<Rightarrow> identity_db" where
  "empty_db org = \<lparr>db_org = org, db_principals = [], db_identities = [], db_invitations = [], db_tokens = [],
     db_sessions = [], db_signing_keys = [], db_app_roles = [], db_env_roles = [], db_apps = [], db_env_types = [],
     db_envs = [], db_audit_seq = 0, db_audit = []\<rparr>"

lemma wf_empty: "wf_db (empty_db org)"
  by (simp add: wf_db_def empty_db_def)

definition sample_row :: "string \<Rightarrow> org_role \<Rightarrow> principal_row" where
  "sample_row i r = \<lparr>pr_id = i, pr_type = ''service'', pr_name = i, pr_email = None, pr_org_role = OrgRole_as_str r,
     pr_created_at = 0, pr_created_by = None\<rparr>"

definition sample_token :: token_row where
  "sample_token = \<lparr>tk_principal = ''m'', tk_id = ''t'', tk_description = None, tk_token_hash = ''h'', tk_expires_at = None,
     tk_created_at = 0, tk_created_by = ''m'', tk_last_used_at = None, tk_revoked_at = None\<rparr>"

definition sample_db :: identity_db where
  "sample_db = (empty_db ''o'')\<lparr>db_principals := [sample_row ''b'' Administrator, sample_row ''m'' Manager],
     db_tokens := [sample_token]\<rparr>"

definition sample_audit :: audit_intent where
  "sample_audit = AuditIntent_accepted ''o'' ''m'' ''POST'' ''/orgs/o/users'' ''user.create''"

definition sample_member :: new_principal where
  "sample_member = \<lparr>np_id = ''n'', np_kind = ''user'', np_name = ''N'', np_email = None, np_role = Member\<rparr>"

lemmas sample_defs = sample_db_def sample_row_def sample_token_def sample_audit_def sample_member_def empty_db_def
  AuditIntent_accepted_def

lemma wf_sample: "wf_db sample_db"
  by (simp add: wf_db_def sample_defs keyed_def refers_def all_rows_def principal_ok_def principal_ids_def)

lemma sample_roles: "roles_in sample_db ''m'' = Ok \<lparr>ro_org = Some Manager, ro_apps = [], ro_deployer = []\<rparr>"
  by (simp add: roles_in_def fetch_principal_def principal_from_row_def sample_defs bt_of_def bs_of_def map_filter_simps)

text \<open>\<open>LIKE\<close> compares ASCII letters without their case, so a path prefix selects more than the paths it begins.\<close>

lemma audit_prefix_ignores_case: "like (like_prefix ''/apps/Shop'') ''/apps/shop/envs''"
  by code_simp

section \<open>Properties\<close>

text \<open>
  C3: nobody hands out more than they hold. When a principal is created, gets another role, is
  updated, gets a token or joins by an invitation, everything the result may do was something the
  acting principal, or for an invitation its inviter, may do, on every route and in every scope.
\<close>

theorem no_escalation:
  assumes "wf_db db" "run_op org a now op' db = Ok db'" "affected op' = Some w" "authorizer op' a db = Some b"
    and "roles_in db b = Ok ra" "roles_in db' w = Ok rw"
  shows "evaluate perm rw sc = Allow \<longrightarrow> evaluate perm ra sc = Allow"
  using affected_covered [OF assms(1-5)] assms(6) evaluate_covers [of ra rw perm sc] by auto

lemma sample_created:
  "\<exists>db'. run_op ''o'' sample_audit 5 (CreatePrincipal sample_member) sample_db = Ok db' \<and>
     roles_in db' ''n'' = Ok (Roles_default\<lparr>ro_org := Some Member\<rparr>)"
proof -
  have c: "check_authority sample_db (Some ''m'') None (Some Member) = Ok ()"
    by (simp add: check_authority_def check_authority_for_def sample_roles covers_def Roles_default_def org_role_covers_def)
  obtain db1 where d: "insert_principal sample_member (Some ''m'') 5 sample_db = Ok db1"
    by (simp add: insert_principal_def sample_defs has_principal_def)
  have r: "roles_in db1 ''n'' = Ok (Roles_default\<lparr>ro_org := Some Member\<rparr>)"
    using roles_after_insert [OF wf_sample d] by (simp add: sample_member_def)
  let ?db = "audit_in sample_audit 5 db1"
  have f: "roles_in ?db ''n'' = Ok (Roles_default\<lparr>ro_org := Some Member\<rparr>)"
    using r roles_in_frame [of ?db db1] by simp
  then obtain q where "require_principal ?db ''n'' = Ok q"
    by (auto simp: require_principal_def roles_in_def rbind_eq_Inr Roles_default_def split: option.splits)
  then have "run_op ''o'' sample_audit 5 (CreatePrincipal sample_member) sample_db = Ok ?db"
    using c d by (simp add: state_of_def create_principal_def check_org_def sample_defs)
  with f show ?thesis by blast
qed

theorem no_escalation_witness:
  "evaluate (PermOrg ReadMembers) (Roles_default\<lparr>ro_org := Some Member\<rparr>) \<lparr>sc_app = None, sc_env_type = None\<rparr> = Allow \<and>
   evaluate (PermOrg ReadMembers) \<lparr>ro_org = Some Manager, ro_apps = [], ro_deployer = []\<rparr> \<lparr>sc_app = None, sc_env_type = None\<rparr> = Allow"
proof -
  obtain db' where d: "run_op ''o'' sample_audit 5 (CreatePrincipal sample_member) sample_db = Ok db'"
    "roles_in db' ''n'' = Ok (Roles_default\<lparr>ro_org := Some Member\<rparr>)" using sample_created by blast
  have "affected (CreatePrincipal sample_member) = Some ''n''" "authorizer (CreatePrincipal sample_member) sample_audit sample_db = Some ''m''"
    by (simp_all add: sample_defs)
  from no_escalation [OF wf_sample d(1) this sample_roles d(2), of "PermOrg ReadMembers" "\<lparr>sc_app = None, sc_env_type = None\<rparr>"]
  show ?thesis by (simp add: evaluate_def evaluate_org_def)
qed

text \<open>
  C5: from the first start on, whatever sequence of transactions runs, the tables stay consistent:
  keys are unique, tokens, sessions, identities and roles belong to existing principals, every stored
  role can be read back, and the organization keeps at least one administrator.
\<close>

theorem identity_store_invariant:
  assumes "create_bootstrap_admin org h e a now (empty_db org) = Ok (p, db0)" "identity_run UNIV db0 db"
  shows "wf_db db \<and> (\<exists>r. r \<in> set (db_principals db) \<and> OrgRole_parse (pr_org_role r) = Some Administrator)"
proof -
  have "state_of (create_bootstrap_admin org h e a now (empty_db org)) = Ok db0" by (simp add: state_of_def assms(1))
  with wf.create_bootstrap_admin_keeps [OF wf_empty] have w: "wf_db db0" by simp
  have "has_admin db0" using assms(1)
    by (auto simp: create_bootstrap_admin_def rbind_eq_Inr map_err_eq_Inr Let_def insert_principal_def insert_token_def
        bootstrap_admin_def has_admin_def OrgRole_as_str_def split: if_splits)
  with w admin.run_keeps [OF assms(2)] have "wf_db db" "has_admin db" by auto
  then show ?thesis by (auto simp: has_admin_def OrgRole_parse_Some OrgRole_as_str_def)
qed

theorem identity_store_invariant_witness:
  "\<exists>p db0 db. create_bootstrap_admin ''o'' ''h'' 9 sample_audit 1 (empty_db ''o'') = Ok (p, db0) \<and>
     run_op ''o'' sample_audit 2 (RevokeSession ''j'') db0 = Ok db \<and>
     (\<exists>r. r \<in> set (db_principals db) \<and> OrgRole_parse (pr_org_role r) = Some Administrator)"
proof -
  obtain p db0 where b: "create_bootstrap_admin ''o'' ''h'' 9 sample_audit 1 (empty_db ''o'') = Ok (p, db0)" "db_org db0 = ''o''"
    by (simp add: create_bootstrap_admin_def check_org_def empty_db_def insert_principal_def bootstrap_admin_def has_principal_def
        insert_token_def require_principal_def fetch_principal_def principal_from_row_def Let_def)
  obtain db where d: "run_op ''o'' sample_audit 2 (RevokeSession ''j'') db0 = Ok db"
    using b(2) by (simp add: state_of_def revoke_session_def check_org_def)
  have "identity_run UNIV db0 db" using identity_run.op [OF identity_run.start _ d] by simp
  from identity_store_invariant [OF b(1) this] b(1) d show ?thesis by blast
qed

lemma revoke_token_dead:
  assumes "wf_db db" "revoke_token org w i a now db = Ok ((), db')" "t \<in> set (db_tokens db)" "tk_principal t = w" "tk_id t = i"
  shows "dead_hash (tk_token_hash t) db'"
proof -
  have d: "db_tokens db' = update_where (\<lambda>t. tk_principal t = w \<and> tk_id t = i)
      (\<lambda>t. t\<lparr>tk_revoked_at := coalesce (tk_revoked_at t) now\<rparr>) (db_tokens db)"
    using assms(2) by (auto simp: revoke_token_def rbind_eq_Inr split: if_splits)
  have k: "keyed tk_token_hash (db_tokens db)" using assms(1) by (simp add: wf_db_def)
  have "u = t" if "u \<in> set (db_tokens db)" "tk_token_hash u = tk_token_hash t" for u
    using keyed_eqD [OF k that(1) assms(3) that(2)] .
  then show ?thesis using assms(4,5)
    by (auto simp: dead_hash_def d update_where_def coalesce_def split: option.splits)
qed

lemma remove_principal_dead:
  assumes "wf_db db" "remove_principal org w a now db = Ok ((), db')" "t \<in> set (db_tokens db)" "tk_principal t = w"
  shows "dead_hash (tk_token_hash t) db'"
proof -
  have d: "db_tokens db' = filter (\<lambda>t. tk_principal t \<noteq> w) (db_tokens db)"
    using assms(2) by (auto simp: remove_principal_def delete_principal_def rbind_eq_Inr)
  have k: "keyed tk_token_hash (db_tokens db)" using assms(1) by (simp add: wf_db_def)
  have "u = t" if "u \<in> set (db_tokens db)" "tk_token_hash u = tk_token_hash t" for u
    using keyed_eqD [OF k that(1) assms(3) that(2)] .
  then show ?thesis using assms(4) by (auto simp: dead_hash_def d)
qed

lemma dead_not_authenticated: "dead_hash h db \<Longrightarrow> authenticate_token busy (db_org db) h now db = Ok (None, db)"
proof -
  assume "dead_hash h db"
  then have "find (live_token h now) (db_tokens db) = None" by (auto simp: dead_hash_def live_token_def find_None_iff)
  then show ?thesis by (simp add: authenticate_token_def check_org_def)
qed

text \<open>
  C10: a revoked token never authenticates again, and neither does any token of a removed principal:
  after the transaction, whatever runs next and however late, the token's hash is refused. Only issuing
  a new token with the very same hash could change that.
\<close>

theorem revocation_is_permanent:
  assumes "wf_db db" "t \<in> set (db_tokens db)"
    and "revoke_token org (tk_principal t) (tk_id t) a now db = Ok ((), db1) \<or>
      remove_principal org (tk_principal t) a now db = Ok ((), db1)"
    and "identity_run (- {tk_token_hash t}) db1 db2"
  shows "authenticate_token busy (db_org db2) (tk_token_hash t) later db2 = Ok (None, db2)"
proof -
  have "dead_hash (tk_token_hash t) db1"
    using assms(3) revoke_token_dead [OF assms(1) _ assms(2)] remove_principal_dead [OF assms(1) _ assms(2)] by blast
  from dead.run_keeps [OF assms(4) this] show ?thesis by (rule dead_not_authenticated)
qed

theorem revocation_is_permanent_witness:
  "\<exists>db1. revoke_token ''o'' ''m'' ''t'' sample_audit 5 sample_db = Ok ((), db1) \<and>
     authenticate_token False ''o'' ''h'' 7 sample_db \<noteq> Ok (None, sample_db) \<and>
     authenticate_token False (db_org db1) ''h'' 7 db1 = Ok (None, db1)"
proof -
  obtain db1 where d: "revoke_token ''o'' ''m'' ''t'' sample_audit 5 sample_db = Ok ((), db1)"
    by (simp add: revoke_token_def check_org_def sample_defs)
  have t: "sample_token \<in> set (db_tokens sample_db)" by (simp add: sample_defs)
  have h: "tk_principal sample_token = ''m''" "tk_id sample_token = ''t''" "tk_token_hash sample_token = ''h''"
    by (simp_all add: sample_token_def)
  have "authenticate_token False ''o'' ''h'' 7 sample_db \<noteq> Ok (None, sample_db)"
    by (auto simp: authenticate_token_def check_org_def sample_defs live_token_def Let_def fetch_principal_def touch_token_def
        principal_from_row_def)
  with revocation_is_permanent [OF wf_sample t _ identity_run.start, of "''o''" sample_audit 5 db1 False 7] d h show ?thesis by simp
qed

lemma find_SomeD: "find P xs = Some x \<Longrightarrow> x \<in> set xs \<and> P x"
  by (auto simp: find_Some_iff)

lemma roles_in_member:
  assumes "wf_db db" "roles_in db b = Ok r" "ro_org r = None"
  shows "r = Roles_default"
  using assms roles_in_cases [OF assms(1), of b] by (metis held_def option.distinct(1) roles.select_convs(1) sum.inject(2))

text \<open>
  C15: the checks inside transactions and the permissions of the routes agree. On any consistent
  database, for any principal: managing an application, changing its configuration, deploying to an
  environment type, administering and creating applications are allowed by the one exactly when they
  are allowed by the other; changing values needs both configuration and the deployer role on every type
  concerned.
\<close>

theorem store_checks_agree:
  assumes "wf_db db" "roles_in db b = Ok r"
  shows "(check_app_authority db (Some b) app = Ok () \<longleftrightarrow>
       evaluate (PermApp PermManage) r \<lparr>sc_app = Some app, sc_env_type = t\<rparr> = Allow) \<and>
     (check_configure_authority db (Some b) app = Ok () \<longleftrightarrow>
       app \<in> ap_id ` set (db_apps db) \<and> evaluate (PermApp PermConfigure) r \<lparr>sc_app = Some app, sc_env_type = t\<rparr> = Allow) \<and>
     (check_env_authority db (Some b) app ty = Ok () \<longleftrightarrow>
       evaluate (PermApp PermDeploy) r \<lparr>sc_app = Some app, sc_env_type = Some ty\<rparr> = Allow) \<and>
     (check_values_authority db (Some b) app env = Ok () \<longleftrightarrow>
       check_configure_authority db (Some b) app = Ok () \<and>
       (\<forall>ty. ty \<in> set (values_types db app env) \<longrightarrow>
         evaluate (PermApp PermDeploy) r \<lparr>sc_app = Some app, sc_env_type = Some ty\<rparr> = Allow)) \<and>
     (check_admin_authority db (Some b) = Ok () \<longleftrightarrow> evaluate (PermOrg Administer) r sc = Allow) \<and>
     (check_create_app_authority db (Some b) = Ok () \<longleftrightarrow> evaluate (PermOrg CreateApp) r sc = Allow)"
proof (cases "ro_org r")
  case None
  with roles_in_member [OF assms None] assms(2) show ?thesis
    by (auto simp: evaluate_def check_app_authority_def check_configure_authority_def check_env_authority_def
        check_values_authority_def check_admin_authority_def check_create_app_authority_def Roles_default_def at_least_def)
next
  case (Some o')
  have "map_of (ro_apps r) app = Some Owner \<Longrightarrow> at_least Developer (map_of (ro_apps r) app)"
    by (simp add: at_least_def less_eq_app_role_def app_role_le_def)
  with Some assms(2) show ?thesis
    by (cases o')
      (auto simp: evaluate_def evaluate_app_def evaluate_org_def evaluate_deploy_def requires_def can_see_app_def is_admin_def
        check_app_authority_def check_configure_authority_def check_env_authority_def list_ex_iff image_iff Let_def
        check_values_authority_def check_admin_authority_def check_create_app_authority_def at_least_def find_None_iff
        rbind_eq_Inr split: option.splits if_splits dest!: find_SomeD)
qed

theorem store_checks_agree_witness:
  "check_create_app_authority sample_db (Some ''m'') = Ok () \<and>
   evaluate (PermOrg CreateApp) \<lparr>ro_org = Some Manager, ro_apps = [], ro_deployer = []\<rparr> \<lparr>sc_app = None, sc_env_type = None\<rparr> = Allow"
  using store_checks_agree [OF wf_sample sample_roles, of "''a''" None "''d''" None "\<lparr>sc_app = None, sc_env_type = None\<rparr>"]
  by (simp add: check_create_app_authority_def sample_roles)

end
