(* ===== verification/Float64.thy ===== *)
theory Float64
  imports Complex_Main "HOL-Library.Log_Nat"
begin

text \<open>
  The part of Rust's \<open>f64\<close> the rate limiter uses: finite values are rationals, and an operation is the
  exact result rounded to the nearest binary64 value, ties to even. \<open>f64\<close> is that rounding; it covers
  normal and subnormal magnitudes and leaves out overflow to infinity, which starts at \<open>2 ^ 1024\<close>.
\<close>

section \<open>Rounding\<close>

definition ilog2 :: "rat \<Rightarrow> int" where
  "ilog2 x =
     (let (a, b) = quotient_of x;
          k = int (floorlog 2 (nat a)) - int (floorlog 2 (nat b)) in
      if 2 powi k \<le> x then k else k - 1)"

definition round_even :: "rat \<Rightarrow> int" where
  "round_even x =
     (let n = \<lfloor>x\<rfloor>; d = x - of_int n in
      if d < 1 / 2 then n else if 1 / 2 < d then n + 1 else if even n then n else n + 1)"

definition f64 :: "rat \<Rightarrow> rat" where
  "f64 x = (if x = 0 then 0 else
     let e = max (ilog2 \<bar>x\<bar> - 52) (- 1074) in of_int (round_even (x / 2 powi e)) * 2 powi e)"

lemma powi_split: "2 powi (int m - int n) = (2 ^ m / 2 ^ n :: rat)"
  by (simp add: power_int_diff)

lemma floorlog_rat:
  assumes "0 < a"
  shows "0 < floorlog 2 (nat a)" "2 ^ (floorlog 2 (nat a) - 1) \<le> (of_int a :: rat)" "(of_int a :: rat) < 2 ^ floorlog 2 (nat a)"
proof -
  have n: "0 < nat a" "(of_int a :: rat) = of_nat (nat a)" using assms by simp_all
  show "0 < floorlog 2 (nat a)" using n(1) floorlog_eq_zero_iff [of 2 "nat a"] by linarith
  have b: "2 ^ (floorlog 2 (nat a) - 1) \<le> nat a" "nat a < 2 ^ floorlog 2 (nat a)"
    using floorlog_bounds [of "nat a" 2] n(1) by simp_all
  from of_nat_mono [OF b(1), where 'a = rat] show "2 ^ (floorlog 2 (nat a) - 1) \<le> (of_int a :: rat)"
    unfolding n(2) by (simp only: of_nat_power of_nat_numeral)
  from b(2) have "of_nat (nat a) < (of_nat (2 ^ floorlog 2 (nat a)) :: rat)" by (simp only: of_nat_less_iff)
  then show "(of_int a :: rat) < 2 ^ floorlog 2 (nat a)" unfolding n(2) by (simp only: of_nat_power of_nat_numeral)
qed

lemma ilog2_bounds:
  assumes "0 < x"
  shows "2 powi ilog2 x \<le> x" "x < 2 powi (ilog2 x + 1)"
proof -
  obtain a b where q: "quotient_of x = (a, b)" by (cases "quotient_of x")
  have b: "0 < b" using quotient_of_denom_pos [OF q] .
  have x: "x = of_int a / of_int b" using quotient_of_div [OF q] .
  with assms b have a: "0 < a" by (simp add: zero_less_divide_iff)
  define m n where "m = floorlog 2 (nat a)" and "n = floorlog 2 (nat b)"
  have A: "0 < m" "2 ^ (m - 1) \<le> (of_int a :: rat)" "(of_int a :: rat) < 2 ^ m"
    and B: "0 < n" "2 ^ (n - 1) \<le> (of_int b :: rat)" "(of_int b :: rat) < 2 ^ n"
    unfolding m_def n_def using floorlog_rat [OF a] floorlog_rat [OF b] by blast+
  have up: "x < 2 powi (int m - int n + 1)"
  proof -
    have "x < 2 ^ m / 2 ^ (n - 1)" unfolding x using A B a b by (intro frac_less) simp_all
    also have "\<dots> = 2 powi (int m - int n + 1)" using B(1) powi_split [of m "n - 1"] by (simp add: of_nat_diff algebra_simps)
    finally show ?thesis .
  qed
  have low: "2 powi (int m - int n - 1) \<le> x"
  proof -
    have "2 powi (int m - int n - 1) = (2 ^ (m - 1) / 2 ^ n :: rat)"
      using A(1) powi_split [of "m - 1" n] by (simp add: of_nat_diff algebra_simps)
    also have "\<dots> \<le> x" unfolding x using A B a b by (intro frac_le) simp_all
    finally show ?thesis .
  qed
  have i: "ilog2 x = (if 2 powi (int m - int n) \<le> x then int m - int n else int m - int n - 1)"
    by (simp add: ilog2_def q m_def n_def)
  show "2 powi ilog2 x \<le> x" "x < 2 powi (ilog2 x + 1)" using i up low by (auto split: if_splits)
qed

lemma round_even_near: "\<bar>of_int (round_even x) - x\<bar> \<le> 1 / 2"
proof -
  have "of_int \<lfloor>x\<rfloor> \<le> x" "x < of_int \<lfloor>x\<rfloor> + 1" by linarith+
  then show ?thesis by (auto simp: round_even_def Let_def abs_le_iff)
qed

lemma round_even_int [simp]: "round_even (of_int n) = n"
  by (simp add: round_even_def)

lemma round_even_mono: "x \<le> y \<Longrightarrow> round_even x \<le> round_even y"
proof -
  assume le: "x \<le> y"
  then have f: "\<lfloor>x\<rfloor> \<le> \<lfloor>y\<rfloor>" by (rule floor_mono)
  show ?thesis
  proof (cases "\<lfloor>x\<rfloor> = \<lfloor>y\<rfloor>")
    case True
    then show ?thesis using le by (simp add: round_even_def Let_def)
  next
    case False
    have "round_even x \<le> \<lfloor>x\<rfloor> + 1" "\<lfloor>y\<rfloor> \<le> round_even y" by (simp_all add: round_even_def Let_def)
    with False f show ?thesis by linarith
  qed
qed

section \<open>Facts about rounded values\<close>

definition ulp_exp :: "rat \<Rightarrow> int" where
  "ulp_exp x = max (ilog2 x - 52) (- 1074)"

lemma f64_pos: "0 < x \<Longrightarrow> f64 x = of_int (round_even (x / 2 powi ulp_exp x)) * 2 powi ulp_exp x"
  by (simp add: f64_def ulp_exp_def Let_def)

lemma f64_0 [simp]: "f64 0 = 0"
  by (simp add: f64_def)

lemma f64_nonneg: "0 \<le> x \<Longrightarrow> 0 \<le> f64 x"
proof (cases "x = 0")
  case False
  assume "0 \<le> x"
  with False have "0 < x" by simp
  moreover from this have "round_even 0 \<le> round_even (x / 2 powi ulp_exp x)" by (intro round_even_mono) simp
  ultimately show ?thesis using round_even_int [of 0] by (simp add: f64_pos)
qed simp

text \<open>A multiple of the spacing at \<open>x\<close> is not moved, and bounds what \<open>x\<close> is rounded to.\<close>

lemma f64_exact: "0 < x \<Longrightarrow> x = of_int n * 2 powi ulp_exp x \<Longrightarrow> f64 x = x"
proof -
  assume x: "0 < x" "x = of_int n * 2 powi ulp_exp x"
  have "(2::rat) powi ulp_exp x \<noteq> 0" by simp
  with x(2) have "x / 2 powi ulp_exp x = of_int n" by (metis nonzero_mult_div_cancel_right)
  then have "f64 x = of_int n * 2 powi ulp_exp x" using f64_pos [OF x(1)] by simp
  with x(2) show ?thesis by simp
qed

lemma f64_le_multiple: "0 < x \<Longrightarrow> x \<le> of_int n * 2 powi ulp_exp x \<Longrightarrow> f64 x \<le> of_int n * 2 powi ulp_exp x"
proof -
  assume x: "0 < x" "x \<le> of_int n * 2 powi ulp_exp x"
  have "x / 2 powi ulp_exp x \<le> of_int n" using x(2) by (simp add: pos_divide_le_eq)
  then have "round_even (x / 2 powi ulp_exp x) \<le> n" using round_even_mono [of _ "of_int n"] by fastforce
  then show ?thesis unfolding f64_pos [OF x(1)] by (intro mult_right_mono) simp_all
qed

lemma multiple_le_f64: "0 < x \<Longrightarrow> of_int n * 2 powi ulp_exp x \<le> x \<Longrightarrow> of_int n * 2 powi ulp_exp x \<le> f64 x"
proof -
  assume x: "0 < x" "of_int n * 2 powi ulp_exp x \<le> x"
  have "of_int n \<le> x / 2 powi ulp_exp x" using x(2) by (simp add: pos_le_divide_eq)
  then have "n \<le> round_even (x / 2 powi ulp_exp x)" using round_even_mono [of "of_int n"] by fastforce
  then show ?thesis unfolding f64_pos [OF x(1)] by (intro mult_right_mono) simp_all
qed

lemma powi_le: "i \<le> j \<Longrightarrow> (2::rat) powi i \<le> 2 powi j"
  by (rule power_int_increasing) simp_all

lemma powi_less_imp: "(2::rat) powi i < 2 powi j \<Longrightarrow> i < j"
  using powi_le [of j i] by linarith

lemma ilog2_mono: "0 < x \<Longrightarrow> x \<le> y \<Longrightarrow> ilog2 x \<le> ilog2 y"
  using ilog2_bounds(1) [of x] ilog2_bounds(2) [of y] powi_less_imp [of "ilog2 x" "ilog2 y + 1"] by linarith

lemma powi_multiple: "e \<le> i \<Longrightarrow> \<exists>n. (2::rat) powi i = of_int n * 2 powi e"
proof -
  assume "e \<le> i"
  then obtain k where k: "i = int k + e" by (metis add.commute diff_add_cancel nonneg_int_cases diff_ge_0_iff_ge)
  have "(2::rat) powi i = of_int (2 ^ k) * 2 powi e" unfolding k by (subst power_int_add) simp_all
  then show ?thesis by blast
qed

lemma f64_mono:
  assumes "0 \<le> x" "x \<le> y"
  shows "f64 x \<le> f64 y"
proof (cases "x = 0")
  case True
  then show ?thesis using f64_nonneg assms by simp
next
  case False
  then have x: "0 < x" and y: "0 < y" using assms by simp_all
  show ?thesis
  proof (cases "ulp_exp x = ulp_exp y")
    case True
    have "x / 2 powi ulp_exp x \<le> y / 2 powi ulp_exp x" using assms(2) by (intro divide_right_mono) simp_all
    from round_even_mono [OF this] show ?thesis
      unfolding f64_pos [OF x] f64_pos [OF y] True [symmetric] by (intro mult_right_mono) simp_all
  next
    case False
    then have i: "ilog2 x + 1 \<le> ilog2 y" "- 1074 \<le> ilog2 y - 52"
      using ilog2_mono [OF x assms(2)] by (auto simp: ulp_exp_def max_def split: if_splits)
    let ?j = "max (ilog2 x + 1) (- 1074)"
    obtain n where n: "(2::rat) powi ?j = of_int n * 2 powi ulp_exp x"
      using powi_multiple [of "ulp_exp x" ?j] by (fastforce simp: ulp_exp_def)
    have "x \<le> 2 powi ?j" using ilog2_bounds(2) [OF x] powi_le [of "ilog2 x + 1" ?j] by simp
    then have "f64 x \<le> 2 powi ?j" using f64_le_multiple [OF x, of n] n by simp
    also have "\<dots> \<le> 2 powi ilog2 y" using i by (intro powi_le) simp
    also have "\<dots> \<le> f64 y"
    proof -
      obtain m where m: "(2::rat) powi ilog2 y = of_int m * 2 powi ulp_exp y"
        using powi_multiple [of "ulp_exp y" "ilog2 y"] i(2) by (auto simp: ulp_exp_def)
      then show ?thesis using multiple_le_f64 [OF y, of m] ilog2_bounds(1) [OF y] by simp
    qed
    finally show ?thesis .
  qed
qed

text \<open>Integers below \<open>2 ^ 53\<close> are exact.\<close>

lemma f64_nat [simp]:
  assumes "n < 2 ^ 53"
  shows "f64 (of_nat n) = of_nat n"
proof (cases "n = 0")
  case False
  let ?x = "of_nat n :: rat"
  have x: "0 < ?x" using False by simp
  have "?x < of_nat (2 ^ 53)" using assms by (simp only: of_nat_less_iff)
  then have "?x < 2 powi 53" by (simp add: power_int_def)
  with ilog2_bounds(1) [OF x] have "2 powi ilog2 ?x < (2::rat) powi 53" by linarith
  then have "ilog2 ?x < 53" by (rule powi_less_imp)
  then have "ulp_exp ?x \<le> 0" by (simp add: ulp_exp_def)
  from powi_multiple [OF this] obtain m where "(2::rat) powi 0 = of_int m * 2 powi ulp_exp ?x" by blast
  then have "?x = of_int (int n * m) * 2 powi ulp_exp ?x" by (simp add: mult.assoc)
  from f64_exact [OF x this] show ?thesis .
qed simp

lemma f64_numeral: "f64 1 = 1" "f64 60 = 60"
  using f64_nat [of 1] f64_nat [of 60] by simp_all

text \<open>The relative error of a normal result is at most \<open>2 ^ - 53\<close>.\<close>

lemma f64_lower:
  assumes "2 powi - 1022 \<le> x"
  shows "x * (1 - 1 / 2 ^ 53) \<le> f64 x"
proof -
  have x: "0 < x" using assms zero_less_power_int [of "2::rat" "- 1022"] by linarith
  have "2 powi - 1022 < (2::rat) powi (ilog2 x + 1)" using assms ilog2_bounds(2) [OF x] by linarith
  then have "- 1022 < ilog2 x + 1" by (rule powi_less_imp)
  then have e: "ulp_exp x = ilog2 x - 52" by (simp add: ulp_exp_def)
  let ?u = "(2::rat) powi ulp_exp x"
  have u: "0 < ?u" by simp
  have "?u = 2 powi ilog2 x / 2 ^ 52" unfolding e by (subst power_int_diff) (simp_all add: power_int_def)
  then have ux: "?u \<le> x / 2 ^ 52" using ilog2_bounds(1) [OF x] by (simp add: divide_right_mono)
  have "x / ?u - 1 / 2 \<le> of_int (round_even (x / ?u))" using round_even_near [of "x / ?u"] by linarith
  then have "(x / ?u - 1 / 2) * ?u \<le> f64 x" unfolding f64_pos [OF x] using u by (intro mult_right_mono) simp_all
  then have "x - ?u / 2 \<le> f64 x" using u by (simp add: left_diff_distrib)
  with ux show ?thesis by (simp add: right_diff_distrib)
qed

text \<open>Values with a known exponent can be computed.\<close>

lemma ilog2_unique: "2 powi k \<le> x \<Longrightarrow> x < 2 powi (k + 1) \<Longrightarrow> ilog2 x = k"
proof -
  assume k: "2 powi k \<le> x" "x < 2 powi (k + 1)"
  have x: "0 < x" using k(1) zero_less_power_int [of "2::rat" k] by linarith
  show ?thesis using ilog2_bounds [OF x] k powi_less_imp [of k "ilog2 x + 1"] powi_less_imp [of "ilog2 x" "k + 1"] by linarith
qed

lemma f64_value:
  assumes "2 powi k \<le> x" "x < 2 powi (k + 1)" "- 1022 \<le> k"
  shows "f64 x = of_int (round_even (x / 2 powi (k - 52))) * 2 powi (k - 52)"
proof -
  have x: "0 < x" using assms(1) zero_less_power_int [of "2::rat" k] by linarith
  have "ulp_exp x = k - 52" using ilog2_unique [OF assms(1,2)] assms(3) by (simp add: ulp_exp_def)
  then show ?thesis using f64_pos [OF x] by simp
qed

lemma round_even_value: "of_int n - 1 / 2 < x \<Longrightarrow> x < of_int n + 1 / 2 \<Longrightarrow> round_even x = n"
  using round_even_near [of x] by linarith

lemma f64_sixtieth: "f64 (1 / 60) = 4803839602528529 / 2 ^ 58"
proof -
  have "round_even ((1 / 60) / 2 powi (- 6 - 52)) = 4803839602528529"
    by (rule round_even_value) (simp_all add: power_int_def power_one_over)
  then show ?thesis using f64_value [of "- 6" "1 / 60"] by (simp add: power_int_def power_one_over)
qed

lemma f64_sixty: "f64 (1 / f64 (1 / 60)) = 60"
proof -
  have "round_even ((1 / f64 (1 / 60)) / 2 powi (5 - 52)) = 60 * 2 ^ 47"
    unfolding f64_sixtieth by (rule round_even_value) (simp_all add: power_int_def power_one_over)
  then show ?thesis using f64_value [of 5 "1 / f64 (1 / 60)"] unfolding f64_sixtieth by (simp add: power_int_def power_one_over)
qed

end
