(* ===== verification/Rate_Limit.thy ===== *)
theory Rate_Limit
  imports Prelude Float64 "HOL-Library.Word"
begin

text \<open>
  The limits of the login and token endpoints, \<open>server/src/rate_limit.rs\<close>: a token bucket per key, at
  most \<open>MAX_KEYS\<close> of them and one that the keys without room share. An \<open>Instant\<close> is a number of
  nanoseconds, \<open>saturating_duration_since\<close> the truncated difference. A \<open>HashMap\<close> is its entries, in an
  order nothing depends on. A request is \<open>Ok\<close>, or \<open>Err\<close> with the seconds of \<open>Retry-After\<close>. The mutex
  makes requests one after another; a poisoned one is used as it is.
\<close>

section \<open>Buckets\<close>

definition MAX_KEYS :: nat where
  "MAX_KEYS = 10000"

definition OVERFLOW :: string where
  "OVERFLOW = ''overflow''"

record bucket =
  bu_tokens :: rat
  bu_updated :: nat

record buckets =
  bs_map :: "(string \<times> bucket) list"
  bs_swept :: "nat option"

record rate_limiter =
  rl_per_minute :: "32 word"
  rl_buckets :: buckets

definition RateLimiter_new :: "32 word \<Rightarrow> rate_limiter" where
  "RateLimiter_new per_minute = \<lparr>rl_per_minute = per_minute, rl_buckets = \<lparr>bs_map = [], bs_swept = None\<rparr>\<rparr>"

text \<open>\<open>Duration::as_secs_f64\<close> and \<open>Duration::as_secs\<close> of a number of nanoseconds.\<close>

definition as_secs_f64 :: "nat \<Rightarrow> rat" where
  "as_secs_f64 d = f64 (f64 (of_nat (d div 1000000000)) + f64 (of_nat (d mod 1000000000) / 1000000000))"

definition as_secs :: "nat \<Rightarrow> nat" where
  "as_secs d = d div 1000000000"

definition refill :: "bucket \<Rightarrow> nat \<Rightarrow> rat \<Rightarrow> rat \<Rightarrow> rat" where
  "refill b now per_second capacity =
     (let elapsed = as_secs_f64 (now - bu_updated b) in
      min (f64 (bu_tokens b + f64 (elapsed * per_second))) capacity)"

definition capacity_of :: "32 word \<Rightarrow> rat" where
  "capacity_of per_minute = of_nat (unat per_minute)"

definition per_second_of :: "32 word \<Rightarrow> rat" where
  "per_second_of per_minute = f64 (capacity_of per_minute / 60)"

text \<open>Which key a request counts against, and the sweep of full buckets on the way.\<close>

definition sweep_due :: "buckets \<Rightarrow> nat \<Rightarrow> bool" where
  "sweep_due bs now = (case bs_swept bs of None \<Rightarrow> True | Some t \<Rightarrow> 1 \<le> as_secs (now - t))"

definition sweep :: "nat \<Rightarrow> rat \<Rightarrow> rat \<Rightarrow> buckets \<Rightarrow> buckets" where
  "sweep now per_second capacity bs =
     bs\<lparr>bs_map := filter (\<lambda>(_, b). refill b now per_second capacity < capacity) (bs_map bs), bs_swept := Some now\<rparr>"

definition make_room :: "string \<Rightarrow> nat \<Rightarrow> rat \<Rightarrow> rat \<Rightarrow> buckets \<Rightarrow> string \<times> buckets" where
  "make_room key now per_second capacity bs =
     (if MAX_KEYS \<le> length (bs_map bs) \<and> key \<notin> fst ` set (bs_map bs) then
        let bs = (if sweep_due bs now then sweep now per_second capacity bs else bs) in
        (if MAX_KEYS \<le> length (bs_map bs) then OVERFLOW else key, bs)
      else (key, bs))"

definition entry_or_insert :: "string \<Rightarrow> bucket \<Rightarrow> (string \<times> bucket) list \<Rightarrow> bucket \<times> (string \<times> bucket) list" where
  "entry_or_insert key b m = (case map_of m key of Some c \<Rightarrow> (c, m) | None \<Rightarrow> (b, m @ [(key, b)]))"

definition put_bucket :: "string \<Rightarrow> bucket \<Rightarrow> buckets \<Rightarrow> buckets" where
  "put_bucket key b bs = bs\<lparr>bs_map := map (\<lambda>(k, c). (k, if k = key then b else c)) (bs_map bs)\<rparr>"

definition check_at :: "32 word \<Rightarrow> string \<Rightarrow> nat \<Rightarrow> buckets \<Rightarrow> (nat + unit) \<times> buckets" where
  "check_at per_minute key now bs =
     (if per_minute = 0 then (Ok (), bs)
      else
        let capacity = capacity_of per_minute;
            per_second = per_second_of per_minute;
            (key, bs) = make_room key now per_second capacity bs;
            (b, m) = entry_or_insert key \<lparr>bu_tokens = capacity, bu_updated = now\<rparr> (bs_map bs);
            bs = bs\<lparr>bs_map := m\<rparr>;
            have = refill b now per_second capacity in
        if 1 \<le> have then (Ok (), put_bucket key \<lparr>bu_tokens = f64 (have - 1), bu_updated = now\<rparr> bs)
        else
          let wait = \<lceil>f64 (f64 (1 - have) / per_second)\<rceil> in
          (Err (max (nat wait) 1), put_bucket key \<lparr>bu_tokens = have, bu_updated = now\<rparr> bs))"

definition RateLimiter_check :: "string \<Rightarrow> nat \<Rightarrow> rate_limiter \<Rightarrow> (nat + unit) \<times> rate_limiter" where
  "RateLimiter_check key now l =
     (let (r, bs) = check_at (rl_per_minute l) key now (rl_buckets l) in (r, l\<lparr>rl_buckets := bs\<rparr>))"

text \<open>Limiters that requests, at any times and with any keys, can lead to.\<close>

inductive limiter_reached :: "32 word \<Rightarrow> rate_limiter \<Rightarrow> bool" for pm where
  created: "limiter_reached pm (RateLimiter_new pm)"
| checked: "limiter_reached pm l \<Longrightarrow> limiter_reached pm (snd (RateLimiter_check key now l))"

section \<open>Arithmetic of a limit\<close>

lemma capacity_bounds:
  assumes "pm \<noteq> 0"
  shows "1 \<le> capacity_of pm" "f64 (capacity_of pm) = capacity_of pm" "capacity_of pm \<le> 2 ^ 32"
proof -
  have "0 < unat pm" using assms by (simp add: unat_gt_0)
  then have "of_nat 1 \<le> (of_nat (unat pm) :: rat)" by (simp only: of_nat_le_iff)
  then show "1 \<le> capacity_of pm" unfolding capacity_of_def by (simp only: of_nat_1)
  have u: "unat pm < 2 ^ 32" using unsigned_less [of pm, where 'a = nat] by simp
  then show "f64 (capacity_of pm) = capacity_of pm" unfolding capacity_of_def by (intro f64_nat) simp
  from u have "of_nat (unat pm) \<le> (of_nat (2 ^ 32) :: rat)" by (simp only: of_nat_le_iff less_imp_le)
  then show "capacity_of pm \<le> 2 ^ 32" by (simp add: capacity_of_def)
qed

lemma per_second_bounds:
  assumes "pm \<noteq> 0"
  shows "f64 (1 / 60) \<le> per_second_of pm" "1 / 64 \<le> per_second_of pm" "per_second_of pm \<le> 2 ^ 32"
proof -
  note c = capacity_bounds [OF assms]
  show a: "f64 (1 / 60) \<le> per_second_of pm" unfolding per_second_of_def using c(1) by (intro f64_mono) simp_all
  have "(1 :: rat) / 64 \<le> f64 (1 / 60)" by (simp add: f64_sixtieth)
  with a show "1 / 64 \<le> per_second_of pm" by linarith
  have "per_second_of pm \<le> f64 (capacity_of pm)" unfolding per_second_of_def using c(1) by (intro f64_mono) simp_all
  with c show "per_second_of pm \<le> 2 ^ 32" by simp
qed

lemma as_secs_f64_nonneg: "0 \<le> as_secs_f64 d"
  unfolding as_secs_f64_def by (intro f64_nonneg add_nonneg_nonneg) simp_all

lemma as_secs_f64_ge:
  assumes "n * 1000000000 \<le> d" "n < 2 ^ 53"
  shows "of_nat n \<le> as_secs_f64 d"
proof -
  have n: "n \<le> d div 1000000000" using assms(1) by (simp add: less_eq_div_iff_mult_less_eq)
  have "f64 (of_nat n) \<le> f64 (of_nat (d div 1000000000))" using n by (intro f64_mono) simp_all
  moreover have "0 \<le> f64 (of_nat (d mod 1000000000) / 1000000000)" by (intro f64_nonneg) simp
  ultimately have "of_nat n \<le> f64 (of_nat (d div 1000000000)) + f64 (of_nat (d mod 1000000000) / 1000000000)"
    using assms(2) by simp
  from f64_mono [OF _ this] show ?thesis using assms(2) by (simp add: as_secs_f64_def)
qed

lemma refill_bounds:
  assumes "pm \<noteq> 0" "0 \<le> bu_tokens b"
  shows "0 \<le> refill b now (per_second_of pm) (capacity_of pm)" "refill b now (per_second_of pm) (capacity_of pm) \<le> capacity_of pm"
proof -
  have "0 \<le> as_secs_f64 (now - bu_updated b) * per_second_of pm"
    using as_secs_f64_nonneg per_second_bounds(2) [OF assms(1)] by (intro mult_nonneg_nonneg) simp_all
  then have "0 \<le> f64 (bu_tokens b + f64 (as_secs_f64 (now - bu_updated b) * per_second_of pm))"
    using assms(2) by (intro f64_nonneg add_nonneg_nonneg) simp_all
  then show "0 \<le> refill b now (per_second_of pm) (capacity_of pm)"
    "refill b now (per_second_of pm) (capacity_of pm) \<le> capacity_of pm"
    using capacity_bounds(1) [OF assms(1)] by (simp_all add: refill_def Let_def)
qed

lemma spent_bounds:
  assumes "pm \<noteq> 0" "1 \<le> t" "t \<le> capacity_of pm"
  shows "0 \<le> f64 (t - 1)" "f64 (t - 1) \<le> capacity_of pm"
proof -
  show "0 \<le> f64 (t - 1)" using assms(2) by (intro f64_nonneg) simp
  have "f64 (t - 1) \<le> f64 (capacity_of pm)" using assms(2,3) by (intro f64_mono) simp_all
  then show "f64 (t - 1) \<le> capacity_of pm" using capacity_bounds(2) [OF assms(1)] by simp
qed

text \<open>The announced wait: from one second to a minute.\<close>

definition wait_secs :: "32 word \<Rightarrow> rat \<Rightarrow> nat" where
  "wait_secs pm t = max (nat \<lceil>f64 (f64 (1 - t) / per_second_of pm)\<rceil>) 1"

lemma wait_bounds:
  assumes "pm \<noteq> 0" "0 \<le> t" "t < 1"
  shows "1 \<le> wait_secs pm t" "wait_secs pm t \<le> 60"
proof -
  have u: "0 \<le> f64 (1 - t)" "f64 (1 - t) \<le> 1"
    using assms(2,3) f64_nonneg [of "1 - t"] f64_mono [of "1 - t" 1] by (simp_all add: f64_numeral)
  have p: "0 < f64 (1 / 60)" by (simp add: f64_sixtieth)
  have ps: "f64 (1 / 60) \<le> per_second_of pm" using per_second_bounds(1) [OF assms(1)] .
  have "f64 (1 - t) / per_second_of pm \<le> 1 / f64 (1 / 60)" using u ps p by (intro frac_le) simp_all
  moreover have "0 \<le> f64 (1 - t) / per_second_of pm" using u ps p by simp
  ultimately have "f64 (f64 (1 - t) / per_second_of pm) \<le> 60" using f64_mono f64_sixty by metis
  then have "\<lceil>f64 (f64 (1 - t) / per_second_of pm)\<rceil> \<le> 60" by (simp add: ceiling_le_iff)
  then show "1 \<le> wait_secs pm t" "wait_secs pm t \<le> 60" by (simp_all add: wait_secs_def nat_le_iff)
qed

text \<open>One second more than the announced wait refills the bucket, whatever the rounding did.\<close>

lemma waited_enough:
  assumes "pm \<noteq> 0" "0 \<le> t" "t < 1"
  shows "1 - t \<le> (of_nat (wait_secs pm t) + 1) * per_second_of pm * (1 - 1 / 2 ^ 53)"
proof -
  define u ps w where "u = 1 - t" and "ps = per_second_of pm" and "w = (of_nat (wait_secs pm t) :: rat)"
  have u: "0 < u" "u \<le> 1" using assms(2,3) by (simp_all add: u_def)
  have ps: "1 / 64 \<le> ps" "ps \<le> 2 ^ 32" using per_second_bounds [OF assms(1)] by (simp_all add: ps_def)
  have w1: "1 \<le> w" using wait_bounds(1) [OF assms] by (simp add: w_def)
  have d: "0 < (1 - 1 / 2 ^ 53 :: rat)" by simp
  have "u \<le> (w + 1) * ps * (1 - 1 / 2 ^ 53)"
  proof (cases "u < 1 / 64")
    case True
    have "2 * (1 / 64) \<le> (w + 1) * ps" using w1 ps(1) by (intro mult_mono) simp_all
    then have "2 * (1 / 64) * (1 - 1 / 2 ^ 53) \<le> (w + 1) * ps * (1 - 1 / 2 ^ 53)" using d by (intro mult_right_mono) simp_all
    moreover have "(1 / 64 :: rat) \<le> 2 * (1 / 64) * (1 - 1 / 2 ^ 53)" by simp
    ultimately show ?thesis using True by linarith
  next
    case False
    have tiny: "(2::rat) powi - 1022 \<le> 2 powi - 40" by (rule powi_le) simp
    have q: "(2::rat) powi - 40 = 1 / 2 ^ 40" by (simp add: power_int_def power_one_over)
    have "(1 :: rat) / 2 ^ 40 \<le> 1 / 64" by simp
    then have f1: "u * (1 - 1 / 2 ^ 53) \<le> f64 u" using False tiny q by (intro f64_lower) linarith
    have "1 / 2 ^ 7 \<le> f64 u"
    proof -
      have "(1 :: rat) / 2 ^ 7 \<le> 1 / 64 * (1 - 1 / 2 ^ 53)" by simp
      also have "\<dots> \<le> u * (1 - 1 / 2 ^ 53)" using False d by (intro mult_right_mono) simp_all
      finally show ?thesis using f1 by linarith
    qed
    then have f2: "(1 / 2 ^ 7) / 2 ^ 32 \<le> f64 u / ps" using ps by (intro frac_le) simp_all
    have "(2::rat) powi - 40 \<le> (1 / 2 ^ 7) / 2 ^ 32" unfolding q by simp
    with tiny f2 have "2 powi - 1022 \<le> f64 u / ps" by linarith
    then have "f64 u / ps * (1 - 1 / 2 ^ 53) \<le> f64 (f64 u / ps)" by (rule f64_lower)
    also have "\<dots> \<le> w" by (simp add: w_def wait_secs_def u_def ps_def) linarith
    finally have "f64 u / ps * (1 - 1 / 2 ^ 53) * ps \<le> w * ps" using ps(1) by (intro mult_right_mono) simp_all
    then have "f64 u * (1 - 1 / 2 ^ 53) \<le> w * ps" using ps(1) by simp
    moreover have "u * (1 - 1 / 2 ^ 53) * (1 - 1 / 2 ^ 53) \<le> f64 u * (1 - 1 / 2 ^ 53)" using f1 d by (intro mult_right_mono) simp_all
    ultimately have "u * (1 - 1 / 2 ^ 53) * (1 - 1 / 2 ^ 53) + 1 / 64 \<le> (w + 1) * ps" using ps(1) by (simp add: distrib_right)
    then have "(u * (1 - 1 / 2 ^ 53) * (1 - 1 / 2 ^ 53) + 1 / 64) * (1 - 1 / 2 ^ 53) \<le> (w + 1) * ps * (1 - 1 / 2 ^ 53)"
      using d by (intro mult_right_mono) simp_all
    moreover have "u \<le> (u * (1 - 1 / 2 ^ 53) * (1 - 1 / 2 ^ 53) + 1 / 64) * (1 - 1 / 2 ^ 53)" using u by simp
    ultimately show ?thesis by linarith
  qed
  then show ?thesis by (simp add: u_def ps_def w_def)
qed

section \<open>The buckets\<close>

definition locate :: "32 word \<Rightarrow> string \<Rightarrow> nat \<Rightarrow> buckets \<Rightarrow> string \<times> bucket \<times> buckets" where
  "locate pm key now bs =
     (let (k, bs1) = make_room key now (per_second_of pm) (capacity_of pm) bs;
          (b, m) = entry_or_insert k \<lparr>bu_tokens = capacity_of pm, bu_updated = now\<rparr> (bs_map bs1) in
      (k, b, bs1\<lparr>bs_map := m\<rparr>))"

lemma check_at_locate:
  assumes "pm \<noteq> 0" "locate pm key now bs = (k, b, bs2)" "t = refill b now (per_second_of pm) (capacity_of pm)"
  shows "check_at pm key now bs =
    (if 1 \<le> t then (Ok (), put_bucket k \<lparr>bu_tokens = f64 (t - 1), bu_updated = now\<rparr> bs2)
     else (Err (wait_secs pm t), put_bucket k \<lparr>bu_tokens = t, bu_updated = now\<rparr> bs2))"
  using assms by (auto simp: check_at_def locate_def wait_secs_def Let_def split: prod.splits)

definition bucket_ok :: "32 word \<Rightarrow> bucket \<Rightarrow> bool" where
  "bucket_ok pm b \<longleftrightarrow> 0 \<le> bu_tokens b \<and> bu_tokens b \<le> capacity_of pm"

definition limiter_ok :: "32 word \<Rightarrow> buckets \<Rightarrow> bool" where
  "limiter_ok pm bs \<longleftrightarrow> distinct (map fst (bs_map bs)) \<and> length (bs_map bs) \<le> MAX_KEYS + 1 \<and>
     (length (bs_map bs) = MAX_KEYS + 1 \<longrightarrow> OVERFLOW \<in> fst ` set (bs_map bs)) \<and> (\<forall>b \<in> snd ` set (bs_map bs). bucket_ok pm b)"

lemma make_room_ok:
  assumes "limiter_ok pm bs" "make_room key now ps cap bs = (k, bs1)"
  shows "limiter_ok pm bs1" "k \<notin> fst ` set (bs_map bs1) \<Longrightarrow>
    length (bs_map bs1) < MAX_KEYS \<or> k = OVERFLOW \<and> length (bs_map bs1) = MAX_KEYS"
proof -
  have sw: "limiter_ok pm (sweep now ps cap bs)"
  proof -
    let ?m = "filter (\<lambda>(_, b). refill b now ps cap < cap) (bs_map bs)"
    have len: "length ?m \<le> length (bs_map bs)" by (rule length_filter_le)
    have same: "?m = bs_map bs" if "length ?m = length (bs_map bs)"
      using that by (metis filter_id_conv length_filter_less order_less_irrefl)
    have sub: "set ?m \<subseteq> set (bs_map bs)" by auto
    note ok = assms(1) [unfolded limiter_ok_def]
    then have most: "length (bs_map bs) \<le> MAX_KEYS + 1" by blast
    have "OVERFLOW \<in> fst ` set ?m" if full: "length ?m = MAX_KEYS + 1"
    proof -
      have "length ?m = length (bs_map bs)" using full len most by linarith
      with same full ok show ?thesis by simp
    qed
    moreover have "length ?m \<le> MAX_KEYS + 1" using len most by linarith
    moreover have "\<forall>b \<in> snd ` set ?m. bucket_ok pm b" using sub ok by blast
    ultimately show ?thesis using ok by (simp add: limiter_ok_def sweep_def distinct_map_filter)
  qed
  show ok: "limiter_ok pm bs1" using assms sw by (auto simp: make_room_def Let_def split: if_splits)
  show "length (bs_map bs1) < MAX_KEYS \<or> k = OVERFLOW \<and> length (bs_map bs1) = MAX_KEYS" if "k \<notin> fst ` set (bs_map bs1)"
  proof (cases "MAX_KEYS \<le> length (bs_map bs1)")
    case True
    with assms(2) that have "k = OVERFLOW" by (auto simp: make_room_def Let_def split: if_splits)
    with ok that True show ?thesis by (auto simp: limiter_ok_def)
  qed simp
qed

lemma locate_ok:
  assumes "pm \<noteq> 0" "limiter_ok pm bs" "locate pm key now bs = (k, b, bs2)"
  shows "limiter_ok pm bs2" "bucket_ok pm b" "map_of (bs_map bs2) k = Some b"
proof -
  obtain bs1 where m: "make_room key now (per_second_of pm) (capacity_of pm) bs = (k, bs1)"
    using assms(3) by (auto simp: locate_def Let_def split: prod.splits)
  note ok = make_room_ok [OF assms(2) m]
  have new: "bucket_ok pm \<lparr>bu_tokens = capacity_of pm, bu_updated = now\<rparr>"
    using capacity_bounds(1) [OF assms(1)] by (simp add: bucket_ok_def)
  have "limiter_ok pm bs2 \<and> bucket_ok pm b \<and> map_of (bs_map bs2) k = Some b"
  proof (cases "map_of (bs_map bs1) k")
    case None
    then have n: "k \<notin> fst ` set (bs_map bs1)" by (simp add: map_of_eq_None_iff)
    from assms(3) None m have b: "b = \<lparr>bu_tokens = capacity_of pm, bu_updated = now\<rparr>" "bs2 = bs1\<lparr>bs_map := bs_map bs1 @ [(k, b)]\<rparr>"
      by (auto simp: locate_def entry_or_insert_def)
    show ?thesis using ok(1) ok(2) [OF n] n None new by (auto simp: b limiter_ok_def map_add_def)
  next
    case (Some c)
    with assms(3) m have b: "b = c" "bs2 = bs1" by (auto simp: locate_def entry_or_insert_def)
    have "c \<in> snd ` set (bs_map bs1)" using map_of_SomeD [OF Some] by force
    with ok(1) b Some show ?thesis by (auto simp: limiter_ok_def)
  qed
  then show "limiter_ok pm bs2" "bucket_ok pm b" "map_of (bs_map bs2) k = Some b" by blast+
qed

lemma put_bucket_keys: "map fst (bs_map (put_bucket k b bs)) = map fst (bs_map bs)"
  by (simp add: put_bucket_def comp_def split_def)

lemma put_bucket_ok:
  assumes "limiter_ok pm bs" "bucket_ok pm b"
  shows "limiter_ok pm (put_bucket k b bs)"
proof -
  have keys: "fst ` set (bs_map (put_bucket k b bs)) = fst ` set (bs_map bs)"
    using arg_cong [OF put_bucket_keys [of k b bs], of set] by simp
  have len: "length (bs_map (put_bucket k b bs)) = length (bs_map bs)" by (simp add: put_bucket_def)
  have "\<forall>c \<in> snd ` set (bs_map (put_bucket k b bs)). bucket_ok pm c"
    using assms by (auto simp: limiter_ok_def put_bucket_def)
  with assms(1) show ?thesis by (simp add: limiter_ok_def keys len put_bucket_keys)
qed

lemma check_at_ok:
  assumes "limiter_ok pm bs" "check_at pm key now bs = (r, bs')"
  shows "limiter_ok pm bs'" "r = Err s \<Longrightarrow> 1 \<le> s \<and> s \<le> 60"
proof -
  have "limiter_ok pm bs' \<and> (\<forall>s. r = Err s \<longrightarrow> 1 \<le> s \<and> s \<le> 60)"
  proof (cases "pm = 0")
    case True
    with assms show ?thesis by (auto simp: check_at_def)
  next
    case False
    obtain k b bs2 where l: "locate pm key now bs = (k, b, bs2)" by (cases "locate pm key now bs")
    note lo = locate_ok [OF False assms(1) l]
    define t where "t = refill b now (per_second_of pm) (capacity_of pm)"
    have t: "0 \<le> t" "t \<le> capacity_of pm" using refill_bounds [OF False] lo(2) by (simp_all add: t_def bucket_ok_def)
    have s: "1 \<le> t \<Longrightarrow> bucket_ok pm \<lparr>bu_tokens = f64 (t - 1), bu_updated = now\<rparr>" "bucket_ok pm \<lparr>bu_tokens = t, bu_updated = now\<rparr>"
      using spent_bounds [OF False _ t(2)] t by (simp_all add: bucket_ok_def)
    from assms(2) check_at_locate [OF False l t_def] s wait_bounds [OF False t(1)] put_bucket_ok [OF lo(1)]
    show ?thesis by (auto split: if_splits)
  qed
  then show "limiter_ok pm bs'" "r = Err s \<Longrightarrow> 1 \<le> s \<and> s \<le> 60" by blast+
qed

lemma reached_ok: "limiter_reached pm l \<Longrightarrow> rl_per_minute l = pm \<and> limiter_ok pm (rl_buckets l)"
proof (induction rule: limiter_reached.induct)
  case created
  show ?case by (simp add: RateLimiter_new_def limiter_ok_def)
next
  case (checked l key now)
  then show ?case using check_at_ok(1) [of pm "rl_buckets l" key now]
    by (auto simp: RateLimiter_check_def Let_def split: prod.splits)
qed

section \<open>Waiting helps\<close>

lemma make_room_found:
  assumes "distinct (map fst (bs_map bs))" "make_room key now ps cap bs = (k, bs1)"
  shows "k = key \<or> k = OVERFLOW \<and> key \<notin> fst ` set (bs_map bs)" "set (bs_map bs1) \<subseteq> set (bs_map bs)"
    "map_of (bs_map bs1) k = Some b \<Longrightarrow> map_of (bs_map bs) k = Some b"
proof -
  show "k = key \<or> k = OVERFLOW \<and> key \<notin> fst ` set (bs_map bs)"
    using assms(2) by (auto simp: make_room_def Let_def split: if_splits)
  show sub: "set (bs_map bs1) \<subseteq> set (bs_map bs)"
    using assms(2) by (auto simp: make_room_def sweep_def Let_def split: if_splits)
  show "map_of (bs_map bs) k = Some b" if "map_of (bs_map bs1) k = Some b"
    using map_of_SomeD [OF that] sub assms(1) by (auto simp: map_of_is_SomeI)
qed

lemma locate_found:
  assumes "limiter_ok pm bs" "locate pm key now bs = (k, b, bs2)"
  shows "k = key \<or> k = OVERFLOW \<and> key \<notin> fst ` set (bs_map bs)"
    "b = \<lparr>bu_tokens = capacity_of pm, bu_updated = now\<rparr> \<or> map_of (bs_map bs) k = Some b"
    "fst ` set (bs_map bs2) \<subseteq> insert k (fst ` set (bs_map bs))"
proof -
  obtain bs1 where m: "make_room key now (per_second_of pm) (capacity_of pm) bs = (k, bs1)"
    using assms(2) by (auto simp: locate_def Let_def split: prod.splits)
  have d: "distinct (map fst (bs_map bs))" using assms(1) by (simp add: limiter_ok_def)
  note f = make_room_found [OF d m]
  from f(1) show "k = key \<or> k = OVERFLOW \<and> key \<notin> fst ` set (bs_map bs)" .
  from assms(2) m f(3) show "b = \<lparr>bu_tokens = capacity_of pm, bu_updated = now\<rparr> \<or> map_of (bs_map bs) k = Some b"
    by (auto simp: locate_def entry_or_insert_def split: option.splits)
  from assms(2) m f(2) show "fst ` set (bs_map bs2) \<subseteq> insert k (fst ` set (bs_map bs))"
    by (auto simp: locate_def entry_or_insert_def split: option.splits)
qed

lemma put_bucket_get:
  "map_of (bs_map bs) k = Some c \<Longrightarrow> map_of (bs_map (put_bucket k b bs)) l = (if l = k then Some b else map_of (bs_map bs) l)"
proof -
  have "map_of (map (\<lambda>(j, c). (j, if j = k then b else c)) m) l =
      (if l = k \<and> map_of m k \<noteq> None then Some b else map_of m l)" for m
    by (induction m) auto
  then show "map_of (bs_map bs) k = Some c \<Longrightarrow> ?thesis" by (simp add: put_bucket_def)
qed

lemma fresh_refill: "pm \<noteq> 0 \<Longrightarrow> refill \<lparr>bu_tokens = capacity_of pm, bu_updated = now\<rparr> now (per_second_of pm) (capacity_of pm) = capacity_of pm"
  using capacity_bounds(2) [of pm] by (simp add: refill_def as_secs_f64_def)

lemma waited_refill:
  assumes "pm \<noteq> 0" "0 \<le> t" "t < 1" "now + (wait_secs pm t + 1) * 1000000000 \<le> later"
  shows "1 \<le> refill \<lparr>bu_tokens = t, bu_updated = now\<rparr> later (per_second_of pm) (capacity_of pm)"
proof -
  let ?s = "wait_secs pm t + 1" and ?ps = "per_second_of pm" and ?E = "as_secs_f64 (later - now)"
  have ps: "1 / 64 \<le> ?ps" using per_second_bounds(2) [OF assms(1)] .
  have "?s < 2 ^ 53" using wait_bounds(2) [OF assms(1-3)] by simp
  then have E: "of_nat ?s \<le> ?E" using assms(4) by (intro as_secs_f64_ge) simp_all
  have "of_nat ?s * ?ps \<le> ?E * ?ps" using E ps by (intro mult_right_mono) simp_all
  then have "f64 (of_nat ?s * ?ps) \<le> f64 (?E * ?ps)" using ps by (intro f64_mono) simp_all
  moreover have "of_nat ?s * ?ps * (1 - 1 / 2 ^ 53) \<le> f64 (of_nat ?s * ?ps)"
  proof (rule f64_lower)
    have "(2::rat) powi - 1022 \<le> 2 powi - 6" by (rule powi_le) simp
    also have "\<dots> = 1 / 64" by (simp add: power_int_def power_one_over)
    also have "\<dots> \<le> 1 * ?ps" using ps by simp
    also have "\<dots> \<le> of_nat ?s * ?ps" using ps by (intro mult_right_mono) simp_all
    finally show "(2::rat) powi - 1022 \<le> of_nat ?s * ?ps" .
  qed
  moreover have "1 - t \<le> of_nat ?s * ?ps * (1 - 1 / 2 ^ 53)" using waited_enough [OF assms(1-3)] by (simp add: add.commute)
  ultimately have "1 \<le> t + f64 (?E * ?ps)" by linarith
  then have "f64 1 \<le> f64 (t + f64 (?E * ?ps))" by (intro f64_mono) simp_all
  then show ?thesis using capacity_bounds(1) [OF assms(1)] by (simp add: refill_def f64_numeral)
qed

lemma retry_admitted:
  assumes "limiter_ok pm bs" "check_at pm key now bs = (Err s, bs')" "now + (s + 1) * 1000000000 \<le> later"
  shows "fst (check_at pm key later bs') = Ok ()"
proof -
  have pm: "pm \<noteq> 0" using assms(2) by (auto simp: check_at_def)
  obtain k b bs2 where l: "locate pm key now bs = (k, b, bs2)" by (cases "locate pm key now bs")
  note lo = locate_ok [OF pm assms(1) l] and fo = locate_found [OF assms(1) l]
  define t where "t = refill b now (per_second_of pm) (capacity_of pm)"
  let ?b = "\<lparr>bu_tokens = t, bu_updated = now\<rparr>"
  have t: "0 \<le> t" using refill_bounds(1) [OF pm] lo(2) by (simp add: t_def bucket_ok_def)
  from assms(2) check_at_locate [OF pm l t_def] have r: "t < 1" "s = wait_secs pm t" "bs' = put_bucket k ?b bs2"
    by (auto split: if_splits)
  have ok': "limiter_ok pm bs'" using check_at_ok(1) [OF assms(1,2)] .
  have k': "map_of (bs_map bs') k = Some ?b" using put_bucket_get [OF lo(3)] r(3) by simp
  have keys: "fst ` set (bs_map bs') \<subseteq> insert k (fst ` set (bs_map bs))"
    using fo(3) arg_cong [OF put_bucket_keys [of k ?b bs2], of set] r(3) by simp
  obtain j c bs3 where l': "locate pm key later bs' = (j, c, bs3)" by (cases "locate pm key later bs'")
  note fo' = locate_found [OF ok' l']
  have "c = \<lparr>bu_tokens = capacity_of pm, bu_updated = later\<rparr> \<or> c = ?b"
  proof (cases "map_of (bs_map bs') j = Some c")
    case True
    have kin: "k \<in> fst ` set (bs_map bs')" using map_of_SomeD [OF k'] by force
    have jin: "j \<in> fst ` set (bs_map bs')" using map_of_SomeD [OF True] by force
    have "j = k" using fo(1) fo'(1) keys kin jin by blast
    with True k' show ?thesis by simp
  qed (use fo'(2) in blast)
  then have "1 \<le> refill c later (per_second_of pm) (capacity_of pm)"
    using fresh_refill [OF pm] capacity_bounds(1) [OF pm] waited_refill [OF pm t r(1)] assms(3) r(2) by auto
  then show ?thesis using check_at_locate [OF pm l' refl] by simp
qed

section \<open>Properties\<close>

text \<open>
  C16: whatever keys requests carry and whenever they come, the limiter keeps at most \<open>MAX_KEYS + 1\<close>
  buckets, one per key, no bucket holds less than nothing or more than a minute's allowance, and a
  refused client is told to wait at least one second and at most a minute. This holds of the rounded
  \<open>f64\<close> arithmetic, so the cast of the wait to \<open>u64\<close> cannot truncate.
\<close>

theorem limiter_bounds:
  assumes "limiter_reached pm l"
  shows "length (bs_map (rl_buckets l)) \<le> 10001 \<and> distinct (map fst (bs_map (rl_buckets l))) \<and>
    (\<forall>k b. (k, b) \<in> set (bs_map (rl_buckets l)) \<longrightarrow> 0 \<le> bu_tokens b \<and> bu_tokens b \<le> of_nat (unat pm)) \<and>
    (\<forall>key now s l'. RateLimiter_check key now l = (Err s, l') \<longrightarrow> 1 \<le> s \<and> s \<le> 60)"
proof -
  from reached_ok [OF assms] have r: "rl_per_minute l = pm" "limiter_ok pm (rl_buckets l)" by simp_all
  have "1 \<le> s \<and> s \<le> 60" if "RateLimiter_check key now l = (Err s, l')" for key now s l'
    using that r check_at_ok(2) [OF r(2), of key now "Err s" _ s] by (auto simp: RateLimiter_check_def Let_def split: prod.splits)
  with r(2) show ?thesis by (auto simp: limiter_ok_def bucket_ok_def capacity_of_def MAX_KEYS_def)
qed

theorem limiter_bounds_witness:
  "length (bs_map (rl_buckets (snd (RateLimiter_check ''k'' 5 (RateLimiter_new 1))))) \<le> 10001"
  using limiter_bounds [OF limiter_reached.checked [OF limiter_reached.created, of 1 "''k''" 5]] by blast


lemma sample_limited:
  "RateLimiter_check ''k'' 0 (snd (RateLimiter_check ''k'' 0 (RateLimiter_new 1))) =
     (Err 60, \<lparr>rl_per_minute = 1, rl_buckets = \<lparr>bs_map = [(''k'', \<lparr>bu_tokens = 0, bu_updated = 0\<rparr>)], bs_swept = None\<rparr>\<rparr>)"
proof -
  have z: "as_secs_f64 0 = 0" by (simp add: as_secs_f64_def)
  show ?thesis
    by (simp add: RateLimiter_check_def check_at_def RateLimiter_new_def make_room_def MAX_KEYS_def entry_or_insert_def
        refill_def z capacity_of_def per_second_of_def put_bucket_def f64_numeral f64_sixty)
qed


end
