(* ===== verification/Spec2Isabelle.thy ===== *)
theory Spec2Isabelle
  imports Btree Ids Canonical Criteria Placeholder Catalog Redact Sets Graph_Correct Workload_Valid Overrides_Correct
    Identity_Correct Rate_Limit
begin

text \<open>
  \<^bold>\<open>A verification development of openporch.\<close>

  openporch is a self-hosted platform orchestrator. A developer describes a workload; the server
  turns it into a deployment set, works out which resources the set needs and by which definitions
  they are provisioned, and has drivers provision them in order. The crates under \<open>src/crates\<close> are
  \<open>core\<close> (the domain logic, without I/O), \<open>store\<close> (persistence in SQLite), \<open>engine\<close> (planner and
  executor), \<open>drivers\<close>, \<open>server\<close> (the HTTP API), \<open>client\<close> and \<open>cli\<close>. This development models all of
  \<open>core\<close>, the members, credentials and roles of \<open>store\<close>, and the permissions and rate limits of
  \<open>server\<close>.

  \<^bold>\<open>Conventions.\<close> A Rust struct is a record whose fields carry a prefix, an enum a datatype. Strings
  are their UTF-8 bytes. \<open>Result\<close> is a sum with \<open>Err\<close> and \<open>Ok\<close> (theory \<open>Prelude\<close>), so that every early
  return is a branch; \<open>?\<close> is \<open>rbind\<close>, a loop that may return early \<open>try_map\<close> or \<open>try_fold\<close>. A panic is a
  value of its own (\<open>Panics\<close>, \<open>Panicked\<close>), and theorems say where it cannot come up. \<open>BTreeMap\<close> and
  \<open>BTreeSet\<close> are sorted lists (theory \<open>Btree\<close>, with the locale \<open>ordered_map\<close> for what their users rely on),
  an \<open>IndexMap\<close> is an association list in insertion order. JSON values are the datatype \<open>json\<close> (theory
  \<open>Json\<close>), paths into them are theory \<open>Json_Pointer\<close>; string functions of the standard library are
  theory \<open>Rust_Str\<close>, \<open>f64\<close> arithmetic theory \<open>Float64\<close>. Code of other packages is an argument of the
  definitions that call it: YAML parsing, serde decoding, \<open>json_patch\<close>, the SHA-256 digest and the text
  of a JSON number; what is assumed of one is a hypothesis of the theorem that needs it, and its witness
  has an instance.

  \<^bold>\<open>The parts.\<close>

  \<^item> \<open>Ids\<close> (\<open>core/src/ids.rs\<close>): object IDs, resource descriptors, resource IDs and GUResIDs with
    their parsers and printers. The ID check is the published pattern, printing and parsing are
    inverse, derived resource IDs never collide.
  \<^item> \<open>Canonical\<close> (\<open>core/src/canonical.rs\<close>): RFC 8785 text. Two documents have the same text exactly
    when they have the same content.
  \<^item> \<open>Model\<close> (\<open>core/src/model.rs\<close>): the domain objects the other parts share.
  \<^item> \<open>Criteria\<close> (\<open>core/src/criteria.rs\<close>): matching definitions. Weights order criteria by how specific
    they are; the selection loop returns the unique heaviest definition or reports the exact tie,
    whatever the order of the definitions.
  \<^item> \<open>Template\<close>, \<open>Template_Correct\<close>, \<open>Placeholder\<close> (\<open>core/src/placeholder.rs\<close>): parsing placeholders,
    interpreting them and resolving values. No secret reaches a plain sink, a resolved value refers to
    exactly the secrets it looked up, and resolution fails only for the listed reasons.
  \<^item> \<open>Catalog\<close> (\<open>core/src/catalog.rs\<close>): resource types, their output schemas and the check of driver
    outputs. Accepted outputs never carry a secret in a plain value.
  \<^item> \<open>Redact\<close> (\<open>core/src/redact.rs\<close>): removing known secrets from text; what comes out contains none of
    them in any of the escaped forms.
  \<^item> \<open>Sets\<close> (\<open>core/src/sets.rs\<close>): deployment sets, deltas, diffs and content IDs. Applying the diff of two
    sets to the first gives the second.
  \<^item> \<open>Toposort\<close>, \<open>Graph\<close>, \<open>Graph_Inv\<close>, \<open>Graph_Correct\<close> (\<open>core/src/graph.rs\<close>): the resource graph. Its
    construction always ends and never panics, the graph has all the resources and edges that are
    called for, and its layers respect every dependency, or a real cycle is reported.
  \<^item> \<open>Workload_Doc\<close>, \<open>Workload\<close>, \<open>Workload_Correct\<close>, \<open>Workload_Valid\<close> (\<open>core/src/workload.rs\<close>): workload
    documents, their validation and the conversion to a module of a set. Secrets are used only where
    they are allowed, literal content survives, and translated references mean what they meant.
  \<^item> \<open>Overrides\<close>, \<open>Overrides_Correct\<close> (\<open>core/src/workload/overrides.rs\<close>): values supplied at deploy time.
  \<^item> \<open>Roles\<close> (\<open>server/src/rbac.rs\<close>, roles of \<open>store/src/identity.rs\<close>): who may do what.
  \<^item> \<open>Identity\<close>, \<open>Identity_Inv\<close>, \<open>Identity_Correct\<close> (\<open>store/src/identity.rs\<close>, \<open>sqlite_identity.rs\<close>,
    \<open>audit.rs\<close>, \<open>migrations/0001_initial.sql\<close>): the identity store as a state machine. A state is a
    record of tables; every operation is one transaction, with its SQL statements and the constraints
    and cascades of the schema written out. The locale \<open>identity_invariant\<close> lists what a property must
    survive, statement by statement; it is interpreted for the consistency of the tables, for keeping
    an administrator and for credentials that stay revoked. The checks inside transactions agree with
    the permissions of the routes, and nobody can hand out more than they hold.
  \<^item> \<open>Rate_Limit\<close> (\<open>server/src/rate_limit.rs\<close>): token buckets in \<open>f64\<close> arithmetic, with rounding. Memory
    and waits are bounded, and a client that waits is admitted.

  \<^bold>\<open>How the parts meet.\<close> The graph selects definitions with \<open>Criteria\<close>, reads their placeholders with
  \<open>Placeholder\<close> and compares inputs by their \<open>Canonical\<close> text; it takes its modules from \<open>Sets\<close>. A workload is
  converted to such a module, with references checked against \<open>Catalog\<close> and written so that
  \<open>Template\<close> reads them back. \<open>Identity\<close> guards its transactions with the roles \<open>Roles\<close> evaluates.

  \<^bold>\<open>Loops and bounds.\<close> Loops over a shrinking input are total functions with a measure. The fixpoints of
  the graph are partial functions with value \<open>None\<close> if they do not return, and it is proved that they
  return: each round adds descriptors from a finite set. The redactor's number of passes is the
  constant \<open>PASSES\<close> of the code, with the marker as the result when it is used up. Integers are unbounded
  where the code cannot reach their limits (lengths, times in milliseconds); the limit of requests per
  minute is a 32 bit word. Rounding to \<open>f64\<close> leaves out overflow to infinity: the largest intermediate
  value is below \<open>2 ^ 100\<close>.

  \<^bold>\<open>Not modelled.\<close> The rest of \<open>store\<close> (deployments, resources, permits, secrets, accounts, catalog and
  values: SQL over some thirty more tables), the planner and executor of \<open>engine\<close> and the \<open>drivers\<close>
  (concurrent processes, timeouts, cloud APIs, OpenTofu runs), the HTTP handlers, login flows,
  configuration and startup of \<open>server\<close>, \<open>client\<close>, \<open>cli\<close> and the OpenTofu provider, which move data
  between an API and a terminal. Within the modelled parts: derived JSON Schemas and serde decoding,
  database failures other than constraint violations, the random IDs of audit entries, and the address
  of a client (\<open>ClientAddr\<close>), which depends on HTTP headers and on the text of IP addresses.
\<close>

end
